(* ===== verification/Prelude.thy ===== *)
theory Prelude
  imports Main "HOL-Library.Word"
begin

text \<open>
  The vocabulary every component of the development uses.

  \<^item> Machine integers: C's \<open>guint8\<close>, \<open>guint16\<close> and \<open>guint32\<close> are words of that
    width, so that wrap-around is the arithmetic of the type.
  \<^item> Faults: the ways in which the program stops without returning.  \<open>Abort\<close> is a
    failed \<open>assert\<close> or \<open>g_assert\<close> (both are compiled in: the Makefile does not define
    \<open>NDEBUG\<close>) or a \<open>g_error\<close>; \<open>Segv\<close> is an access through a NULL pointer or outside
    an object; \<open>Undef\<close> is any other undefined behaviour of C; \<open>Exit n\<close> is \<open>exit(n)\<close>; \<open>Hang\<close> is
    a loop that never ends.
  \<^item> Programs: a C function that reads and writes a state \<open>'s\<close> and returns an \<open>'a\<close> is a
    function \<open>'s \<Rightarrow> fault + 'a \<times> 's\<close>; \<open>andthen\<close> is the C sequence point.
  \<^item> Big-endian integers, the byte order of \<open>htons\<close> and \<open>htonl\<close>.
\<close>

unbundle bit_operations_syntax

named_theorems ios_specs \<open>what an operation of the I/O buffers does to their contents\<close>
named_theorems run_simps \<open>evaluation of the program combinators\<close>

type_synonym byte = "8 word"
type_synonym u16 = "16 word"
type_synonym u32 = "32 word"

subsection \<open>Faults and programs\<close>

datatype fault = Abort | Segv | Undef | Exit int | Hang

type_synonym 'a result = "fault + 'a"
type_synonym ('s, 'a) prog = "'s \<Rightarrow> ('a \<times> 's) result"

definition ret :: "'a \<Rightarrow> ('s, 'a) prog" where
  "ret x s = Inr (x, s)"

definition fail :: "fault \<Rightarrow> ('s, 'a) prog" where
  "fail e s = Inl e"

definition andthen :: "('s, 'a) prog \<Rightarrow> ('a \<Rightarrow> ('s, 'b) prog) \<Rightarrow> ('s, 'b) prog" where
  "andthen m f s = (case m s of Inl e \<Rightarrow> Inl e | Inr (x, t) \<Rightarrow> f x t)"

definition require :: "bool \<Rightarrow> ('s, unit) prog" where
  "require b = (if b then ret () else fail Abort)"

definition state :: "('s \<Rightarrow> 'a) \<Rightarrow> ('s, 'a) prog" where
  "state f s = Inr (f s, s)"

definition update :: "('s \<Rightarrow> 's) \<Rightarrow> ('s, unit) prog" where
  "update f s = Inr ((), f s)"

definition rbind :: "'a result \<Rightarrow> ('a \<Rightarrow> 'b result) \<Rightarrow> 'b result" where
  "rbind m f = (case m of Inl e \<Rightarrow> Inl e | Inr x \<Rightarrow> f x)"

lemma ret_apply [simp, run_simps]: "ret x s = Inr (x, s)"
  by (simp add: ret_def)

lemma fail_apply [simp, run_simps]: "fail e s = Inl e"
  by (simp add: fail_def)

lemma state_apply [simp, run_simps]: "state f s = Inr (f s, s)"
  by (simp add: state_def)

lemma update_apply [simp, run_simps]: "update f s = Inr ((), f s)"
  by (simp add: update_def)

lemma require_True [simp, run_simps]: "b \<Longrightarrow> require b s = Inr ((), s)"
  by (simp add: require_def)

lemma require_False [simp, run_simps]: "\<not> b \<Longrightarrow> require b s = Inl Abort"
  by (simp add: require_def)

lemma andthen_Inr [simp, run_simps]: "m s = Inr (x, t) \<Longrightarrow> andthen m f s = f x t"
  by (simp add: andthen_def)

lemma andthen_Inl [simp, run_simps]: "m s = Inl e \<Longrightarrow> andthen m f s = Inl e"
  by (simp add: andthen_def)

lemma andthen_InrE:
  assumes "andthen m f s = Inr r"
  obtains x t where "m s = Inr (x, t)" and "f x t = Inr r"
  using assms by (auto simp: andthen_def split: sum.splits)

lemma rbind_simps [simp, run_simps]:
  "rbind (Inl e) f = Inl e" "rbind (Inr x) f = f x"
  by (simp_all add: rbind_def)

lemma rbind_InrE:
  assumes "rbind m f = Inr y"
  obtains x where "m = Inr x" and "f x = Inr y"
  using assms by (cases m) auto

subsection \<open>Strings\<close>

text \<open>A C string literal as bytes, without its terminating NUL.\<close>

definition cstr :: "string \<Rightarrow> byte list" where
  "cstr s = map of_char s"

text \<open>What \<open>strlen\<close>, \<open>strdup\<close> and \<open>%s\<close> see of a buffer: the bytes before the first NUL.\<close>

definition c_string :: "byte list \<Rightarrow> byte list" where
  "c_string bs = takeWhile (\<lambda>b. b \<noteq> 0) bs"

lemma c_string_id: "0 \<notin> set bs \<Longrightarrow> c_string bs = bs"
  unfolding c_string_def by (rule takeWhile_eq_all_conv [THEN iffD2]) auto

subsection \<open>Big-endian integers\<close>

definition be16 :: "u16 \<Rightarrow> byte list" where
  "be16 w = [ucast (drop_bit 8 w), ucast w]"

definition be32 :: "u32 \<Rightarrow> byte list" where
  "be32 w = [ucast (drop_bit 24 w), ucast (drop_bit 16 w), ucast (drop_bit 8 w), ucast w]"

definition un_be16 :: "byte list \<Rightarrow> u16" where
  "un_be16 bs = push_bit 8 (ucast (bs ! 0)) OR ucast (bs ! 1)"

definition un_be32 :: "byte list \<Rightarrow> u32" where
  "un_be32 bs = push_bit 24 (ucast (bs ! 0)) OR push_bit 16 (ucast (bs ! 1))
     OR push_bit 8 (ucast (bs ! 2)) OR ucast (bs ! 3)"

lemma length_be16 [simp]: "length (be16 w) = 2"
  by (simp add: be16_def)

lemma length_be32 [simp]: "length (be32 w) = 4"
  by (simp add: be32_def)

lemma be_not_Nil [simp]: "be16 v \<noteq> []" "be32 w \<noteq> []"
  by (simp_all add: be16_def be32_def)

lemma byte_high_bits: "8 \<le> n \<Longrightarrow> \<not> bit (b :: byte) n"
  by (auto dest: bit_imp_le_length)

lemma un_be16_be16 [simp]: "un_be16 (be16 w @ r) = w"
  unfolding un_be16_def be16_def
  by (rule bit_eqI) (auto simp: bit_simps nth_append)

lemma un_be32_be32 [simp]: "un_be32 (be32 w @ r) = w"
proof (rule bit_word_eqI)
  fix n assume "n < LENGTH(32)"
  then consider "n < 8" | "8 \<le> n \<and> n < 16" | "16 \<le> n \<and> n < 24" | "24 \<le> n \<and> n < 32"
    by fastforce
  then show "bit (un_be32 (be32 w @ r)) n = bit w n"
    unfolding un_be32_def be32_def by cases (auto simp: bit_simps)
qed

lemma be16_un_be16: "be16 (un_be16 [a, b]) = [a, b]"
  unfolding un_be16_def be16_def
  by (auto intro!: bit_word_eqI simp: bit_simps byte_high_bits)

lemma be32_un_be32: "be32 (un_be32 [a, b, c, d]) = [a, b, c, d]"
  unfolding un_be32_def be32_def
  by (auto intro!: bit_word_eqI simp: bit_simps byte_high_bits)

subsection \<open>Words and natural numbers\<close>

lemma unat_add_nowrap:
  fixes a b :: "'a :: len word"
  shows "unat a + unat b < 2 ^ LENGTH('a) \<Longrightarrow> unat (a + b) = unat a + unat b"
  by (simp add: unat_word_ariths)

lemma unat_sub_nowrap:
  fixes a b :: "'a :: len word"
  shows "b \<le> a \<Longrightarrow> unat (a - b) = unat a - unat b"
  by (rule unat_sub)

lemma unat_u32_less [simp]: "unat (w :: u32) < 4294967296"
proof -
  have "unat w < 2 ^ LENGTH(32)" by (rule unsigned_less)
  then show ?thesis by simp
qed

lemma unat_u16_less [simp]: "unat (w :: u16) < 65536"
proof -
  have "unat w < 2 ^ LENGTH(16)" by (rule unsigned_less)
  then show ?thesis by simp
qed

lemma unat_of_nat_u32: "n < 4294967296 \<Longrightarrow> unat (of_nat n :: u32) = n"
  by (simp add: unat_of_nat)

lemma unat_ucast_u16 [simp]: "unat (ucast (w :: u16) :: u32) = unat w"
  by (simp add: unsigned_ucast_eq take_bit_nat_eq_self less_le_trans [OF unat_u16_less])

lemma u32_nonneg: "unat (w :: u32) < 2147483648 \<Longrightarrow> \<not> sint w < 0"
proof -
  assume "unat w < 2147483648"
  then have "\<not> bit (unat w) 31" by (simp add: bit_nat_iff bit_iff_odd)
  then have "\<not> bit w 31" by (simp add: bit_unsigned_iff)
  then show ?thesis using bit_last_iff [of w] by simp
qed

lemma low16_take_bit: "x AND 0xffff = take_bit 16 (x :: u32)"
  by (simp add: take_bit_eq_mask mask_eq_exp_minus_1)

lemma take_drop_mid: "take n (drop m (xs @ ys)) = take n (drop m xs)" if "m + n \<le> length xs"
  using that by simp

end
