(* ===== verification/Ios.thy ===== *)
theory Ios
  imports Prelude
begin

text \<open>
  \<open>ios.c\<close>: the growable buffers that hold everything the program sends, receives or
  stores.  A buffer is one allocation of \<open>alloc_len\<close> bytes of which the first \<open>len\<close> are
  initialised; \<open>read_ptr\<close> is the position of the reader.  The model keeps the initialised
  bytes (\<open>ios_bytes\<close>) and the three counters at their width of 32 bits.  A pointer into a
  buffer is the bytes that can be read from it, \<open>None\<close> for NULL.

  Second part: the abstract specification.  A buffer represents the queue of the bytes not
  yet read (\<open>ios_data\<close>); \<open>writes m bs\<close> says that \<open>m\<close> appends exactly \<open>bs\<close> to the queue,
  \<open>reads m bs x\<close> that \<open>m\<close> takes exactly \<open>bs\<close> off its front and returns \<open>x\<close>.  Both compose
  along \<open>andthen\<close>, so that the code that serialises a record is specified field by field.
\<close>

section \<open>The code\<close>

type_synonym pointer = "byte list option"

record iosbuf =
  ios_bytes :: "byte list"
  ios_len :: u32
  ios_read_ptr :: u32
  ios_alloc_len :: u32

definition ios_new :: iosbuf where
  "ios_new = \<lparr>ios_bytes = [], ios_len = 0, ios_read_ptr = 0, ios_alloc_len = 1024\<rparr>"

definition ios_grow :: "u32 \<Rightarrow> (iosbuf, unit) prog" where
  "ios_grow sz = andthen
     (\<lambda>ios. if ios_read_ptr ios \<noteq> 0
        then if ios_read_ptr ios > ios_len ios then Inl Segv
             else Inr ((), ios\<lparr>ios_bytes := drop (unat (ios_read_ptr ios)) (ios_bytes ios),
                            ios_len := ios_len ios - ios_read_ptr ios,
                            ios_read_ptr := 0\<rparr>)
        else Inr ((), ios))
     (\<lambda>_. update (\<lambda>ios. if ios_alloc_len ios < sz then ios\<lparr>ios_alloc_len := sz\<rparr> else ios))"

text \<open>
  \<open>(ios->len + sz) * GROWTH_FACTOR\<close>: the product with the double 1.2, converted back to
  \<open>guint32\<close>.  For every 32-bit operand the rounded double product truncates to
  \<open>6 * x div 5\<close>; a product that is out of range makes the conversion undefined.
\<close>

definition ios_growth :: "u32 \<Rightarrow> u32 option" where
  "ios_growth x = (let g = unat x * 6 div 5 in if g < 2 ^ 32 then Some (of_nat g) else None)"

definition ios_append :: "pointer \<Rightarrow> u32 \<Rightarrow> (iosbuf, unit) prog" where
  "ios_append data sz =
     (if sint sz < 0 then fail Abort
      else if sz = 0 then ret ()
      else case data of None \<Rightarrow> fail Abort
      | Some d \<Rightarrow> andthen
          (\<lambda>ios. if ios_len ios + ios_read_ptr ios + sz > ios_alloc_len ios
             then case ios_growth (ios_len ios + sz) of
                    None \<Rightarrow> Inl Undef | Some g \<Rightarrow> ios_grow g ios
             else Inr ((), ios))
          (\<lambda>_ ios. if unat (ios_len ios) + unat sz > unat (ios_alloc_len ios)
                       \<or> length d < unat sz
             then Inl Segv
             else Inr ((), ios\<lparr>ios_bytes := ios_bytes ios @ take (unat sz) d,
                            ios_len := ios_len ios + sz\<rparr>)))"

definition ios_append_ios :: "iosbuf \<Rightarrow> (iosbuf, unit) prog" where
  "ios_append_ios src = ios_append (Some (ios_bytes src)) (ios_len src)"

definition ios_new_copy :: "iosbuf \<Rightarrow> iosbuf result" where
  "ios_new_copy src = rbind (ios_append_ios src ios_new) (\<lambda>(_, ios). Inr ios)"

definition ios_buffer_size :: "iosbuf \<Rightarrow> u32" where
  "ios_buffer_size ios = ios_len ios - ios_read_ptr ios"

definition ios_at :: "iosbuf \<Rightarrow> u32 \<Rightarrow> pointer" where
  "ios_at ios offset =
     (if offset > ios_buffer_size ios \<or> ios_buffer_size ios = 0 then None
      else Some (drop (unat (ios_read_ptr ios + offset)) (ios_bytes ios)))"

definition ios_buffer :: "iosbuf \<Rightarrow> pointer" where
  "ios_buffer ios = ios_at ios 0"

text \<open>The bounds test of \<open>ios_read\<close> is a 32-bit sum, which wraps around.\<close>

definition ios_read :: "u32 \<Rightarrow> (iosbuf, pointer) prog" where
  "ios_read n ios =
     (if ios_read_ptr ios + n > ios_len ios then Inr (None, ios)
      else Inr (Some (drop (unat (ios_read_ptr ios)) (ios_bytes ios)),
                ios\<lparr>ios_read_ptr := ios_read_ptr ios + n\<rparr>))"

definition ios_reset :: "iosbuf \<Rightarrow> iosbuf" where
  "ios_reset ios = ios\<lparr>ios_bytes := [], ios_len := 0, ios_read_ptr := 0\<rparr>"

definition ios_append_int8 :: "byte \<Rightarrow> (iosbuf, unit) prog" where
  "ios_append_int8 num = ios_append (Some [num]) 1"

definition ios_append_int16 :: "u16 \<Rightarrow> (iosbuf, unit) prog" where
  "ios_append_int16 num = ios_append (Some (be16 num)) 2"

definition ios_append_int32 :: "u32 \<Rightarrow> (iosbuf, unit) prog" where
  "ios_append_int32 num = ios_append (Some (be32 num)) 4"

text \<open>A C string is given by its bytes without the terminating NUL; \<open>strlen\<close> is its length.\<close>

definition ios_append_string :: "byte list \<Rightarrow> (iosbuf, unit) prog" where
  "ios_append_string str = (let len = of_nat (length str) in
     andthen (ios_append_int32 len) (\<lambda>_. ios_append (Some str) len))"

definition ios_int16_at :: "iosbuf \<Rightarrow> u32 \<Rightarrow> u16 result" where
  "ios_int16_at ios offset = (case ios_buffer ios of None \<Rightarrow> Inl Segv
     | Some bp \<Rightarrow> if unat offset + 2 \<le> length bp then Inr (un_be16 (drop (unat offset) bp))
                  else Inl Undef)"

definition ios_int32_at :: "iosbuf \<Rightarrow> u32 \<Rightarrow> u32 result" where
  "ios_int32_at ios offset = (case ios_buffer ios of None \<Rightarrow> Inl Segv
     | Some bp \<Rightarrow> if unat offset + 4 \<le> length bp then Inr (un_be32 (drop (unat offset) bp))
                  else Inl Undef)"

text \<open>
  \<open>ios_read_int16\<close> and \<open>ios_read_int32\<close> read first and assert afterwards: with too few
  bytes left the assertion stops the program.
\<close>

definition ios_read_int16 :: "(iosbuf, u16) prog" where
  "ios_read_int16 ios = (let p = ios_read_ptr ios + 2 in
     if p > ios_len ios then Inl Abort
     else if unat (ios_read_ptr ios) + 2 > length (ios_bytes ios) then Inl Segv
     else Inr (un_be16 (drop (unat (ios_read_ptr ios)) (ios_bytes ios)), ios\<lparr>ios_read_ptr := p\<rparr>))"

definition ios_read_int32 :: "(iosbuf, u32) prog" where
  "ios_read_int32 ios = (let p = ios_read_ptr ios + 4 in
     if p > ios_len ios then Inl Abort
     else if unat (ios_read_ptr ios) + 4 > length (ios_bytes ios) then Inl Segv
     else Inr (un_be32 (drop (unat (ios_read_ptr ios)) (ios_bytes ios)), ios\<lparr>ios_read_ptr := p\<rparr>))"

text \<open>
  \<open>g_strndup(p, n)\<close> copies the bytes of \<open>p\<close> up to the first NUL, \<open>n\<close> at most; of NULL it
  is NULL.
\<close>

definition g_strndup :: "pointer \<Rightarrow> u32 \<Rightarrow> pointer result" where
  "g_strndup p n = (case p of None \<Rightarrow> Inr None
     | Some bs \<Rightarrow> if unat n \<le> length bs \<or> 0 \<in> set bs
                  then Inr (Some (c_string (take (unat n) bs))) else Inl Segv)"

definition ios_read_str :: "(iosbuf, pointer) prog" where
  "ios_read_str = andthen ios_read_int32 (\<lambda>len.
     if len \<noteq> 0
     then andthen (ios_read len) (\<lambda>p ios. rbind (g_strndup p len) (\<lambda>s. Inr (s, ios)))
     else ret None)"

definition ios_set_buffer :: "pointer \<Rightarrow> u32 \<Rightarrow> (iosbuf, unit) prog" where
  "ios_set_buffer data sz = andthen (require (data \<noteq> None)) (\<lambda>_.
     andthen (update ios_reset) (\<lambda>_. ios_append data sz))"

definition ios_copy_ios :: "iosbuf \<Rightarrow> (iosbuf, unit) prog" where
  "ios_copy_ios src = andthen (update ios_reset) (\<lambda>_. ios_append_ios src)"

text \<open>
  Two C idioms that the callers share: dereferencing the byte that \<open>ios_read(ios, 1)\<close>
  points to, and copying \<open>n\<close> bytes from where \<open>ios_read(ios, n)\<close> points to.
\<close>

definition ios_read_byte :: "(iosbuf, byte) prog" where
  "ios_read_byte = andthen (ios_read 1) (\<lambda>p. case p of
     Some (b # _) \<Rightarrow> ret b | _ \<Rightarrow> fail Segv)"

definition ios_read_mem :: "u32 \<Rightarrow> (iosbuf, byte list) prog" where
  "ios_read_mem n = andthen (ios_read n) (\<lambda>p. case p of
     Some bs \<Rightarrow> if unat n \<le> length bs then ret (take (unat n) bs) else fail Segv
   | None \<Rightarrow> if n = 0 then ret [] else fail Segv)"

section \<open>The abstract specification\<close>

definition ios_ok :: "iosbuf \<Rightarrow> bool" where
  "ios_ok ios \<longleftrightarrow> length (ios_bytes ios) = unat (ios_len ios)
     \<and> unat (ios_read_ptr ios) \<le> unat (ios_len ios)
     \<and> unat (ios_len ios) \<le> unat (ios_alloc_len ios)"

definition ios_data :: "iosbuf \<Rightarrow> byte list" where
  "ios_data ios = drop (unat (ios_read_ptr ios)) (ios_bytes ios)"

definition ios_room :: "iosbuf \<Rightarrow> nat \<Rightarrow> bool" where
  "ios_room ios n \<longleftrightarrow> unat (ios_len ios) + n < 2147483648"

definition ios_holds :: "byte list \<Rightarrow> iosbuf \<Rightarrow> bool" where
  "ios_holds bs ios \<longleftrightarrow> ios_ok ios \<and> ios_data ios = bs"

lemma ios_ok_new [simp, intro]: "ios_ok ios_new"
  by (simp add: ios_ok_def ios_new_def)

lemma ios_data_new [simp]: "ios_data ios_new = []"
  by (simp add: ios_data_def ios_new_def)

lemma ios_len_new [simp]: "ios_len ios_new = 0"
  by (simp add: ios_new_def)

lemma ios_ok_reset [simp, intro]: "ios_ok (ios_reset ios)"
  by (simp add: ios_ok_def ios_reset_def)

lemma ios_data_reset [simp]: "ios_data (ios_reset ios) = []"
  by (simp add: ios_data_def ios_reset_def)

lemma ios_room_new [simp]: "ios_room ios_new n \<longleftrightarrow> n < 2147483648"
  by (simp add: ios_room_def ios_new_def)

lemma ios_room_reset [simp]: "ios_room (ios_reset ios) n \<longleftrightarrow> n < 2147483648"
  by (simp add: ios_room_def ios_reset_def)

lemma ios_buffer_size_data:
  "ios_ok ios \<Longrightarrow> unat (ios_buffer_size ios) = length (ios_data ios)"
  unfolding ios_ok_def ios_data_def ios_buffer_size_def
  by (simp add: unat_sub word_le_nat_alt)

lemma ios_buffer_data:
  assumes "ios_ok ios"
  shows "ios_buffer ios = (if ios_data ios = [] then None else Some (ios_data ios))"
proof -
  have "ios_buffer_size ios = 0 \<longleftrightarrow> ios_data ios = []"
    using ios_buffer_size_data [OF assms] by (metis length_0_conv unat_eq_zero)
  then show ?thesis by (simp add: ios_buffer_def ios_at_def ios_data_def)
qed

lemma ios_grow_ok:
  assumes "ios_ok ios" and "unat (ios_len ios) \<le> unat g \<or> unat (ios_len ios) \<le> unat (ios_alloc_len ios)"
  shows "\<exists>ios'. ios_grow g ios = Inr ((), ios') \<and> ios_ok ios' \<and> ios_data ios' = ios_data ios
     \<and> ios_read_ptr ios' = 0 \<and> unat g \<le> unat (ios_alloc_len ios')
     \<and> unat (ios_len ios') \<le> unat (ios_len ios)"
  using assms
  by (auto simp: ios_grow_def andthen_def ios_ok_def ios_data_def word_less_nat_alt
      unat_sub word_le_nat_alt)

lemma ios_growth_enough:
  assumes "unat x < 2147483648"
  obtains g where "ios_growth x = Some g" and "unat x \<le> unat g"
proof -
  let ?g = "unat x * 6 div 5"
  have "?g < 2 ^ 32" using assms by simp
  moreover have "unat (of_nat ?g :: u32) = ?g" using assms by (simp add: unat_of_nat_u32)
  ultimately have "ios_growth x = Some (of_nat ?g)" "unat x \<le> unat (of_nat ?g :: u32)"
    by (simp_all add: ios_growth_def)
  then show ?thesis by (rule that)
qed

definition writes :: "(iosbuf, unit) prog \<Rightarrow> byte list \<Rightarrow> bool" where
  "writes m bs \<longleftrightarrow> (\<forall>ios. ios_ok ios \<and> ios_room ios (length bs) \<longrightarrow>
     (\<exists>ios'. m ios = Inr ((), ios') \<and> ios_ok ios' \<and> ios_data ios' = ios_data ios @ bs
        \<and> unat (ios_len ios') \<le> unat (ios_len ios) + length bs))"

definition reads :: "(iosbuf, 'a) prog \<Rightarrow> byte list \<Rightarrow> 'a \<Rightarrow> bool" where
  "reads m bs x \<longleftrightarrow> (\<forall>ios rest. ios_ok ios \<and> ios_data ios = bs @ rest \<longrightarrow>
     (\<exists>ios'. m ios = Inr (x, ios') \<and> ios_ok ios' \<and> ios_data ios' = rest))"

lemma writesE:
  assumes "writes m bs" "ios_ok ios" "ios_room ios (length bs)"
  obtains ios' where "m ios = Inr ((), ios')" "ios_ok ios'" "ios_data ios' = ios_data ios @ bs"
    "unat (ios_len ios') \<le> unat (ios_len ios) + length bs"
  using assms unfolding writes_def by blast

lemma readsE:
  assumes "reads m bs x" "ios_ok ios" "ios_data ios = bs @ rest"
  obtains ios' where "m ios = Inr (x, ios')" "ios_ok ios'" "ios_data ios' = rest"
  using assms unfolding reads_def by blast

lemma ios_append_spec:
  assumes ok: "ios_ok ios" and room: "ios_room ios n" and n: "n \<le> length d"
  shows "\<exists>ios'. ios_append (Some d) (of_nat n) ios = Inr ((), ios') \<and> ios_ok ios'
     \<and> ios_data ios' = ios_data ios @ take n d
     \<and> unat (ios_len ios') \<le> unat (ios_len ios) + n"
proof (cases "n = 0")
  case True
  then show ?thesis using ok by (simp add: ios_append_def)
next
  case False
  let ?s = "of_nat n :: u32"
  have small: "unat (ios_len ios) + n < 2147483648" using room by (simp add: ios_room_def)
  then have s: "unat ?s = n" by (simp add: unat_of_nat_u32)
  then have nz: "?s \<noteq> 0" using False by auto
  have sg: "\<not> sint ?s < 0" by (rule u32_nonneg) (use s small in simp)
  have len: "unat (ios_len ios + ?s) = unat (ios_len ios) + n"
    using small s by (simp add: unat_add_nowrap)
  have rp: "unat (ios_read_ptr ios) \<le> unat (ios_len ios)" using ok by (simp add: ios_ok_def)
  have sum: "unat (ios_len ios + ios_read_ptr ios + ?s) = unat (ios_len ios) + unat (ios_read_ptr ios) + n"
    using small s rp by (simp add: unat_add_nowrap)
  define grow where "grow = (if ios_len ios + ios_read_ptr ios + ?s > ios_alloc_len ios
             then case ios_growth (ios_len ios + ?s) of
                    None \<Rightarrow> Inl Undef | Some g \<Rightarrow> ios_grow g ios
             else Inr ((), ios))"
  have "\<exists>i. grow = Inr ((), i) \<and> ios_ok i \<and> ios_data i = ios_data ios
     \<and> unat (ios_len i) \<le> unat (ios_len ios) \<and> unat (ios_len i) + n \<le> unat (ios_alloc_len i)"
  proof (cases "ios_len ios + ios_read_ptr ios + ?s > ios_alloc_len ios")
    case True
    obtain g where g: "ios_growth (ios_len ios + ?s) = Some g" "unat (ios_len ios + ?s) \<le> unat g"
      using ios_growth_enough [of "ios_len ios + ?s"] len small by auto
    then show ?thesis
      using ios_grow_ok [OF ok, of g] True len by (fastforce simp: grow_def)
  next
    case no: False
    then have "unat (ios_len ios) + n \<le> unat (ios_alloc_len ios)"
      using sum by (simp add: word_less_nat_alt)
    then show ?thesis using no ok by (simp add: grow_def)
  qed
  then obtain i where i: "grow = Inr ((), i)" "ios_ok i" "ios_data i = ios_data ios"
    "unat (ios_len i) \<le> unat (ios_len ios)" "unat (ios_len i) + n \<le> unat (ios_alloc_len i)"
    by blast
  have leni: "unat (ios_len i + ?s) = unat (ios_len i) + n"
    using small s i(4) by (simp add: unat_add_nowrap)
  have "ios_append (Some d) ?s ios =
      Inr ((), i\<lparr>ios_bytes := ios_bytes i @ take n d, ios_len := ios_len i + ?s\<rparr>)"
    using sg nz i s n by (simp add: ios_append_def andthen_def grow_def [symmetric])
  then show ?thesis using i leni n s by (auto simp: ios_ok_def ios_data_def)
qed

lemma writes_append [ios_specs]:
  assumes "n = length bs" "n \<le> length d" "take n d = bs"
  shows "writes (ios_append (Some d) (of_nat n)) bs"
  unfolding writes_def using ios_append_spec [of _ n d] assms by auto

lemma writes_ret [ios_specs]: "writes (ret ()) []"
  by (simp add: writes_def)

lemma writes_andthen [ios_specs]:
  assumes "writes m bs" "writes (f ()) cs"
  shows "writes (andthen m f) (bs @ cs)"
  unfolding writes_def
proof (intro allI impI, elim conjE)
  fix ios assume "ios_ok ios" "ios_room ios (length (bs @ cs))"
  moreover from this obtain i where i: "m ios = Inr ((), i)" "ios_ok i" "ios_data i = ios_data ios @ bs"
    "unat (ios_len i) \<le> unat (ios_len ios) + length bs"
    using writesE [OF assms(1), of ios] by (auto simp: ios_room_def)
  moreover from calculation obtain j where "f () i = Inr ((), j)" "ios_ok j" "ios_data j = ios_data i @ cs"
    "unat (ios_len j) \<le> unat (ios_len i) + length cs"
    using writesE [OF assms(2), of i] by (auto simp: ios_room_def)
  ultimately show "\<exists>ios'. andthen m f ios = Inr ((), ios') \<and> ios_ok ios' \<and>
      ios_data ios' = ios_data ios @ bs @ cs \<and>
      unat (ios_len ios') \<le> unat (ios_len ios) + length (bs @ cs)"
    by auto
qed

lemma reads_ret [ios_specs]: "reads (ret x) [] x"
  by (simp add: reads_def)

lemma reads_andthen [ios_specs]:
  assumes "reads m bs x" "reads (f x) cs y"
  shows "reads (andthen m f) (bs @ cs) y"
  using assms unfolding reads_def by (fastforce simp: andthen_def)

lemma writes_int8 [ios_specs]: "writes (ios_append_int8 b) [b]"
  using writes_append [of 1 "[b]" "[b]"] by (simp add: ios_append_int8_def)

lemma writes_int16 [ios_specs]: "writes (ios_append_int16 w) (be16 w)"
  using writes_append [of 2 "be16 w" "be16 w"] by (simp add: ios_append_int16_def)

lemma writes_int32 [ios_specs]: "writes (ios_append_int32 w) (be32 w)"
  using writes_append [of 4 "be32 w" "be32 w"] by (simp add: ios_append_int32_def)

lemma writes_string [ios_specs]:
  "writes (ios_append_string s) (be32 (of_nat (length s)) @ s)"
  unfolding ios_append_string_def Let_def
  by (intro ios_specs) simp_all

lemma ios_ok_advance:
  assumes "ios_ok ios" "ios_data ios = bs @ rest" "unat n = length bs"
  shows "unat (ios_read_ptr ios + n) = unat (ios_read_ptr ios) + length bs"
    and "\<not> ios_read_ptr ios + n > ios_len ios"
    and "ios_ok (ios\<lparr>ios_read_ptr := ios_read_ptr ios + n\<rparr>)"
    and "ios_data (ios\<lparr>ios_read_ptr := ios_read_ptr ios + n\<rparr>) = rest"
proof -
  have l: "length bs \<le> length (ios_bytes ios) - unat (ios_read_ptr ios)"
    using arg_cong [OF assms(2), of length] by (simp add: ios_data_def)
  have ok: "length (ios_bytes ios) = unat (ios_len ios)" "unat (ios_read_ptr ios) \<le> unat (ios_len ios)"
    using assms(1) by (auto simp: ios_ok_def)
  have "unat (ios_read_ptr ios) + length bs \<le> unat (ios_len ios)" using l ok by simp
  then show *: "unat (ios_read_ptr ios + n) = unat (ios_read_ptr ios) + length bs"
    using assms(3) le_less_trans [OF _ unat_u32_less [of "ios_len ios"]]
    by (simp add: unat_add_nowrap)
  show "\<not> ios_read_ptr ios + n > ios_len ios"
    "ios_ok (ios\<lparr>ios_read_ptr := ios_read_ptr ios + n\<rparr>)"
    using * \<open>unat (ios_read_ptr ios) + length bs \<le> unat (ios_len ios)\<close> assms(1)
    by (auto simp: ios_ok_def word_less_nat_alt)
  show "ios_data (ios\<lparr>ios_read_ptr := ios_read_ptr ios + n\<rparr>) = rest"
    using assms(2) * by (simp add: ios_data_def add.commute flip: drop_drop)
qed

lemma reads_int32 [ios_specs]: "reads ios_read_int32 (be32 w) w"
  unfolding reads_def
proof (intro allI impI, elim conjE)
  fix ios rest assume a: "ios_ok ios" "ios_data ios = be32 w @ rest"
  note adv = ios_ok_advance [OF a, of 4, simplified]
  have "unat (ios_read_ptr ios) + 4 \<le> length (ios_bytes ios)"
    using arg_cong [OF a(2), of length] by (simp add: ios_data_def)
  then show "\<exists>ios'. ios_read_int32 ios = Inr (w, ios') \<and> ios_ok ios' \<and> ios_data ios' = rest"
    using adv a by (simp add: ios_read_int32_def Let_def ios_data_def word_less_nat_alt)
qed

lemma reads_int16 [ios_specs]: "reads ios_read_int16 (be16 w) w"
  unfolding reads_def
proof (intro allI impI, elim conjE)
  fix ios rest assume a: "ios_ok ios" "ios_data ios = be16 w @ rest"
  note adv = ios_ok_advance [OF a, of 2, simplified]
  have "unat (ios_read_ptr ios) + 2 \<le> length (ios_bytes ios)"
    using arg_cong [OF a(2), of length] by (simp add: ios_data_def)
  then show "\<exists>ios'. ios_read_int16 ios = Inr (w, ios') \<and> ios_ok ios' \<and> ios_data ios' = rest"
    using adv a by (simp add: ios_read_int16_def Let_def ios_data_def word_less_nat_alt)
qed

lemma ios_read_spec:
  assumes "ios_ok ios" "ios_data ios = bs @ rest" "unat n = length bs"
  shows "\<exists>ios'. ios_read n ios = Inr (Some (bs @ rest), ios') \<and> ios_ok ios' \<and> ios_data ios' = rest"
  using ios_ok_advance [OF assms] assms by (simp add: ios_read_def ios_data_def)

lemma reads_byte [ios_specs]: "reads ios_read_byte [b] b"
  unfolding reads_def ios_read_byte_def
  using ios_read_spec [where bs = "[b]" and n = 1] by (fastforce simp: andthen_def)

lemma reads_mem [ios_specs]: "unat n = length bs \<Longrightarrow> reads (ios_read_mem n) bs bs"
  unfolding reads_def ios_read_mem_def
  using ios_read_spec [where bs = bs and n = n] by (fastforce simp: andthen_def)

lemma reads_str [ios_specs]:
  assumes "s \<noteq> []" "0 \<notin> set s" "length s < 4294967296"
  shows "reads ios_read_str (be32 (of_nat (length s)) @ s) (Some s)"
  unfolding ios_read_str_def
proof (rule reads_andthen [OF reads_int32])
  let ?n = "of_nat (length s) :: u32"
  have n: "unat ?n = length s" using assms(3) by (rule unat_of_nat_u32)
  moreover have "?n \<noteq> 0" using n assms(1) by (metis length_0_conv unat_0)
  ultimately show "reads (if ?n \<noteq> 0 then andthen (ios_read ?n) (\<lambda>p ios. rbind (g_strndup p ?n) (\<lambda>s. Inr (s, ios)))
         else ret None) s (Some s)"
    using ios_read_spec [where bs = s and n = ?n] c_string_id [OF assms(2)]
    by (fastforce simp: reads_def andthen_def g_strndup_def)
qed

lemma reads_str_empty [ios_specs]: "reads ios_read_str (be32 0) None"
proof -
  have "reads ios_read_str (be32 0 @ []) None"
    unfolding ios_read_str_def by (rule reads_andthen [OF reads_int32]) (simp add: reads_ret)
  then show ?thesis by simp
qed

lemma ios_append_read_ptr:
  assumes "ios_append p n ios = Inr (x, ios')" "ios_read_ptr ios = 0"
  shows "ios_read_ptr ios' = 0"
  using assms by (auto simp: ios_append_def ios_grow_def andthen_def
      split: if_splits sum.splits option.splits)

lemma ios_set_buffer_read_ptr:
  assumes "ios_set_buffer p n ios = Inr (x, ios')"
  shows "ios_read_ptr ios' = 0"
proof -
  have "ios_append p n (ios_reset ios) = Inr (x, ios')"
    using assms by (cases p) (simp_all add: ios_set_buffer_def)
  then show ?thesis by (rule ios_append_read_ptr) (simp add: ios_reset_def)
qed

section \<open>Wire formats\<close>

text \<open>
  The contract of a serialiser and its deserialiser: \<open>put x\<close> appends the encoding of \<open>x\<close>,
  \<open>get\<close> takes it off again.  Every record the program stores or sends has such a pair; the
  facts below are proved once, from the contract.
\<close>

primrec put_list :: "('a \<Rightarrow> (iosbuf, unit) prog) \<Rightarrow> 'a list \<Rightarrow> (iosbuf, unit) prog" where
  "put_list put [] = ret ()"
| "put_list put (x # xs) = andthen (put x) (\<lambda>_. put_list put xs)"

primrec get_list :: "(iosbuf, 'a) prog \<Rightarrow> nat \<Rightarrow> (iosbuf, 'a list) prog" where
  "get_list get 0 = ret []"
| "get_list get (Suc n) = andthen get (\<lambda>x. andthen (get_list get n) (\<lambda>xs. ret (x # xs)))"

locale wire_format =
  fixes put :: "'a \<Rightarrow> (iosbuf, unit) prog"
    and get :: "(iosbuf, 'a) prog"
    and enc :: "'a \<Rightarrow> byte list"
    and valid :: "'a \<Rightarrow> bool"
  assumes put_writes: "valid x \<Longrightarrow> writes (put x) (enc x)"
    and get_reads: "valid x \<Longrightarrow> reads get (enc x) x"
begin

lemma roundtrip:
  assumes "valid x" "length (enc x) < 2147483648"
  shows "\<exists>ios ios'. put x ios_new = Inr ((), ios) \<and> ios_ok ios \<and> ios_data ios = enc x
    \<and> get ios = Inr (x, ios') \<and> ios_ok ios' \<and> ios_data ios' = []"
proof -
  obtain ios where ios: "put x ios_new = Inr ((), ios)" "ios_ok ios" "ios_data ios = enc x"
    using writesE [OF put_writes [OF assms(1)], of ios_new] assms(2) by auto
  moreover obtain ios' where "get ios = Inr (x, ios')" "ios_ok ios'" "ios_data ios' = []"
    using readsE [OF get_reads [OF assms(1)], of ios "[]"] ios by auto
  ultimately show ?thesis by blast
qed

lemma list_writes: "\<forall>x\<in>set xs. valid x \<Longrightarrow> writes (put_list put xs) (concat (map enc xs))"
  by (induction xs) (auto intro: ios_specs put_writes)

lemma list_reads: "\<forall>x\<in>set xs. valid x \<Longrightarrow> reads (get_list get (length xs)) (concat (map enc xs)) xs"
proof (induction xs)
  case Nil
  then show ?case by (simp add: reads_def)
next
  case (Cons x xs)
  have "reads (andthen (get_list get (length xs)) (\<lambda>ys. ret (x # ys)))
      (concat (map enc xs) @ []) (x # xs)"
    by (rule reads_andthen) (use Cons in \<open>auto intro: reads_ret\<close>)
  then show ?case using Cons.prems by (auto intro: reads_andthen get_reads)
qed

end

interpretation int8_wire: wire_format ios_append_int8 ios_read_byte "\<lambda>b. [b]" "\<lambda>_. True"
  by unfold_locales (auto intro: ios_specs)

interpretation int16_wire: wire_format ios_append_int16 ios_read_int16 be16 "\<lambda>_. True"
  by unfold_locales (auto intro: ios_specs)

interpretation int32_wire: wire_format ios_append_int32 ios_read_int32 be32 "\<lambda>_. True"
  by unfold_locales (auto intro: ios_specs)

text \<open>A buffer whose contents are any given bytes.\<close>

definition ios_of :: "byte list \<Rightarrow> iosbuf" where
  "ios_of bs = \<lparr>ios_bytes = bs, ios_len = of_nat (length bs), ios_read_ptr = 0,
     ios_alloc_len = of_nat (max 1024 (length bs))\<rparr>"

lemma ios_of_ok [simp]: "length bs < 4294967296 \<Longrightarrow> ios_ok (ios_of bs)"
  by (auto simp: ios_ok_def ios_of_def unat_of_nat_u32 max_def)

lemma ios_of_data [simp]: "ios_data (ios_of bs) = bs"
  by (simp add: ios_data_def ios_of_def)

lemma ios_of_size [simp]: "ios_buffer_size (ios_of bs) = of_nat (length bs)"
  by (simp add: ios_buffer_size_def ios_of_def)

lemma ios_of_room [simp]: "length bs < 4294967296 \<Longrightarrow> ios_room (ios_of bs) n \<longleftrightarrow> length bs + n < 2147483648"
  by (simp add: ios_room_def ios_of_def unat_of_nat_u32)

end
