(* ===== verification/Stdio.thy ===== *)
theory Stdio
  imports Prelude
begin

text \<open>
  The part of the C standard library that the program uses on open files.  A stream has the
  contents of its file, a position and the two sticky flags.  Reading can fail: \<open>cf_bad\<close> is
  the offset of the first byte that the device cannot deliver, and \<open>cf_seekable\<close> says
  whether \<open>fseek\<close> works (it does not on a pipe).
\<close>

record cfile =
  cf_data :: "byte list"
  cf_pos :: nat
  cf_eof :: bool
  cf_err :: bool
  cf_bad :: "nat option"
  cf_seekable :: bool

definition cf_limit :: "cfile \<Rightarrow> nat" where
  "cf_limit f = (case cf_bad f of None \<Rightarrow> length (cf_data f) | Some k \<Rightarrow> min k (length (cf_data f)))"

definition fread :: "nat \<Rightarrow> (cfile, byte list) prog" where
  "fread n f = (let got = take n (drop (cf_pos f) (take (cf_limit f) (cf_data f)));
       short = length got < n; bad = cf_limit f < length (cf_data f) in
     Inr (got, f\<lparr>cf_pos := cf_pos f + length got,
                cf_eof := cf_eof f \<or> (short \<and> \<not> bad),
                cf_err := cf_err f \<or> (short \<and> bad)\<rparr>))"

text \<open>\<open>fseek(fp, offset, SEEK_SET)\<close>: the result is \<open>True\<close> on success.\<close>

definition fseek :: "nat \<Rightarrow> (cfile, bool) prog" where
  "fseek offset f = (if cf_seekable f
     then Inr (True, f\<lparr>cf_pos := offset, cf_eof := False\<rparr>) else Inr (False, f))"

definition rewind :: "(cfile, unit) prog" where
  "rewind f = Inr ((), f\<lparr>cf_pos := (if cf_seekable f then 0 else cf_pos f),
     cf_eof := False, cf_err := False\<rparr>)"

definition clearerr :: "(cfile, unit) prog" where
  "clearerr f = Inr ((), f\<lparr>cf_eof := False, cf_err := False\<rparr>)"

text \<open>A file just opened for reading, on a healthy device.\<close>

definition fopen_r :: "byte list \<Rightarrow> cfile" where
  "fopen_r bs = \<lparr>cf_data = bs, cf_pos = 0, cf_eof = False, cf_err = False,
     cf_bad = None, cf_seekable = True\<rparr>"

definition cf_healthy :: "cfile \<Rightarrow> bool" where
  "cf_healthy f \<longleftrightarrow> cf_bad f = None \<and> cf_seekable f"

lemma fopen_r_healthy [simp]: "cf_healthy (fopen_r bs)" "cf_data (fopen_r bs) = bs"
  by (simp_all add: cf_healthy_def fopen_r_def)

lemma fread_data:
  "fread n f = Inr (got, f') \<Longrightarrow> cf_data f' = cf_data f \<and> cf_bad f' = cf_bad f
     \<and> cf_seekable f' = cf_seekable f \<and> cf_pos f' = cf_pos f + length got \<and> length got \<le> n"
  by (auto simp: fread_def Let_def)

lemma fread_progress:
  assumes "fread n f = Inr (got, f')"
  shows "cf_limit f' = cf_limit f" "cf_pos f' = cf_pos f + length got"
    "length got \<le> cf_limit f - cf_pos f"
    "length got < n \<Longrightarrow> cf_eof f' \<or> cf_err f'"
proof -
  note d = fread_data [OF assms]
  then show "cf_limit f' = cf_limit f" "cf_pos f' = cf_pos f + length got"
    by (auto simp: cf_limit_def split: option.splits)
  have got: "got = take n (drop (cf_pos f) (take (cf_limit f) (cf_data f)))"
    and flags: "cf_eof f' = (cf_eof f \<or> (length got < n \<and> \<not> cf_limit f < length (cf_data f)))"
      "cf_err f' = (cf_err f \<or> (length got < n \<and> cf_limit f < length (cf_data f)))"
    using assms by (auto simp: fread_def Let_def)
  have "cf_limit f \<le> length (cf_data f)" by (simp add: cf_limit_def split: option.splits)
  then show "length got \<le> cf_limit f - cf_pos f" by (simp add: got)
  show "length got < n \<Longrightarrow> cf_eof f' \<or> cf_err f'" using flags by auto
qed

lemma fread_healthy:
  "cf_healthy f \<Longrightarrow> fread n f = Inr (take n (drop (cf_pos f) (cf_data f)),
     f\<lparr>cf_pos := cf_pos f + min n (length (cf_data f) - cf_pos f),
       cf_eof := cf_eof f \<or> length (cf_data f) - cf_pos f < n\<rparr>)"
  by (auto simp: fread_def Let_def cf_healthy_def cf_limit_def min_def)

lemma fseek_healthy:
  "cf_healthy f \<Longrightarrow> fseek n f = Inr (True, f\<lparr>cf_pos := n, cf_eof := False\<rparr>)"
  by (simp add: fseek_def cf_healthy_def)

text \<open>\<open>fwrite\<close> at a position of a file: a gap before it reads as zeros.\<close>

definition write_at :: "nat \<Rightarrow> byte list \<Rightarrow> byte list \<Rightarrow> byte list" where
  "write_at off new old =
     (if new = [] then old
      else take off old @ replicate (off - length old) 0 @ new @ drop (off + length new) old)"

lemma length_write_at:
  "length (write_at off new old) = (if new = [] then length old else max (length old) (off + length new))"
  by (auto simp: write_at_def max_def)

lemma nth_write_at:
  assumes "k < length (write_at off new old)"
  shows "write_at off new old ! k =
    (if off \<le> k \<and> k < off + length new then new ! (k - off)
     else if k < length old then old ! k else 0)"
proof -
  have "min (length old) off + (off - length old) = off" by simp
  then show ?thesis using assms by (auto simp: write_at_def nth_append split: if_splits)
qed

end
