(* ===== verification/Checksum.thy ===== *)
theory Checksum
  imports Stdio
begin

text \<open>
  \<open>checksum.c\<close>: the weak rolling checksum and the strong checksum.  Characters are signed
  (\<open>signed char *buf\<close>), so a byte contributes its sign extension, and the sums are
  \<open>guint32\<close>.  The strong checksum is SHA-1 of OpenSSL, which is a parameter \<open>sha1\<close>.
  \<open>WCsum_make_hash\<close> and \<open>SCsum_match\<close> are in the theories \<open>Weak_Index\<close> and \<open>Block\<close>.

  What is shown: the loop of \<open>WCsum_get\<close> computes the two weighted sums of its words; the
  constant-time \<open>WCsum_update\<close> equals \<open>WCsum_get\<close> of the window moved by one word; the read
  loop of \<open>SCsum_file\<close> digests the whole file.
\<close>

section \<open>The weak checksum\<close>

definition CHAR4_TO_INT32 :: "byte list \<Rightarrow> u32" where
  "CHAR4_TO_INT32 b = push_bit 24 (scast (b ! 0)) + push_bit 16 (scast (b ! 1))
     + push_bit 8 (scast (b ! 2)) + scast (b ! 3)"

abbreviation (input) M16 :: u32 where "M16 \<equiv> 0xffff"

function WCsum_loop :: "byte list \<Rightarrow> u32 \<Rightarrow> nat \<Rightarrow> nat \<Rightarrow> u32 \<Rightarrow> u32 \<Rightarrow> (u32 \<times> u32) result" where
  "WCsum_loop buf len4 len i s1 s2 =
     (if i < len
      then if i + 4 \<le> length buf
           then let s = CHAR4_TO_INT32 (drop i buf)
                in WCsum_loop buf len4 len (i + 4) (s1 + s) (s2 + (len4 - of_nat (i div 4)) * s)
           else Inl Segv
      else Inr (s1, s2))"
  by pat_completeness auto
termination
  by (relation "measure (\<lambda>(buf, len4, len, i, s1, s2). len - i)") auto

declare WCsum_loop.simps [simp del]

definition WCsum_get :: "byte list \<Rightarrow> u16 \<Rightarrow> u32 result" where
  "WCsum_get buf len = rbind (WCsum_loop buf (drop_bit 2 (ucast len)) (unat len) 0 0 0)
     (\<lambda>(s1, s2). Inr (push_bit 16 (s2 AND M16) + (s1 AND M16)))"

definition WCsum_update :: "byte list \<Rightarrow> byte list \<Rightarrow> u32 \<Rightarrow> u32 \<Rightarrow> u32" where
  "WCsum_update old4 new4 old_sum len =
     (let s_old = CHAR4_TO_INT32 old4; s_new = CHAR4_TO_INT32 new4;
          s1 = (old_sum AND M16) - s_old + s_new;
          s2 = drop_bit 16 old_sum AND M16;
          s2 = ((s2 - drop_bit 2 len * s_old) AND M16) + s1
      in push_bit 16 (s2 AND M16) + (s1 AND M16))"

section \<open>The strong checksum\<close>

abbreviation (input) SCsumLength :: u32 where "SCsumLength \<equiv> 20"

definition SCsum_cmp :: "byte list \<Rightarrow> byte list \<Rightarrow> bool" where
  "SCsum_cmp sc1 sc2 = (take 20 sc1 = take 20 sc2)"

text \<open>
  \<open>SHA1_Init\<close>, \<open>SHA1_Update\<close> and \<open>SHA1_Final\<close> digest the concatenation of what they are
  given.  Each round of the loop reads one chunk, until an end-of-file or error flag is set.
\<close>

function SCsum_file_loop :: "byte list \<Rightarrow> (cfile, byte list) prog" where
  "SCsum_file_loop acc f =
     (if cf_eof f \<or> cf_err f then Inr (acc, f)
      else case fread 8196 f of Inl e \<Rightarrow> Inl e
           | Inr (buf, f') \<Rightarrow> SCsum_file_loop (acc @ buf) f')"
  by pat_completeness auto
termination
proof (relation "measures [\<lambda>(acc, f). cf_limit f - cf_pos f,
    \<lambda>(acc, f). if cf_eof f \<or> cf_err f then 0 else 1]", goal_cases)
  case 1
  then show ?case by simp
next
  case (2 acc f r buf f')
  then have r: "fread 8196 f = Inr (buf, f')" by simp
  note p = fread_progress [OF r]
  show ?case
  proof (cases "buf = []")
    case True
    then have "cf_eof f' \<or> cf_err f'" using p(4) by simp
    then show ?thesis using True p(1,2) 2(1) by simp
  next
    case False
    then have "0 < length buf" by simp
    then have "cf_limit f' - cf_pos f' < cf_limit f - cf_pos f" using p(1,2,3) by arith
    then show ?thesis by simp
  qed
qed

declare SCsum_file_loop.simps [simp del]

definition SCsum_file :: "(byte list \<Rightarrow> byte list) \<Rightarrow> (cfile, byte list) prog" where
  "SCsum_file sha1 = andthen rewind (\<lambda>_. andthen (SCsum_file_loop []) (\<lambda>data. ret (sha1 data)))"

section \<open>The words of a window and their sums\<close>

text \<open>
  The reference: a window of the file is a list of 32-bit words \<open>w\<^sub>0 \<dots> w\<^sub>n\<^sub>-\<^sub>1\<close>; the checksum packs the
  low halves of their sum and of the sum weighted with \<open>n, n-1, \<dots>, 1\<close>.
\<close>

fun wc_words :: "byte list \<Rightarrow> u32 list" where
  "wc_words (a # b # c # d # bs) = CHAR4_TO_INT32 [a, b, c, d] # wc_words bs"
| "wc_words _ = []"

primrec wc_weighted :: "u32 list \<Rightarrow> u32" where
  "wc_weighted [] = 0"
| "wc_weighted (w # ws) = of_nat (Suc (length ws)) * w + wc_weighted ws"

definition wc_pack :: "u32 list \<Rightarrow> u32" where
  "wc_pack ws = push_bit 16 (wc_weighted ws AND M16) + (sum_list ws AND M16)"

subsection \<open>The loop computes them\<close>

lemma CHAR4_take: "4 \<le> n \<Longrightarrow> CHAR4_TO_INT32 (take n b) = CHAR4_TO_INT32 b"
  by (simp add: CHAR4_TO_INT32_def)

lemma wc_words_step:
  assumes "4 \<le> length bs"
  shows "wc_words bs = CHAR4_TO_INT32 bs # wc_words (drop 4 bs)"
  using assms by (cases bs rule: wc_words.cases) (auto simp: CHAR4_TO_INT32_def)

lemma length_wc_words: "length (wc_words bs) = length bs div 4"
  by (induction bs rule: wc_words.induct) auto

lemma wc_words_append: "4 dvd length xs \<Longrightarrow> wc_words (xs @ ys) = wc_words xs @ wc_words ys"
proof (induction xs rule: wc_words.induct)
  case (1 a b c d bs)
  then have "4 dvd length bs" by (simp add: dvd_def) presburger
  with 1 show ?case by simp
qed (auto dest: dvd_imp_le)

lemma WCsum_loop_words:
  assumes "4 dvd len" "4 dvd i" "i \<le> len" "len \<le> length buf" "len4 = of_nat (len div 4)"
  shows "WCsum_loop buf len4 len i s1 s2 =
     Inr (s1 + sum_list (wc_words (take (len - i) (drop i buf))),
          s2 + wc_weighted (wc_words (take (len - i) (drop i buf))))"
  using assms
proof (induction buf len4 len i s1 s2 rule: WCsum_loop.induct)
  case (1 buf len4 len i s1 s2)
  show ?case
  proof (cases "i < len")
    case False
    then show ?thesis using 1 by (simp add: WCsum_loop.simps [of buf])
  next
    case True
    let ?rest = "take (len - i) (drop i buf)"
    have i4: "i + 4 \<le> len" using True 1 by (auto simp: dvd_def)
    have "wc_words ?rest = CHAR4_TO_INT32 ?rest # wc_words (drop 4 ?rest)"
      by (rule wc_words_step) (use i4 1(5) in simp)
    moreover have "drop 4 ?rest = take (len - (i + 4)) (drop (i + 4) buf)"
      by (simp add: drop_take add.commute)
    moreover have "CHAR4_TO_INT32 ?rest = CHAR4_TO_INT32 (drop i buf)"
      by (rule CHAR4_take) (use i4 in simp)
    ultimately have w: "wc_words ?rest = CHAR4_TO_INT32 (drop i buf)
        # wc_words (take (len - (i + 4)) (drop (i + 4) buf))" by simp
    have "len - i = 4 * (len div 4 - i div 4)" using 1(2,3) by (auto simp: dvd_def)
    then have l: "length (wc_words ?rest) = len div 4 - i div 4"
      using 1(5) i4 by (simp add: length_wc_words)
    have le: "i div 4 \<le> len div 4" using i4 by simp
    have n: "len4 - of_nat (i div 4) = of_nat (length (wc_words ?rest))"
      unfolding l 1(6) using le by (simp only: of_nat_diff)
    let ?s = "CHAR4_TO_INT32 (drop i buf)"
    have "WCsum_loop buf len4 len i s1 s2 =
        WCsum_loop buf len4 len (i + 4) (s1 + ?s) (s2 + (len4 - of_nat (i div 4)) * ?s)"
      using True i4 1(5) by (simp add: WCsum_loop.simps [of buf len4 len i] Let_def)
    also have "\<dots> = Inr (s1 + ?s + sum_list (wc_words (take (len - (i + 4)) (drop (i + 4) buf))),
        s2 + (len4 - of_nat (i div 4)) * ?s + wc_weighted (wc_words (take (len - (i + 4)) (drop (i + 4) buf))))"
      by (rule 1(1)) (use True i4 1 in auto)
    finally show ?thesis by (simp add: n w add.assoc)
  qed
qed
subsection \<open>The update rolls the window\<close>

lemma take_bit_add_left: "take_bit 16 (take_bit 16 a + b) = take_bit 16 (a + b :: u32)"
  by transfer (simp add: take_bit_take_bit take_bit_add min_def mod_simps take_bit_eq_mod)

lemma take_bit_add_right: "take_bit 16 (b + take_bit 16 a) = take_bit 16 (b + a :: u32)"
  by (simp add: add.commute [of b] take_bit_add_left)

lemma take_bit_diff_left: "take_bit 16 (take_bit 16 a - b) = take_bit 16 (a - b :: u32)"
  by transfer (simp add: take_bit_take_bit take_bit_add min_def mod_simps take_bit_eq_mod)

lemma take_bit_pack: "take_bit 16 (push_bit 16 (take_bit 16 y) + take_bit 16 x) = take_bit 16 (x::u32)"
  by transfer (simp add: take_bit_eq_mod push_bit_eq_mult mod_simps)

lemma drop_bit_pack: "drop_bit 16 (push_bit 16 (take_bit 16 y) + take_bit 16 x) = take_bit 16 (y::u32)"
  by transfer (simp add: take_bit_eq_mod push_bit_eq_mult mod_simps drop_bit_eq_div)

lemma take_bit_roll: "take_bit 16 (take_bit 16 a - b + c) = take_bit 16 (a - b + c :: u32)"
  by (metis take_bit_add_left take_bit_diff_left)

lemma wc_weighted_snoc: "wc_weighted (ws @ [w]) = wc_weighted ws + sum_list ws + w"
  by (induction ws) (auto simp: algebra_simps)

lemma WCsum_update_pack:
  assumes "drop_bit 2 len = of_nat (Suc (length ws))"
  shows "WCsum_update old4 new4 (wc_pack (CHAR4_TO_INT32 old4 # ws)) len
    = wc_pack (ws @ [CHAR4_TO_INT32 new4])"
proof -
  let ?o = "CHAR4_TO_INT32 old4" and ?n = "CHAR4_TO_INT32 new4"
  define W S where "W = wc_weighted (?o # ws)" and "S = sum_list (?o # ws)"
  have lo: "take_bit 16 (wc_pack (?o # ws)) = take_bit 16 S"
    by (simp add: wc_pack_def low16_take_bit take_bit_pack W_def S_def)
  have hi: "take_bit 16 (drop_bit 16 (wc_pack (?o # ws))) = take_bit 16 W"
    by (simp add: wc_pack_def low16_take_bit drop_bit_pack W_def S_def)
  have s1: "take_bit 16 (take_bit 16 S - ?o + ?n) = take_bit 16 (sum_list (ws @ [?n]))"
    by (simp add: take_bit_roll S_def)
  have "take_bit 16 (take_bit 16 (take_bit 16 W - drop_bit 2 len * ?o) + (take_bit 16 S - ?o + ?n))
      = take_bit 16 (W - drop_bit 2 len * ?o + (take_bit 16 S - ?o + ?n))"
    by (simp add: take_bit_add_left take_bit_diff_left)
  also have "\<dots> = take_bit 16 (W - drop_bit 2 len * ?o + take_bit 16 (take_bit 16 S - ?o + ?n))"
    by (rule take_bit_add_right [symmetric])
  also have "\<dots> = take_bit 16 (W - drop_bit 2 len * ?o + sum_list (ws @ [?n]))"
    by (simp only: s1 take_bit_add_right)
  also have "W - drop_bit 2 len * ?o + sum_list (ws @ [?n]) = wc_weighted (ws @ [?n])"
    by (simp add: W_def assms wc_weighted_snoc algebra_simps)
  finally have s2: "take_bit 16 (take_bit 16 (take_bit 16 W - drop_bit 2 len * ?o)
      + (take_bit 16 S - ?o + ?n)) = take_bit 16 (wc_weighted (ws @ [?n]))" .
  have "WCsum_update old4 new4 (wc_pack (?o # ws)) len =
      push_bit 16 (take_bit 16 (take_bit 16 (take_bit 16 W - drop_bit 2 len * ?o)
        + (take_bit 16 S - ?o + ?n))) + take_bit 16 (take_bit 16 S - ?o + ?n)"
    unfolding WCsum_update_def Let_def low16_take_bit lo hi by (rule refl)
  then show ?thesis
    unfolding s1 s2 wc_pack_def low16_take_bit .
qed

lemma len4_of_u16: "drop_bit 2 (ucast (len :: u16) :: u32) = of_nat (unat len div 4)"
proof -
  have "unat len mod 4294967296 = unat len"
    by (rule mod_less) (rule less_trans [OF unat_u16_less], simp)
  moreover have "unat len div 4 < 4294967296"
    by (rule le_less_trans [OF div_le_dividend]) (rule less_trans [OF unat_u16_less], simp)
  ultimately show ?thesis
    by (simp add: word_unat_eq_iff drop_bit_eq_div unat_of_nat_u32 unat_div
        unsigned_ucast_eq take_bit_eq_mod)
qed

lemma WCsum_get_words:
  assumes "4 dvd unat len" "unat len \<le> length buf"
  shows "WCsum_get buf len = Inr (wc_pack (wc_words (take (unat len) buf)))"
  using WCsum_loop_words [of "unat len" 0 buf, OF assms(1) _ _ assms(2)]
  by (simp add: WCsum_get_def wc_pack_def len4_of_u16)

lemma WCsum_get_short:
  assumes "length buf < unat len" "4 dvd unat len"
  shows "WCsum_get buf len = Inl Segv"
proof -
  have "WCsum_loop buf l n i s1 s2 = Inl Segv" if "length buf < n" "4 dvd n" "4 dvd i" "i < n" for l n i s1 s2
    using that
  proof (induction buf l n i s1 s2 rule: WCsum_loop.induct)
    case (1 buf len4 len i s1 s2)
    show ?case
    proof (cases "i + 4 \<le> length buf")
      case True
      then have "WCsum_loop buf len4 len (i + 4) (s1 + CHAR4_TO_INT32 (drop i buf))
          (s2 + (len4 - of_nat (i div 4)) * CHAR4_TO_INT32 (drop i buf)) = Inl Segv"
        using 1(1) [OF 1(5) True refl] 1(2-5) by auto
      then show ?thesis using True 1(5) by (simp add: WCsum_loop.simps [of buf] Let_def)
    next
      case False
      then show ?thesis using 1(5) by (simp add: WCsum_loop.simps [of buf])
    qed
  qed
  then have "WCsum_loop buf (drop_bit 2 (ucast len)) (unat len) 0 0 0 = Inl Segv"
    using assms by auto
  then show ?thesis by (simp add: WCsum_get_def)
qed

lemma WCsum_roll:
  assumes "4 dvd unat len" "length (w :: byte list) = unat len" "0 < unat len" "length n4 = 4"
  shows "\<exists>c. WCsum_get w len = Inr c
    \<and> WCsum_get (drop 4 w @ n4) len = Inr (WCsum_update w n4 c (ucast len))"
proof -
  have l4: "4 \<le> length w" using assms by (auto dest: dvd_imp_le)
  let ?ws = "wc_words (drop 4 w)"
  have ws: "wc_words w = CHAR4_TO_INT32 w # ?ws" by (rule wc_words_step [OF l4])
  have n: "wc_words n4 = [CHAR4_TO_INT32 n4]"
    using wc_words_step [of n4] assms(4) by simp
  have "4 dvd length (drop 4 w)" using assms(1,2) l4 by (simp add: dvd_diff_nat)
  then have app: "wc_words (drop 4 w @ n4) = ?ws @ [CHAR4_TO_INT32 n4]"
    by (simp add: wc_words_append n)
  have "Suc (length ?ws) = unat len div 4"
    using arg_cong [OF ws, of length] assms(2) by (simp add: length_wc_words)
  then have "drop_bit 2 (ucast len :: u32) = of_nat (Suc (length ?ws))"
    by (simp add: len4_of_u16)
  then show ?thesis
    using WCsum_get_words [of len w] WCsum_get_words [of len "drop 4 w @ n4"] assms l4
      WCsum_update_pack [of "ucast len" ?ws w n4] ws app by simp
qed

lemma SCsum_file_loop_reads:
  assumes "\<not> cf_eof f" "\<not> cf_err f"
  shows "\<exists>f'. SCsum_file_loop acc f = Inr (acc @ drop (cf_pos f) (take (cf_limit f) (cf_data f)), f')
    \<and> cf_data f' = cf_data f \<and> cf_bad f' = cf_bad f \<and> cf_seekable f' = cf_seekable f"
  using assms
proof (induction acc f rule: SCsum_file_loop.induct)
  case (1 acc f)
  obtain buf f' where r: "fread 8196 f = Inr (buf, f')"
    by (simp add: fread_def Let_def)
  note d = fread_data [OF r] and p = fread_progress [OF r]
  have buf: "buf = take 8196 (drop (cf_pos f) (take (cf_limit f) (cf_data f)))"
    using r by (auto simp: fread_def Let_def)
  have step: "SCsum_file_loop acc f = SCsum_file_loop (acc @ buf) f'"
    using 1(2,3) r by (simp add: SCsum_file_loop.simps [of acc f])
  show ?case
  proof (cases "cf_eof f' \<or> cf_err f'")
    case True
    then have "SCsum_file_loop (acc @ buf) f' = Inr (acc @ buf, f')"
      by (simp add: SCsum_file_loop.simps [of "acc @ buf" f'])
    moreover have "length buf < 8196"
      using r True 1(2,3) by (auto simp: fread_def Let_def)
    then have "buf = drop (cf_pos f) (take (cf_limit f) (cf_data f))"
      using buf by simp
    ultimately show ?thesis using step d by auto
  next
    case False
    have "length buf = 8196" using p(4) False d by (metis le_neq_implies_less)
    then have "buf @ drop (cf_pos f') (take (cf_limit f) (cf_data f))
        = drop (cf_pos f) (take (cf_limit f) (cf_data f))"
      using buf p(2) by (metis append_take_drop_id drop_drop add.commute)
    moreover have "\<not> (cf_eof f \<or> cf_err f)" using 1(2,3) by simp
    ultimately show ?thesis
      using 1(1) [OF _ r refl] False step d p(1) by auto
  qed
qed

lemma SCsum_file_digest:
  assumes "cf_seekable f"
  shows "\<exists>f'. SCsum_file sha1 f = Inr (sha1 (take (cf_limit f) (cf_data f)), f')
    \<and> cf_data f' = cf_data f \<and> cf_bad f' = cf_bad f \<and> cf_seekable f' = cf_seekable f"
proof -
  obtain g where g: "rewind f = Inr ((), g)" "cf_data g = cf_data f" "cf_bad g = cf_bad f"
    "cf_seekable g = cf_seekable f" "cf_pos g = 0" "\<not> cf_eof g" "\<not> cf_err g"
    by (rule that [of "f\<lparr>cf_pos := 0, cf_eof := False, cf_err := False\<rparr>"])
      (simp_all add: rewind_def assms)
  have "cf_limit g = cf_limit f" using g by (auto simp: cf_limit_def split: option.splits)
  then show ?thesis
    using SCsum_file_loop_reads [of g "[]"] g by (auto simp: SCsum_file_def andthen_def)
qed

section \<open>Properties\<close>

text \<open>C7. The constant-time update of the weak checksum is right: for a window of \<open>len\<close> bytes (a
  positive multiple of four) and the four bytes after it, \<open>WCsum_update\<close> of the window's checksum
  is what \<open>WCsum_get\<close> computes from scratch for the window moved by four bytes.\<close>

theorem WCsum_update_rolls:
  assumes "4 dvd unat len" and "0 < unat len"
    and "length window = unat len" and "length next4 = 4"
  shows "\<exists>c. WCsum_get window len = Inr c
    \<and> WCsum_get (drop 4 window @ next4) len = Inr (WCsum_update window next4 c (ucast len))"
  using assms by (intro WCsum_roll)

theorem WCsum_update_rolls_witness:
  "\<exists>c. WCsum_get [0, 0, 1, 2, 255, 0, 0, 7] 8 = Inr c
    \<and> WCsum_get [255, 0, 0, 7, 9, 9, 9, 9] 8
      = Inr (WCsum_update [0, 0, 1, 2, 255, 0, 0, 7] [9, 9, 9, 9] c 8)"
  using WCsum_update_rolls [of 8 "[0, 0, 1, 2, 255, 0, 0, 7]" "[9, 9, 9, 9]"] by simp

text \<open>The weak checksum of a buffer depends on exactly its \<open>len\<close> bytes when \<open>len\<close> is a multiple
  of four: the result packs the two sums of the words, and a buffer that is shorter than \<open>len\<close> is
  read out of bounds.\<close>

theorem WCsum_get_exact:
  assumes "4 dvd unat len"
  shows "WCsum_get buf len = (if unat len \<le> length buf
     then Inr (wc_pack (wc_words (take (unat len) buf))) else Inl Segv)"
  using assms by (simp add: WCsum_get_words WCsum_get_short)

theorem WCsum_get_exact_witness:
  "WCsum_get [0, 0, 0, 1, 0, 0, 0, 2, 5] 8 = Inr (wc_pack [1, 2])"
  using WCsum_get_exact [of 8 "[0, 0, 0, 1, 0, 0, 0, 2, 5]"] by (simp add: CHAR4_TO_INT32_def)

text \<open>The strong checksum of a file is the digest of every byte that the device can deliver,
  from the first one on, wherever the stream was positioned; the file itself is unchanged.\<close>

theorem SCsum_file_whole:
  assumes "cf_seekable f"
  shows "\<exists>f'. SCsum_file sha1 f = Inr (sha1 (take (cf_limit f) (cf_data f)), f')
    \<and> cf_data f' = cf_data f"
  using SCsum_file_digest [OF assms, of sha1] by blast

theorem SCsum_file_whole_witness:
  "\<exists>f'. SCsum_file rev ((fopen_r [1, 2, 3])\<lparr>cf_pos := 2\<rparr>) = Inr ([3, 2, 1], f') \<and> cf_data f' = [1, 2, 3]"
  using SCsum_file_whole [of "(fopen_r [1, 2, 3])\<lparr>cf_pos := 2\<rparr>" rev]
  by (simp add: fopen_r_def cf_limit_def)

end
