(* ===== verification/Hash.thy ===== *)
theory Hash
  imports Prelude
begin

text \<open>
  \<open>hash.c\<close>: the table of weak checksums.  There is one static table of 65536 buckets, each a
  list of entries in the order of their insertion, a pool the entries are allocated from, and
  two statistics counters.  A key is masked with \<open>0xffff\<close>; the masked key selects the bucket
  \<^emph>\<open>and\<close> is what an entry stores and is compared with, so that a lookup returns the first
  entry of its bucket.

  What is shown: the bucket invariant, what a lookup returns after any sequence of
  insertions, and that creating a table over an existing one loses the entry pool.
\<close>

record hash_entry =
  he_key :: u32
  he_value :: u32

record hash_state =
  hash_table :: "(u16 \<Rightarrow> hash_entry list) option"
  entry_pool :: bool
  hash_entries :: u32
  hash_collisions :: u32

definition hash_initial :: hash_state where
  "hash_initial = \<lparr>hash_table = None, entry_pool = False, hash_entries = 0, hash_collisions = 0\<rparr>"

text \<open>\<open>hash_clear\<close> frees the buckets and destroys the pool the entries live in.\<close>

definition hash_clear :: "(hash_state, unit) prog" where
  "hash_clear = andthen (\<lambda>h. require (hash_table h \<noteq> None) h) (\<lambda>_.
     andthen (\<lambda>h. require (entry_pool h) h) (\<lambda>_. update (\<lambda>h. h\<lparr>entry_pool := False\<rparr>)))"

definition hash_destroy :: "(hash_state, unit) prog" where
  "hash_destroy h = (case hash_table h of None \<Rightarrow> Inr ((), h)
     | Some _ \<Rightarrow> andthen hash_clear (\<lambda>_. update (\<lambda>h. h\<lparr>hash_table := None\<rparr>)) h)"

definition hash_create :: "(hash_state, unit) prog" where
  "hash_create = andthen (update (\<lambda>h. h\<lparr>entry_pool := True\<rparr>)) (\<lambda>_.
     andthen (\<lambda>h. if hash_table h \<noteq> None then hash_destroy h else Inr ((), h)) (\<lambda>_.
     update (\<lambda>h. h\<lparr>hash_table := Some (\<lambda>_. []), hash_entries := 0, hash_collisions := 0\<rparr>)))"

definition hash_find_comparator :: "hash_entry \<Rightarrow> u32 \<Rightarrow> int" where
  "hash_find_comparator entry key = (if he_key entry = key then 0 else 1)"

text \<open>\<open>g_slist_find_custom\<close>: the first element for which the comparator is 0.\<close>

definition hash_find :: "u32 \<Rightarrow> hash_state \<Rightarrow> u32 option result" where
  "hash_find key h = (let hash_index = ucast (key AND 0xffff) :: u16 in
     case hash_table h of None \<Rightarrow> Inl Segv
     | Some t \<Rightarrow> Inr (map_option he_value
         (find (\<lambda>e. hash_find_comparator e (ucast hash_index) = 0) (t hash_index))))"

text \<open>
  \<open>hash_insert\<close>: allocating from a pool that was destroyed yields NULL, on which the assertion
  stops the program.
\<close>

definition hash_insert :: "u32 \<Rightarrow> u32 \<Rightarrow> (hash_state, unit) prog" where
  "hash_insert key val h = (let hash_index = ucast (key AND 0xffff) :: u16 in
     case hash_table h of None \<Rightarrow> Inl Segv
     | Some t \<Rightarrow> if \<not> entry_pool h then Inl Abort
         else Inr ((), h\<lparr>hash_table := Some (t(hash_index := t hash_index @
                          [\<lparr>he_key = ucast hash_index, he_value = val\<rparr>])),
                        hash_entries := hash_entries h + 1,
                        hash_collisions := (if t hash_index = [] then hash_collisions h
                                            else hash_collisions h + 1)\<rparr>))"

section \<open>The contract of the table\<close>

text \<open>
  What the checksum index needs from a table: after creating it and inserting pairs in some
  order, a lookup returns the value of the first pair whose key agrees with the key looked up,
  for a relation \<open>same\<close> of the table's own.
\<close>

locale checksum_table =
  fixes create :: "('t, unit) prog"
    and insert :: "u32 \<Rightarrow> u32 \<Rightarrow> ('t, unit) prog"
    and lookup :: "u32 \<Rightarrow> 't \<Rightarrow> u32 option result"
    and destroy :: "('t, unit) prog"
    and idle :: "'t \<Rightarrow> bool"
    and holds :: "(u32 \<times> u32) list \<Rightarrow> 't \<Rightarrow> bool"
    and same :: "u32 \<Rightarrow> u32 \<Rightarrow> bool"
  assumes create_holds: "idle h \<Longrightarrow> \<exists>h'. create h = Inr ((), h') \<and> holds [] h'"
    and insert_holds: "holds kvs h \<Longrightarrow> \<exists>h'. insert k v h = Inr ((), h') \<and> holds (kvs @ [(k, v)]) h'"
    and lookup_holds: "holds kvs h \<Longrightarrow>
      lookup k h = Inr (map_option snd (find (\<lambda>(k', v). same k' k) kvs))"
    and destroy_idle: "holds kvs h \<Longrightarrow> \<exists>h'. destroy h = Inr ((), h') \<and> idle h'"
    and same_refl: "same k k"
begin

lemma lookup_sound:
  assumes "holds kvs h" "lookup k h = Inr (Some v)"
  obtains k' where "(k', v) \<in> set kvs" "same k' k"
  using assms by (auto simp: lookup_holds find_Some_iff) (metis nth_mem)

lemma lookup_complete:
  assumes "holds kvs h" "(k, v) \<in> set kvs"
  shows "\<exists>v'. lookup k h = Inr (Some v')"
  using assms same_refl [of k] by (cases "find (\<lambda>(k', v). same k' k) kvs")
    (auto simp: lookup_holds find_None_iff)

end

definition hash_idle :: "hash_state \<Rightarrow> bool" where
  "hash_idle h \<longleftrightarrow> hash_table h = None"

definition same_index :: "u32 \<Rightarrow> u32 \<Rightarrow> bool" where
  "same_index k k' \<longleftrightarrow> (ucast k :: u16) = ucast k'"

definition hash_holds :: "(u32 \<times> u32) list \<Rightarrow> hash_state \<Rightarrow> bool" where
  "hash_holds kvs h \<longleftrightarrow> entry_pool h \<and> hash_table h = Some (\<lambda>i.
     map (\<lambda>(k, v). \<lparr>he_key = ucast i, he_value = v\<rparr>) (filter (\<lambda>(k, v). ucast k = i) kvs))"

lemma index_of_key: "(ucast (k AND 0xffff) :: u16) = ucast (k :: u32)"
  by (rule bit_word_eqI) (auto simp: low16_take_bit bit_simps)

lemma find_map_filter:
  "find P (map f (filter Q xs)) = map_option f (find (\<lambda>x. Q x \<and> P (f x)) xs)"
  by (induction xs) auto

lemma hash_find_holds:
  assumes "hash_holds kvs h"
  shows "hash_find k h = Inr (map_option snd (find (\<lambda>(k', v). same_index k' k) kvs))"
proof -
  have "(\<lambda>x. (case x of (k', v) \<Rightarrow> (ucast k' :: u16) = ucast k) \<and>
      hash_find_comparator (case x of (k', v) \<Rightarrow>
         \<lparr>he_key = ucast (ucast k :: u16), he_value = v\<rparr>) (ucast (ucast k :: u16)) = 0)
    = (\<lambda>(k', v). same_index k' k)"
    by (auto simp: fun_eq_iff same_index_def hash_find_comparator_def)
  then show ?thesis
    using assms
    by (simp add: hash_find_def hash_holds_def index_of_key find_map_filter option.map_comp
        comp_def case_prod_unfold)
qed

interpretation ht: checksum_table hash_create hash_insert hash_find hash_destroy
  hash_idle hash_holds same_index
proof unfold_locales
  fix h assume "hash_idle h"
  then show "\<exists>h'. hash_create h = Inr ((), h') \<and> hash_holds [] h'"
    by (auto simp: hash_create_def hash_idle_def hash_holds_def andthen_def)
next
  fix kvs h k v assume "hash_holds kvs h"
  then show "\<exists>h'. hash_insert k v h = Inr ((), h') \<and> hash_holds (kvs @ [(k, v)]) h'"
    by (auto simp: hash_insert_def hash_holds_def index_of_key fun_eq_iff Let_def)
next
  fix kvs h k assume "hash_holds kvs h"
  then show "hash_find k h = Inr (map_option snd (find (\<lambda>(k', v). same_index k' k) kvs))"
    by (rule hash_find_holds)
next
  fix kvs h assume "hash_holds kvs h"
  then show "\<exists>h'. hash_destroy h = Inr ((), h') \<and> hash_idle h'"
    by (auto simp: hash_destroy_def hash_clear_def hash_holds_def hash_idle_def andthen_def)
next
  fix k show "same_index k k" by (simp add: same_index_def)
qed

section \<open>Properties\<close>

text \<open>Creating a table over one that was not destroyed leaves the program without an entry
  pool: \<open>hash_create\<close> itself succeeds, and the next insertion stops at its assertion, although
  the comment of \<open>hash_create\<close> promises an existing table is freed and reinitialised.\<close>

theorem hash_recreate_loses_pool:
  assumes "hash_holds kvs h"
  shows "\<exists>h'. hash_create h = Inr ((), h') \<and> hash_insert k v h' = Inl Abort"
  using assms
  by (auto simp: hash_create_def hash_destroy_def hash_clear_def hash_holds_def hash_insert_def
      andthen_def Let_def)

theorem hash_recreate_loses_pool_witness:
  "\<exists>h'. hash_create \<lparr>hash_table = Some (\<lambda>_. []), entry_pool = True, hash_entries = 0,
      hash_collisions = 0\<rparr> = Inr ((), h') \<and> hash_insert 5 6 h' = Inl Abort"
  by (rule hash_recreate_loses_pool [of "[]"]) (simp add: hash_holds_def)

end
