(* ===== verification/Weak_Index.thy ===== *)
theory Weak_Index
  imports Checksum Hash
begin

text \<open>
  \<open>checksum.c\<close>, second part: \<open>WCsum_make_hash\<close> fills the hash table with the weak checksum of
  every block-sized window of a file, in four rolling passes that start at the offsets 0 to 3.
  The two buffers of a pass are static in C; a pass overwrites them before it reads them, so
  they are local here.  The state is the open file and the hash table.  The debugging check
  \<open>WCsum_verify\<close> is compiled in (\<open>DEBUG_WCSUM\<close> is 1) and is part of the loop.

  What is shown: the passes stop, the debugging assertion never fails, and the table holds
  exactly the windows at all offsets from 0 to the file length minus the block length.
\<close>

section \<open>The code\<close>

definition WCsum_buffer_update :: "u16 \<Rightarrow> (cfile, nat \<times> byte list) prog" where
  "WCsum_buffer_update len = andthen (fread (unat len)) (\<lambda>got f. let num = length got in
     if num < unat len \<and> \<not> cf_eof f then Inr ((0, got), f)
     else Inr ((num, got @ replicate (unat len - num) 0), f))"

definition WCsum_verify :: "byte list \<Rightarrow> byte list \<Rightarrow> nat \<Rightarrow> u16 \<Rightarrow> u16 \<Rightarrow> u32 \<Rightarrow> unit result" where
  "WCsum_verify last_buf buf i buf_len block_len csum =
     (let first = min (unat block_len) (unat buf_len - i); second = unat block_len - first;
          buf_verify = take first (drop i last_buf) @ take second buf
      in rbind (WCsum_get buf_verify block_len)
           (\<lambda>csum_verify. if csum = csum_verify then Inr () else Inl Abort))"

function WCsum_hash_loop :: "u16 \<Rightarrow> byte list \<Rightarrow> byte list \<Rightarrow> nat \<Rightarrow> nat \<Rightarrow> u32 \<Rightarrow> u32
    \<Rightarrow> cfile \<Rightarrow> hash_state \<Rightarrow> (cfile \<times> hash_state) result" where
  "WCsum_hash_loop block_len buf last_buf num i offset csum f h =
     rbind (hash_insert csum offset h) (\<lambda>(_, h).
     if i + 4 > num then
       if num \<noteq> unat block_len then Inr (f, h)
       else case WCsum_buffer_update block_len f of Inl e \<Rightarrow> Inl e
         | Inr ((num', buf'), f') \<Rightarrow>
             if num' < 4 then Inr (f', h)
             else let csum' = WCsum_update buf buf' csum (ucast block_len) in
                  rbind (WCsum_verify buf buf' 4 block_len block_len csum') (\<lambda>_.
                  WCsum_hash_loop block_len buf' buf num' 4 (offset + 4) csum' f' h)
     else let csum' = WCsum_update (drop i last_buf) (drop i buf) csum (ucast block_len) in
          rbind (WCsum_verify last_buf buf (i + 4) block_len block_len csum') (\<lambda>_.
          WCsum_hash_loop block_len buf last_buf num (i + 4) (offset + 4) csum' f h))"
  by pat_completeness auto
termination
proof (relation "measures [\<lambda>(bl, buf, last, num, i, off, c, f, h). cf_limit f - cf_pos f,
    \<lambda>(bl, buf, last, num, i, off, c, f, h). num - i]", goal_cases)
  case 1
  then show ?case by simp
next
  case (2 bl buf last num i off csum f h u h' r np f' num' buf' c)
  then have u: "WCsum_buffer_update bl f = Inr ((num', buf'), f')" by simp
  then obtain got where r: "fread (unat bl) f = Inr (got, f')" and "num' = length got \<or> num' = 0"
    by (auto simp: WCsum_buffer_update_def andthen_def Let_def split: sum.splits prod.splits if_splits)
  then have "0 < length got" using 2 by auto
  then have "cf_limit f' - cf_pos f' < cf_limit f - cf_pos f"
    using fread_progress [OF r] by arith
  then show ?case by simp
next
  case (3 bl buf last num i off csum f h u h' c)
  then show ?case by auto
qed

declare WCsum_hash_loop.simps [simp del]

definition WCsum_make_hash_sub :: "u16 \<Rightarrow> nat \<Rightarrow> cfile \<times> hash_state \<Rightarrow> (cfile \<times> hash_state) result" where
  "WCsum_make_hash_sub block_len init_offset fh = (case fh of (f, h) \<Rightarrow>
     if block_len = 0 \<or> \<not> 4 dvd unat block_len \<or> unat block_len < 4 then Inl Abort
     else rbind (fseek init_offset f) (\<lambda>(ok, f).
       if \<not> ok then Inr (f, h)
       else rbind (fread (unat block_len) f) (\<lambda>(buf, f).
         if length buf < unat block_len then Inr (f, h)
         else rbind (WCsum_get buf block_len) (\<lambda>csum.
           WCsum_hash_loop block_len buf [] (length buf) (length buf) (of_nat init_offset) csum f h))))"

definition WCsum_make_hash :: "u16 \<Rightarrow> cfile \<times> hash_state \<Rightarrow> (cfile \<times> hash_state) result" where
  "WCsum_make_hash block_len fh = (case fh of (f, h) \<Rightarrow>
     rbind (hash_create h) (\<lambda>(_, h).
     rbind (WCsum_make_hash_sub block_len 0 (f, h)) (\<lambda>fh.
     rbind (WCsum_make_hash_sub block_len 1 fh) (\<lambda>fh.
     rbind (WCsum_make_hash_sub block_len 2 fh) (\<lambda>fh.
     WCsum_make_hash_sub block_len 3 fh)))))"

section \<open>The windows of a file\<close>

definition window :: "byte list \<Rightarrow> nat \<Rightarrow> nat \<Rightarrow> byte list" where
  "window D bl off = take bl (drop off D)"

definition window_sum :: "byte list \<Rightarrow> nat \<Rightarrow> nat \<Rightarrow> u32" where
  "window_sum D bl off = wc_pack (wc_words (window D bl off))"

text \<open>The offsets that one pass visits: \<open>off, off + 4, \<dots>\<close> as long as a whole block fits.\<close>

function pass_offsets :: "nat \<Rightarrow> nat \<Rightarrow> nat \<Rightarrow> nat list" where
  "pass_offsets N bl off = (if off + bl \<le> N then off # pass_offsets N bl (off + 4) else [])"
  by pat_completeness auto
termination
  by (relation "measure (\<lambda>(N, bl, off). N + 1 - off)") auto

declare pass_offsets.simps [simp del]

definition index_entry :: "byte list \<Rightarrow> nat \<Rightarrow> nat \<Rightarrow> u32 \<times> u32" where
  "index_entry D bl off = (window_sum D bl off, of_nat off)"

lemma set_pass_offsets:
  "set (pass_offsets N bl off) = {k. off \<le> k \<and> k + bl \<le> N \<and> 4 dvd (k - off)}"
proof (induction N bl off rule: pass_offsets.induct)
  case (1 N bl off)
  show ?case
  proof (cases "off + bl \<le> N")
    case True
    have "{k. off \<le> k \<and> k + bl \<le> N \<and> 4 dvd (k - off)}
        = insert off {k. off + 4 \<le> k \<and> k + bl \<le> N \<and> 4 dvd (k - (off + 4))}" (is "?L = insert off ?R")
    proof (intro equalityI subsetI)
      fix k assume k: "k \<in> ?L"
      show "k \<in> insert off ?R"
      proof (cases "k = off")
        case False
        with k obtain j where "k - off = 4 * j" "0 < j" by (auto simp: dvd_def)
        then have "k - (off + 4) = 4 * (j - 1)" "off + 4 \<le> k" by auto
        then show ?thesis using k by auto
      qed simp
    next
      fix k assume "k \<in> insert off ?R"
      then show "k \<in> ?L" using True by (auto simp: dvd_def) presburger
    qed
    then show ?thesis using 1 [OF True] True by (simp add: pass_offsets.simps [of N bl off])
  next
    case False
    then show ?thesis by (auto simp: pass_offsets.simps [of N bl off])
  qed
qed

lemma length_window: "off + bl \<le> length D \<Longrightarrow> length (window D bl off) = bl"
  by (simp add: window_def)

lemma WCsum_get_window:
  assumes "4 dvd unat bl" "off + unat bl \<le> length D"
  shows "WCsum_get (window D (unat bl) off) bl = Inr (window_sum D (unat bl) off)"
  using WCsum_get_words [OF assms(1), of "window D (unat bl) off"] length_window [OF assms(2)]
  by (simp add: window_sum_def)

lemma window_shift:
  assumes "off + 4 + bl \<le> length D" "4 \<le> bl"
  shows "window D bl (off + 4) = drop 4 (window D bl off) @ take 4 (drop (off + bl) D)"
proof -
  have "drop 4 (window D bl off) = take (bl - 4) (drop (off + 4) D)"
    by (simp add: window_def drop_take add.commute)
  moreover have "take 4 (drop (off + bl) D) = take 4 (drop (bl - 4) (drop (off + 4) D))"
    using assms(2) by (simp add: add.commute)
  moreover have "take bl (drop (off + 4) D)
      = take (bl - 4) (drop (off + 4) D) @ take 4 (drop (bl - 4) (drop (off + 4) D))"
    using assms(2) by (metis le_add_diff_inverse2 take_add)
  ultimately show ?thesis by (simp add: window_def)
qed

subsection \<open>One pass\<close>


lemma CHAR4_cong: "take 4 a = take 4 b \<Longrightarrow> CHAR4_TO_INT32 a = CHAR4_TO_INT32 b"
  by (metis CHAR4_take order_refl)

lemma window_update:
  assumes "4 dvd unat (bl :: u16)" "4 \<le> unat bl" "off + 4 + unat bl \<le> length D"
    and "take 4 old4 = take 4 (window D (unat bl) off)"
    and "take 4 new4 = take 4 (drop (off + unat bl) D)"
  shows "WCsum_update old4 new4 (window_sum D (unat bl) off) (ucast bl)
    = window_sum D (unat bl) (off + 4)"
proof -
  let ?w = "window D (unat bl) off" and ?n = "take 4 (drop (off + unat bl) D)"
  have "length ?w = unat bl" "length ?n = 4" using assms(2,3) by (auto simp: window_def)
  then obtain c where "WCsum_get ?w bl = Inr c"
    "WCsum_get (drop 4 ?w @ ?n) bl = Inr (WCsum_update ?w ?n c (ucast bl))"
    using WCsum_roll [of bl ?w ?n] assms(1,2) by auto
  moreover have "WCsum_get ?w bl = Inr (window_sum D (unat bl) off)"
    by (rule WCsum_get_window) (use assms in auto)
  moreover have "WCsum_get (drop 4 ?w @ ?n) bl = Inr (window_sum D (unat bl) (off + 4))"
    using WCsum_get_window [OF assms(1), of "off + 4" D] window_shift [OF assms(3,2)] assms(3) by simp
  moreover have "WCsum_update old4 new4 c (ucast bl) = WCsum_update ?w ?n c (ucast bl)" for c
    using CHAR4_cong [OF assms(4)] CHAR4_cong [of new4 ?n] assms(5) by (simp add: WCsum_update_def)
  ultimately show ?thesis by simp
qed

lemma WCsum_verify_window:
  assumes "4 dvd unat bl" "off + unat bl \<le> length D" "i \<le> unat bl"
    and "drop i last_buf @ take i buf = window D (unat bl) off"
    and "length last_buf = unat bl" "length buf = unat bl"
  shows "WCsum_verify last_buf buf i bl bl (window_sum D (unat bl) off) = Inr ()"
proof -
  have "min (unat bl) (unat bl - i) = unat bl - i" "unat bl - (unat bl - i) = i"
    "take (unat bl - i) (drop i last_buf) = drop i last_buf"
    using assms(3,5) by simp_all
  then show ?thesis
    using WCsum_get_window [OF assms(1,2)] assms(4) by (simp add: WCsum_verify_def Let_def)
qed

definition pass_inv :: "byte list \<Rightarrow> nat \<Rightarrow> byte list \<Rightarrow> byte list \<Rightarrow> nat \<Rightarrow> nat \<Rightarrow> nat \<Rightarrow> cfile \<Rightarrow> bool" where
  "pass_inv D bl buf last_buf num i off f \<longleftrightarrow>
     cf_healthy f \<and> cf_data f = D \<and> cf_pos f \<le> length D
     \<and> length buf = bl \<and> num \<le> bl \<and> i \<le> num \<and> 4 dvd i
     \<and> off + bl + num = cf_pos f + i
     \<and> take num buf = take num (drop (off + bl - i) D)
     \<and> (num < bl \<longrightarrow> cf_pos f = length D)
     \<and> (i + 4 \<le> num \<longrightarrow> i \<le> off \<and> last_buf = window D bl (off - i))"

lemma pass_inv_fits: "pass_inv D bl buf last_buf num i off f \<Longrightarrow> off + bl \<le> length D"
  by (auto simp: pass_inv_def)

lemma pass_inv_last:
  assumes "pass_inv D bl buf last_buf num i off f" "num < i + 4" "num \<noteq> bl"
  shows "length D < off + 4 + bl"
  using assms by (auto simp: pass_inv_def)

lemma pass_inv_advance:
  assumes inv: "pass_inv D (unat bl) buf last_buf num i off f" and i: "i + 4 \<le> num"
    and bl: "4 dvd unat bl"
  shows "WCsum_update (drop i last_buf) (drop i buf) (window_sum D (unat bl) off) (ucast bl)
      = window_sum D (unat bl) (off + 4)"
    and "WCsum_verify last_buf buf (i + 4) bl bl (window_sum D (unat bl) (off + 4)) = Inr ()"
    and "pass_inv D (unat bl) buf last_buf num (i + 4) (off + 4) f"
proof -
  note d = inv [unfolded pass_inv_def]
  have num: "num \<le> unat bl" "i + 4 \<le> unat bl" using d i by auto
  have fits: "off + 4 + unat bl \<le> length D" using d i by auto
  have last: "i \<le> off" "last_buf = window D (unat bl) (off - i)" using d i by auto
  have drop_last: "drop k last_buf = take (unat bl - k) (drop (off - i + k) D)" for k
    by (simp add: last(2) window_def drop_take add.commute)
  have take_buf: "take k buf = take k (drop (off + unat bl - i) D)" if "k \<le> num" for k
  proof -
    have "take k buf = take k (take num buf)" using that by (simp add: min_def)
    also have "\<dots> = take k (take num (drop (off + unat bl - i) D))" using d by simp
    finally show ?thesis using that by (simp add: min_def)
  qed
  have "take 4 (drop i last_buf) = take 4 (window D (unat bl) off)"
    using num last(1) by (simp add: drop_last window_def min_def)
  moreover have "take 4 (drop i buf) = take 4 (drop (off + unat bl) D)"
  proof -
    have "take 4 (drop i buf) = drop i (take (i + 4) buf)" by (simp add: drop_take)
    also have "\<dots> = take 4 (drop i (drop (off + unat bl - i) D))"
      using i by (simp add: take_buf drop_take)
    also have "i + (off + unat bl - i) = off + unat bl" using num by simp
    then have "drop i (drop (off + unat bl - i) D) = drop (off + unat bl) D" by (simp add: add.commute)
    finally show ?thesis .
  qed
  ultimately show "WCsum_update (drop i last_buf) (drop i buf) (window_sum D (unat bl) off) (ucast bl)
      = window_sum D (unat bl) (off + 4)"
    using bl num fits by (intro window_update) auto
  have "drop (i + 4) last_buf @ take (i + 4) buf = window D (unat bl) (off + 4)"
  proof -
    have "off + unat bl - i = (unat bl - (i + 4)) + (off + 4)" using num last(1) by simp
    then have "drop (off + unat bl - i) D = drop (unat bl - (i + 4)) (drop (off + 4) D)"
      by (simp only: drop_drop)
    then have "take (i + 4) buf = take (i + 4) (drop (unat bl - (i + 4)) (drop (off + 4) D))"
      using take_buf [OF i] by simp
    moreover have "drop (i + 4) last_buf = take (unat bl - (i + 4)) (drop (off + 4) D)"
      using drop_last [of "i + 4"] last(1) by simp
    ultimately show ?thesis
      using num take_add [of "unat bl - (i + 4)" "i + 4" "drop (off + 4) D"]
      by (simp add: window_def)
  qed
  then show "WCsum_verify last_buf buf (i + 4) bl bl (window_sum D (unat bl) (off + 4)) = Inr ()"
    using bl num fits d last length_window [of "off - i" "unat bl" D]
    by (intro WCsum_verify_window) auto
  show "pass_inv D (unat bl) buf last_buf num (i + 4) (off + 4) f"
    using d i by (auto simp: pass_inv_def)
qed

lemma buffer_update_healthy:
  assumes "cf_healthy f" "cf_pos f \<le> length (cf_data f)"
  obtains f' where "WCsum_buffer_update bl f =
      Inr ((min (unat bl) (length (cf_data f) - cf_pos f),
            take (unat bl) (drop (cf_pos f) (cf_data f))
              @ replicate (unat bl - min (unat bl) (length (cf_data f) - cf_pos f)) 0), f')"
    "cf_healthy f'" "cf_data f' = cf_data f"
    "cf_pos f' = cf_pos f + min (unat bl) (length (cf_data f) - cf_pos f)"
proof -
  let ?n = "min (unat bl) (length (cf_data f) - cf_pos f)"
  let ?got = "take (unat bl) (drop (cf_pos f) (cf_data f))"
  let ?f = "f\<lparr>cf_pos := cf_pos f + ?n, cf_eof := cf_eof f \<or> length (cf_data f) - cf_pos f < unat bl\<rparr>"
  have "fread (unat bl) f = Inr (?got, ?f)" using fread_healthy [OF assms(1)] by simp
  moreover have "length ?got = ?n" by (simp add: min.commute)
  moreover have "\<not> (?n < unat bl \<and> \<not> cf_eof ?f)" by auto
  ultimately have "WCsum_buffer_update bl f = Inr ((?n, ?got @ replicate (unat bl - ?n) 0), ?f)"
    by (simp add: WCsum_buffer_update_def andthen_def Let_def del: min_less_iff_conj)
  then show ?thesis by (rule that) (use assms in \<open>auto simp: cf_healthy_def\<close>)
qed

lemma pass_inv_refill:
  assumes inv: "pass_inv D (unat bl) buf last_buf num i off f" and i: "num < i + 4" "num = unat bl"
    and bl: "4 dvd unat bl" "4 \<le> unat bl"
    and n': "num' = min (unat bl) (length D - cf_pos f)"
    and b': "buf' = take (unat bl) (drop (cf_pos f) D) @ replicate (unat bl - num') 0"
    and f': "cf_healthy f'" "cf_data f' = D" "cf_pos f' = cf_pos f + num'"
  shows "num' < 4 \<Longrightarrow> length D < off + 4 + unat bl"
    and "4 \<le> num' \<Longrightarrow> pass_inv D (unat bl) buf' buf num' 0 off f'"
proof -
  note d = inv [unfolded pass_inv_def]
  obtain a b where "i = 4 * a" "unat bl = 4 * b" using d bl by (auto simp: dvd_def)
  then have ib: "i = unat bl" using d i by auto
  have off: "off + unat bl = cf_pos f" using d ib i by simp
  then show "num' < 4 \<Longrightarrow> length D < off + 4 + unat bl" using n' bl by auto
  have "length buf = num" using d i by simp
  then have "buf = take num buf" by simp
  also have "\<dots> = take num (drop (off + unat bl - i) D)" using d by blast
  finally have "buf = window D (unat bl) off" using ib i by (simp add: window_def)
  moreover have "length (take (unat bl) (drop (cf_pos f) D)) = num'" using n' by (simp add: min.commute)
  then have "length buf' = unat bl" "take num' buf' = take num' (drop (off + unat bl) D)"
    using n' b' off by (simp_all add: min_def)
  moreover have "num' < unat bl \<longrightarrow> cf_pos f' = length D" using n' f' d by (auto simp: min_def)
  moreover have "cf_pos f' \<le> length D" "num' \<le> unat bl" using n' f' d by auto
  ultimately show "pass_inv D (unat bl) buf' buf num' 0 off f'" if "4 \<le> num'"
    using f' off that unfolding pass_inv_def by simp
qed

lemma WCsum_hash_loop_indexes:
  assumes "4 dvd unat bl" "4 \<le> unat bl"
    and "pass_inv D (unat bl) buf last_buf num i off f" "hash_holds kvs h"
  shows "\<exists>f' h'. WCsum_hash_loop bl buf last_buf num i (of_nat off) (window_sum D (unat bl) off) f h
      = Inr (f', h') \<and> cf_healthy f' \<and> cf_data f' = D
    \<and> hash_holds (kvs @ map (index_entry D (unat bl)) (pass_offsets (length D) (unat bl) off)) h'"
  using assms
proof (induction bl buf last_buf num i "of_nat off :: u32" "window_sum D (unat bl) off" f h
    arbitrary: off kvs rule: WCsum_hash_loop.induct)
  case (1 bl buf last_buf num i f h)
  let ?bl = "unat bl"
  note bl = 1(3,4) and inv = 1(5)
  obtain h1 where ins: "hash_insert (window_sum D ?bl off) (of_nat off) h = Inr ((), h1)"
    and h1: "hash_holds (kvs @ [index_entry D ?bl off]) h1"
    using ht.insert_holds [OF 1(6)] by (auto simp: index_entry_def)
  have offs: "pass_offsets (length D) ?bl off = off # pass_offsets (length D) ?bl (off + 4)"
    using pass_inv_fits [OF inv] by (simp add: pass_offsets.simps [of "length D" ?bl off])
  have stop: ?case if "length D < off + 4 + ?bl"
    and "WCsum_hash_loop bl buf last_buf num i (of_nat off) (window_sum D ?bl off) f h = Inr (f', h1)"
    and "cf_healthy f'" "cf_data f' = D" for f'
    using that h1 offs pass_offsets.simps [of "length D" ?bl "off + 4"] by auto
  note unfold = WCsum_hash_loop.simps [of bl buf last_buf num i "of_nat off" "window_sum D ?bl off" f h]
  show ?case
  proof (cases "i + 4 > num")
    case False
    note adv = pass_inv_advance [OF inv _ bl(1)]
    have "\<exists>f' h'. WCsum_hash_loop bl buf last_buf num (i + 4) (of_nat (off + 4))
        (window_sum D ?bl (off + 4)) f h1 = Inr (f', h') \<and> cf_healthy f' \<and> cf_data f' = D
      \<and> hash_holds ((kvs @ [index_entry D ?bl off])
          @ map (index_entry D ?bl) (pass_offsets (length D) ?bl (off + 4))) h'"
      by (rule 1(2)) (use False adv bl h1 in auto)
    then show ?thesis
      using False adv ins offs by (simp add: unfold Let_def)
  next
    case True
    show ?thesis
    proof (cases "num = ?bl")
      case False
      then show ?thesis
        using True ins inv pass_inv_last [OF inv True False]
        by (intro stop [of f]) (auto simp: unfold pass_inv_def)
    next
      case full: True
      have f: "cf_healthy f" "cf_data f = D" "cf_pos f \<le> length D"
        using inv by (auto simp: pass_inv_def)
      define num' where "num' = min ?bl (length D - cf_pos f)"
      define buf' where "buf' = take ?bl (drop (cf_pos f) D) @ replicate (?bl - num') 0"
      obtain f' where up: "WCsum_buffer_update bl f = Inr ((num', buf'), f')"
        and f': "cf_healthy f'" "cf_data f' = D" "cf_pos f' = cf_pos f + num'"
        using buffer_update_healthy [of f bl] f unfolding num'_def buf'_def by metis
      note refill = pass_inv_refill [OF inv True full bl num'_def buf'_def f']
      show ?thesis
      proof (cases "num' < 4")
        case True
        have "WCsum_hash_loop bl buf last_buf num i (of_nat off) (window_sum D ?bl off) f h = Inr (f', h1)"
          unfolding unfold using True ins up full \<open>i + 4 > num\<close> by simp
        then show ?thesis using True refill(1) f' by (intro stop) auto
      next
        case False
        then have inv': "pass_inv D ?bl buf' buf num' 0 off f'" by (intro refill(2)) simp
        note adv = pass_inv_advance [OF inv' _ bl(1), simplified]
        have "\<exists>f'' h'. WCsum_hash_loop bl buf' buf num' 4 (of_nat (off + 4))
            (window_sum D ?bl (off + 4)) f' h1 = Inr (f'', h') \<and> cf_healthy f'' \<and> cf_data f'' = D
          \<and> hash_holds ((kvs @ [index_entry D ?bl off])
              @ map (index_entry D ?bl) (pass_offsets (length D) ?bl (off + 4))) h'"
          by (rule 1(1)) (use True full up False adv bl h1 in auto)
        then show ?thesis
          unfolding unfold using False True full ins up adv offs by (simp add: Let_def)
      qed
    qed
  qed
qed

subsection \<open>The four passes\<close>


lemma WCsum_make_hash_sub_indexes:
  assumes "4 dvd unat bl" "4 \<le> unat bl" "cf_healthy f" "cf_data f = D" "hash_holds kvs h"
  shows "\<exists>f' h'. WCsum_make_hash_sub bl init (f, h) = Inr (f', h') \<and> cf_healthy f' \<and> cf_data f' = D
    \<and> hash_holds (kvs @ map (index_entry D (unat bl)) (pass_offsets (length D) (unat bl) init)) h'"
proof -
  let ?bl = "unat bl"
  let ?f1 = "f\<lparr>cf_pos := init, cf_eof := False\<rparr>"
  have h1: "cf_healthy ?f1" using assms(3) by (simp add: cf_healthy_def)
  note fr = fread_healthy [OF h1, of ?bl]
  have seek: "fseek init f = Inr (True, ?f1)" by (rule fseek_healthy [OF assms(3)])
  have bl0: "bl \<noteq> 0" using assms(2) by auto
  show ?thesis
  proof (cases "init + ?bl \<le> length D")
    case False
    then have "pass_offsets (length D) ?bl init = []" by (simp add: pass_offsets.simps)
    moreover have "length (take ?bl (drop init D)) < ?bl" using False assms(2) by auto
    ultimately show ?thesis
      using assms bl0 seek fr by (auto simp: WCsum_make_hash_sub_def cf_healthy_def)
  next
    case True
    define f2 where "f2 = ?f1\<lparr>cf_pos := init + ?bl\<rparr>"
    have rd: "fread ?bl ?f1 = Inr (window D ?bl init, f2)"
      using fr True assms(4) by (auto simp: window_def f2_def min_def)
    have inv: "pass_inv D ?bl (window D ?bl init) [] ?bl ?bl init f2"
      using assms True by (simp add: pass_inv_def f2_def cf_healthy_def window_def)
    have get: "WCsum_get (window D ?bl init) bl = Inr (window_sum D ?bl init)"
      by (rule WCsum_get_window [OF assms(1) True])
    show ?thesis
      using WCsum_hash_loop_indexes [OF assms(1,2) inv assms(5)]
      by (simp add: WCsum_make_hash_sub_def bl0 assms(1,2) not_less seek rd get length_window [OF True])
  qed
qed

definition index_entries :: "byte list \<Rightarrow> nat \<Rightarrow> (u32 \<times> u32) list" where
  "index_entries D bl = map (index_entry D bl) (pass_offsets (length D) bl 0 @ pass_offsets (length D) bl 1
     @ pass_offsets (length D) bl 2 @ pass_offsets (length D) bl 3)"

lemma set_index_entries:
  "set (index_entries D bl) = {index_entry D bl off | off. off + bl \<le> length D}"
proof -
  let ?P = "\<lambda>c. set (pass_offsets (length D) bl c)"
  have "?P 0 \<union> ?P 1 \<union> ?P 2 \<union> ?P 3 = {off. off + bl \<le> length D}"
  proof (intro equalityI subsetI)
    fix off assume "off \<in> {off. off + bl \<le> length D}"
    then have "off \<in> ?P (off mod 4)" by (simp add: set_pass_offsets dvd_minus_mod)
    moreover have "off mod 4 = 0 \<or> off mod 4 = 1 \<or> off mod 4 = 2 \<or> off mod 4 = 3" by linarith
    ultimately show "off \<in> ?P 0 \<union> ?P 1 \<union> ?P 2 \<union> ?P 3"
      by - (elim disjE, simp_all only: Un_iff simp_thms)
  qed (auto simp: set_pass_offsets)
  moreover have "set (index_entries D bl) = index_entry D bl ` (?P 0 \<union> ?P 1 \<union> ?P 2 \<union> ?P 3)"
    unfolding index_entries_def by (simp only: set_map set_append Un_assoc)
  ultimately show ?thesis by auto
qed

lemma WCsum_make_hash_indexes:
  assumes "4 dvd unat bl" "4 \<le> unat bl" "cf_healthy f" "hash_idle h"
  shows "\<exists>f' h'. WCsum_make_hash bl (f, h) = Inr (f', h') \<and> cf_healthy f' \<and> cf_data f' = cf_data f
    \<and> hash_holds (index_entries (cf_data f) (unat bl)) h'"
proof -
  let ?D = "cf_data f" and ?bl = "unat bl"
  let ?E = "\<lambda>k. map (index_entry ?D ?bl) (pass_offsets (length ?D) ?bl k)"
  note sub = WCsum_make_hash_sub_indexes [OF assms(1,2)]
  obtain h0 where 0: "hash_create h = Inr ((), h0)" "hash_holds [] h0"
    using ht.create_holds [OF assms(4)] by blast
  obtain f1 h1 where 1: "WCsum_make_hash_sub bl 0 (f, h0) = Inr (f1, h1)" "cf_healthy f1"
    "cf_data f1 = ?D" "hash_holds (?E 0) h1"
    using sub [OF assms(3) refl 0(2), of 0] by auto
  obtain f2 h2 where 2: "WCsum_make_hash_sub bl 1 (f1, h1) = Inr (f2, h2)" "cf_healthy f2"
    "cf_data f2 = ?D" "hash_holds (?E 0 @ ?E 1) h2"
    using sub [OF 1(2,3,4), of 1] by auto
  obtain f3 h3 where 3: "WCsum_make_hash_sub bl 2 (f2, h2) = Inr (f3, h3)" "cf_healthy f3"
    "cf_data f3 = ?D" "hash_holds ((?E 0 @ ?E 1) @ ?E 2) h3"
    using sub [OF 2(2,3,4), of 2] by auto
  obtain f4 h4 where 4: "WCsum_make_hash_sub bl 3 (f3, h3) = Inr (f4, h4)" "cf_healthy f4"
    "cf_data f4 = ?D" "hash_holds (((?E 0 @ ?E 1) @ ?E 2) @ ?E 3) h4"
    using sub [OF 3(2,3,4), of 3] by auto
  show ?thesis
    using 0 1 2 3 4 by (simp add: WCsum_make_hash_def index_entries_def)
qed

lemma lookup_index:
  assumes "hash_holds (index_entries D bl) h"
  shows "hash_find (k) h = Inr (Some v) \<Longrightarrow>
      \<exists>off. off + bl \<le> length D \<and> v = of_nat off \<and> same_index (window_sum D bl off) k"
    and "off + bl \<le> length D \<Longrightarrow> \<exists>v. hash_find (window_sum D bl off) h = Inr (Some v)"
proof -
  show "\<exists>off. off + bl \<le> length D \<and> v = of_nat off \<and> same_index (window_sum D bl off) k"
    if "hash_find (k) h = Inr (Some v)"
    using ht.lookup_sound [OF assms that] by (auto simp: set_index_entries index_entry_def)
  show "\<exists>v. hash_find (window_sum D bl off) h = Inr (Some v)" if "off + bl \<le> length D"
  proof (rule ht.lookup_complete [OF assms])
    show "(window_sum D bl off, of_nat off) \<in> set (index_entries D bl)"
      using that by (auto simp: set_index_entries index_entry_def)
  qed
qed

section \<open>Properties\<close>

text \<open>C11. The checksum index is exact: from an idle table and a readable file of at least one block,
  \<open>WCsum_make_hash\<close> returns (no assertion of it fails, the debugging check included) with the
  file unchanged and a table that holds the window at every offset at which a whole block fits, and
  nothing else: a lookup of any window's checksum succeeds, and whatever a lookup returns is the
  offset of a window whose checksum agrees with the key in its low 16 bits.\<close>

theorem WCsum_make_hash_exact:
  assumes "4 dvd unat block_len" and "block_len \<noteq> 0" and "cf_healthy f" and "hash_idle h"
  shows "\<exists>f' h'. WCsum_make_hash block_len (f, h) = Inr (f', h') \<and> cf_data f' = cf_data f
    \<and> (\<forall>off. off + unat block_len \<le> length (cf_data f) \<longrightarrow>
          (\<exists>v. hash_find (window_sum (cf_data f) (unat block_len) off) h' = Inr (Some v)))
    \<and> (\<forall>key v. hash_find key h' = Inr (Some v) \<longrightarrow>
          (\<exists>off. off + unat block_len \<le> length (cf_data f) \<and> v = of_nat off
             \<and> (ucast (window_sum (cf_data f) (unat block_len) off) :: u16) = ucast key))"
proof -
  have "0 < unat block_len" using assms(2) by (simp add: unat_gt_0)
  then have "4 \<le> unat block_len" using assms(1) by (auto dest: dvd_imp_le)
  then obtain f' h' where r: "WCsum_make_hash block_len (f, h) = Inr (f', h')" "cf_data f' = cf_data f"
    and h': "hash_holds (index_entries (cf_data f) (unat block_len)) h'"
    using WCsum_make_hash_indexes [OF assms(1) _ assms(3,4)] by blast
  show ?thesis
    using r lookup_index [OF h'] unfolding same_index_def by blast
qed

theorem WCsum_make_hash_exact_witness:
  "\<exists>f' h'. WCsum_make_hash 4 (fopen_r [1, 2, 3, 4, 5], hash_initial) = Inr (f', h')
    \<and> (\<exists>v. hash_find (window_sum [1, 2, 3, 4, 5] 4 1) h' = Inr (Some v))"
proof -
  have "4 dvd unat (4 :: u16)" "(4 :: u16) \<noteq> 0" "cf_healthy (fopen_r [1, 2, 3, 4, 5])"
    "hash_idle hash_initial" by (simp_all add: hash_idle_def hash_initial_def)
  from WCsum_make_hash_exact [OF this] show ?thesis by (fastforce dest: spec [of _ 1])
qed

end
