(* ===== verification/Queue.thy ===== *)
theory Queue
  imports Prelude
begin

text \<open>
  \<open>queue.c\<close>: a queue of pointers on a GLib singly-linked list.  Pointers are non-NULL by the
  assertion of \<open>enqueue\<close>; the GLib list is the HOL list of its elements
  (\<open>g_slist_append\<close> adds at the end, \<open>g_slist_remove\<close> deletes the first element equal to its
  argument).  The locale states the contract of a queue, which the operations are shown to meet.
\<close>

record 'a queue =
  q_head :: "'a list"

definition new_queue :: "'a queue" where
  "new_queue = \<lparr>q_head = []\<rparr>"

definition enqueue :: "'a option \<Rightarrow> ('a queue, unit) prog" where
  "enqueue data = (case data of None \<Rightarrow> fail Abort
     | Some d \<Rightarrow> update (\<lambda>q. q\<lparr>q_head := q_head q @ [d]\<rparr>))"

definition dequeue :: "('a queue, 'a option) prog" where
  "dequeue q = (case q_head q of [] \<Rightarrow> Inr (None, q)
     | d # _ \<Rightarrow> Inr (Some d, q\<lparr>q_head := remove1 d (q_head q)\<rparr>))"

locale fifo =
  fixes empty :: 'q
    and enq :: "'a option \<Rightarrow> ('q, unit) prog"
    and deq :: "('q, 'a option) prog"
    and items :: "'q \<Rightarrow> 'a list"
  assumes items_empty: "items empty = []"
    and items_enq: "\<exists>q'. enq (Some x) q = Inr ((), q') \<and> items q' = items q @ [x]"
    and items_deq: "\<exists>q'. deq q = Inr ((if items q = [] then None else Some (hd (items q))), q')
        \<and> items q' = tl (items q)"
begin

primrec enq_all :: "'a list \<Rightarrow> ('q, unit) prog" where
  "enq_all [] = ret ()"
| "enq_all (x # xs) = andthen (enq (Some x)) (\<lambda>_. enq_all xs)"

primrec deq_all :: "nat \<Rightarrow> ('q, 'a option list) prog" where
  "deq_all 0 = ret []"
| "deq_all (Suc n) = andthen deq (\<lambda>x. andthen (deq_all n) (\<lambda>xs. ret (x # xs)))"

lemma enq_all_items: "\<exists>q'. enq_all xs q = Inr ((), q') \<and> items q' = items q @ xs"
proof (induction xs arbitrary: q)
  case (Cons x xs)
  obtain q1 where "enq (Some x) q = Inr ((), q1)" "items q1 = items q @ [x]"
    using items_enq by blast
  with Cons [of q1] show ?case by auto
qed simp

lemma deq_all_items:
  "\<exists>q'. deq_all (length xs) q = Inr (map Some xs, q') \<and> items q' = rest" if "items q = xs @ rest"
  using that
proof (induction xs arbitrary: q)
  case (Cons x xs)
  then obtain q1 where "deq q = Inr (Some x, q1)" "items q1 = xs @ rest"
    using items_deq [of q] by auto
  with Cons.IH [of q1] show ?case by auto
qed simp

lemma in_order:
  "\<exists>q q'. enq_all xs empty = Inr ((), q) \<and> deq_all (length xs) q = Inr (map Some xs, q') \<and> items q' = []"
proof -
  obtain q where "enq_all xs empty = Inr ((), q)" "items q = xs @ []"
    using enq_all_items [of xs empty] items_empty by auto
  with deq_all_items [of q xs "[]"] show ?thesis by auto
qed

end

interpretation glib_queue: fifo new_queue enqueue dequeue q_head
  by unfold_locales (auto simp: new_queue_def enqueue_def dequeue_def split: list.splits)

end
