(* ===== verification/Block.thy ===== *)
theory Block
  imports Ios
begin

text \<open>
  \<open>block.h\<close> and the serialisation of \<open>block.c\<close>: a block of a file as the client knows it.
  The record has the fields of \<open>DBBlock\<close>; \<open>data\<close> is the pointer to its contents (\<open>None\<close> for
  NULL).  The database accesses of \<open>block.c\<close> are in the theory \<open>Stores\<close>.
\<close>

record dbblock =
  local_id :: u32
  bl_version :: byte
  offset :: u32
  bl_length :: u16
  weak_checksum :: u32
  strong_checksum :: "byte list"
  remote_id :: u32
  bl_data :: pointer
  block_queued :: bool
  block_acked :: bool
  in_new_cover :: bool

definition db_block_new :: dbblock where
  "db_block_new = \<lparr>local_id = 0, bl_version = 0, offset = 0, bl_length = 0, weak_checksum = 0,
     strong_checksum = replicate 20 0, remote_id = 0, bl_data = None, block_queued = False,
     block_acked = False, in_new_cover = False\<rparr>"

definition db_block_to_stream_no_data :: "dbblock \<Rightarrow> (iosbuf, unit) prog" where
  "db_block_to_stream_no_data dbb =
     andthen (ios_append_int8 (bl_version dbb)) (\<lambda>_.
     andthen (ios_append_int32 (remote_id dbb)) (\<lambda>_.
     andthen (ios_append_int32 (offset dbb)) (\<lambda>_.
     andthen (ios_append_int16 (bl_length dbb)) (\<lambda>_.
     andthen (ios_append_int32 (weak_checksum dbb)) (\<lambda>_.
     ios_append (Some (strong_checksum dbb)) 20)))))"

definition db_block_to_stream :: "dbblock \<Rightarrow> (iosbuf, unit) prog" where
  "db_block_to_stream dbb =
     andthen (db_block_to_stream_no_data dbb) (\<lambda>_.
     andthen (require (bl_data dbb \<noteq> None)) (\<lambda>_.
     ios_append (bl_data dbb) (ucast (bl_length dbb))))"

definition db_block_from_stream_no_data :: "u32 \<Rightarrow> (iosbuf, dbblock) prog" where
  "db_block_from_stream_no_data ident =
     andthen ios_read_byte (\<lambda>version.
     andthen ios_read_int32 (\<lambda>remote.
     andthen ios_read_int32 (\<lambda>off.
     andthen ios_read_int16 (\<lambda>len.
     andthen ios_read_int32 (\<lambda>weak.
     andthen (ios_read_mem 20) (\<lambda>strong.
     ret (db_block_new\<lparr>local_id := ident, bl_version := version, remote_id := remote,
            offset := off, bl_length := len, weak_checksum := weak, strong_checksum := strong\<rparr>)))))))"

text \<open>\<open>g_memdup(p, n)\<close>: a copy of \<open>n\<close> bytes; NULL of NULL.\<close>

definition g_memdup :: "pointer \<Rightarrow> nat \<Rightarrow> pointer result" where
  "g_memdup p n = (case p of None \<Rightarrow> Inr None
     | Some bs \<Rightarrow> if n \<le> length bs then Inr (Some (take n bs)) else Inl Segv)"

definition db_block_from_stream :: "u32 \<Rightarrow> (iosbuf, dbblock option) prog" where
  "db_block_from_stream ident ios =
     (if ios_buffer ios = None then Inr (None, ios)
      else andthen (db_block_from_stream_no_data ident) (\<lambda>dbb.
           andthen (ios_read (ucast (bl_length dbb))) (\<lambda>p ios.
           rbind (g_memdup p (unat (bl_length dbb))) (\<lambda>d. Inr (Some (dbb\<lparr>bl_data := d\<rparr>), ios)))) ios)"

section \<open>The wire format of a block\<close>

text \<open>The part of a block that its serialisation keeps, under the identifier it is read with.\<close>

definition block_on_wire :: "u32 \<Rightarrow> dbblock \<Rightarrow> dbblock" where
  "block_on_wire ident b = b\<lparr>local_id := ident, bl_data := None, block_queued := False,
     block_acked := False, in_new_cover := False\<rparr>"

definition block_bytes :: "dbblock \<Rightarrow> byte list" where
  "block_bytes b = bl_version b # be32 (remote_id b) @ be32 (offset b) @ be16 (bl_length b)
     @ be32 (weak_checksum b) @ strong_checksum b"

definition block_wire_ok :: "u32 \<Rightarrow> dbblock \<Rightarrow> bool" where
  "block_wire_ok ident b \<longleftrightarrow> length (strong_checksum b) = 20 \<and> block_on_wire ident b = b"

lemma length_block_bytes: "length (strong_checksum b) = 20 \<Longrightarrow> length (block_bytes b) = 35"
  by (simp add: block_bytes_def)

lemma block_bytes_on_wire [simp]: "block_bytes (block_on_wire ident b) = block_bytes b"
  by (simp add: block_bytes_def block_on_wire_def)

lemma block_on_wire_ok: "length (strong_checksum b) = 20 \<Longrightarrow> block_wire_ok ident (block_on_wire ident b)"
  by (simp add: block_wire_ok_def block_on_wire_def)

lemma to_stream_on_wire [simp]:
  "db_block_to_stream_no_data (block_on_wire ident b) = db_block_to_stream_no_data b"
  by (simp add: db_block_to_stream_no_data_def block_on_wire_def)

lemma writes_block:
  assumes "length (strong_checksum b) = 20"
  shows "writes (db_block_to_stream_no_data b) (block_bytes b)"
proof -
  have "writes (ios_append (Some (strong_checksum b)) 20) (strong_checksum b)"
    using writes_append [of 20 "strong_checksum b" "strong_checksum b"] assms by simp
  then have "writes (db_block_to_stream_no_data b) ([bl_version b] @ be32 (remote_id b)
      @ be32 (offset b) @ be16 (bl_length b) @ be32 (weak_checksum b) @ strong_checksum b)"
    unfolding db_block_to_stream_no_data_def by (intro ios_specs)
  then show ?thesis by (simp add: block_bytes_def)
qed

lemma reads_block:
  assumes "length (strong_checksum b) = 20"
  shows "reads (db_block_from_stream_no_data ident) (block_bytes b) (block_on_wire ident b)"
proof -
  have "reads (db_block_from_stream_no_data ident) ([bl_version b] @ be32 (remote_id b)
      @ be32 (offset b) @ be16 (bl_length b) @ be32 (weak_checksum b) @ strong_checksum b @ [])
    (db_block_new\<lparr>local_id := ident, bl_version := bl_version b, remote_id := remote_id b,
       offset := offset b, bl_length := bl_length b, weak_checksum := weak_checksum b,
       strong_checksum := strong_checksum b\<rparr>)"
    unfolding db_block_from_stream_no_data_def
    by (rule reads_andthen [OF reads_byte] reads_andthen [OF reads_int32]
          reads_andthen [OF reads_int16] reads_andthen [OF reads_mem])+
       (simp_all add: assms reads_def)
  then show ?thesis by (cases b) (simp add: block_bytes_def block_on_wire_def db_block_new_def)
qed

interpretation block_wire: wire_format db_block_to_stream_no_data "db_block_from_stream_no_data ident"
  block_bytes "block_wire_ok ident" for ident
  by unfold_locales (auto simp: block_wire_ok_def intro: writes_block dest: reads_block [of _ ident])

section \<open>Properties\<close>

text \<open>A block survives its serialisation: what \<open>db_block_to_stream\<close> writes for a block with
  \<open>length\<close> bytes of data, \<open>db_block_from_stream\<close> reads back as the same block under the
  identifier it is given, with the same data and with the transient flags reset.\<close>

theorem block_stream_roundtrip:
  assumes "length (strong_checksum b) = 20" and "bl_data b = Some d" and "length d = unat (bl_length b)"
  shows "\<exists>ios ios'. db_block_to_stream b ios_new = Inr ((), ios)
    \<and> db_block_from_stream ident ios = Inr (Some ((block_on_wire ident b)\<lparr>bl_data := Some d\<rparr>), ios')
    \<and> ios_data ios' = []"
proof -
  have d: "length d < 65536" using assms(3) by simp
  have unat_len: "unat (ucast (bl_length b) :: u32) = length d"
    using assms(3) by (simp add: unat_ucast_u16)
  have n: "of_nat (length d) = (ucast (bl_length b) :: u32)" by (simp add: assms(3))
  have wd: "writes (ios_append (bl_data b) (ucast (bl_length b))) d"
    using writes_append [of "length d" d d] assms(2) by (simp add: n)
  obtain i where i: "db_block_to_stream_no_data b ios_new = Inr ((), i)" "ios_ok i"
    "ios_data i = block_bytes b" "unat (ios_len i) \<le> 35"
    using writesE [OF writes_block [OF assms(1)] ios_ok_new] length_block_bytes [OF assms(1)]
    by auto
  obtain ios where ios: "db_block_to_stream b ios_new = Inr ((), ios)" "ios_ok ios"
    "ios_data ios = block_bytes b @ d"
    using writesE [OF wd, of i] i d assms(2) by (auto simp: db_block_to_stream_def ios_room_def andthen_def)
  obtain j where j: "db_block_from_stream_no_data ident ios = Inr (block_on_wire ident b, j)"
    "ios_ok j" "ios_data j = d"
    using readsE [OF reads_block [OF assms(1)] ios(2,3)] by blast
  obtain ios' where k: "ios_read (ucast (bl_length b)) j = Inr (Some d, ios')" "ios_data ios' = []"
    using ios_read_spec [OF j(2), of d "[]" "ucast (bl_length b)"] j(3) unat_len by auto
  have "ios_buffer ios \<noteq> None"
    using ios(2,3) by (simp add: ios_buffer_data block_bytes_def)
  then have "db_block_from_stream ident ios =
      Inr (Some ((block_on_wire ident b)\<lparr>bl_data := Some d\<rparr>), ios')"
    using j k assms(3) by (simp add: db_block_from_stream_def block_on_wire_def g_memdup_def)
  then show ?thesis using ios k by blast
qed

theorem block_stream_roundtrip_witness:
  "\<exists>ios ios'. db_block_to_stream (db_block_new\<lparr>bl_data := Some [7, 8], bl_length := 2\<rparr>) ios_new = Inr ((), ios)
    \<and> db_block_from_stream 5 ios = Inr (Some ((block_on_wire 5 (db_block_new\<lparr>bl_data := Some [7, 8],
         bl_length := 2\<rparr>))\<lparr>bl_data := Some [7, 8]\<rparr>), ios') \<and> ios_data ios' = []"
  by (rule block_stream_roundtrip) (simp_all add: db_block_new_def)

end
