(* ===== verification/Covering.thy ===== *)
theory Covering
  imports Block Weak_Index "HOL-Library.Multiset"
begin

text \<open>
  \<open>covering.c\<close> and \<open>SCsum_match\<close> of \<open>checksum.c\<close>: how a file is covered by blocks.  Blocks that
  are already stored remotely are looked for in the file (\<open>cover_hash\<close>); the rest of the file is
  cut into new blocks (\<open>cover_complete_cover\<close>).  A \<open>GPtrArray\<close> of blocks is the list of its
  elements; no block occurs twice in an array, so that updating a block through its pointer is
  updating the list element.  SHA-1 and \<open>g_ptr_array_sort\<close> are parameters.  The loops that
  add blocks need not end (a block length of 0), so they are \<open>option\<close>-valued, \<open>None\<close> for a loop
  that runs for ever.
\<close>

section \<open>The code\<close>

definition SCsum_match :: "(byte list \<Rightarrow> byte list) \<Rightarrow> u32 \<Rightarrow> dbblock \<Rightarrow> (cfile, bool) prog" where
  "SCsum_match sha1 off block = andthen (fseek (unat off)) (\<lambda>ok.
     if \<not> ok then fail (Exit 1)
     else andthen (fread (unat (bl_length block))) (\<lambda>buf.
       if length buf \<noteq> unat (bl_length block) then ret False
       else ret (SCsum_cmp (sha1 buf) (strong_checksum block))))"

definition cover_hash_block :: "(byte list \<Rightarrow> byte list) \<Rightarrow> hash_state \<Rightarrow> dbblock \<Rightarrow> (cfile, dbblock) prog" where
  "cover_hash_block sha1 h block f = rbind (hash_find (weak_checksum block) h) (\<lambda>found.
     case found of None \<Rightarrow> Inr (block, f)
     | Some off \<Rightarrow> andthen (SCsum_match sha1 off block) (\<lambda>match. ret (
         if match
         then if offset block \<noteq> off then block\<lparr>in_new_cover := True, offset := off, local_id := 0\<rparr>
              else block\<lparr>in_new_cover := True\<rparr>
         else block)) f)"

primrec cover_hash :: "(byte list \<Rightarrow> byte list) \<Rightarrow> hash_state \<Rightarrow> dbblock list \<Rightarrow> (cfile, dbblock list) prog" where
  "cover_hash sha1 h [] = ret []"
| "cover_hash sha1 h (block # blocks) = andthen (cover_hash_block sha1 h block) (\<lambda>b.
     andthen (cover_hash sha1 h blocks) (\<lambda>bs. ret (b # bs)))"

definition block_compare_by_offset :: "dbblock \<Rightarrow> dbblock \<Rightarrow> int" where
  "block_compare_by_offset b1 b2 =
     (if offset b1 = offset b2 then 0 else if offset b1 < offset b2 then -1 else 1)"

text \<open>The block that covers \<open>len\<close> bytes from \<open>off\<close>; its data is filled in later.\<close>

definition cover_piece :: "u32 \<Rightarrow> u32 \<Rightarrow> dbblock" where
  "cover_piece off len = db_block_new\<lparr>offset := off, bl_length := ucast len, in_new_cover := True\<rparr>"

partial_function (option) cover_gap ::
    "u32 \<Rightarrow> u32 \<Rightarrow> u32 \<Rightarrow> dbblock list \<Rightarrow> (u32 \<times> dbblock list) option" where
  "cover_gap block_length target so_far covering =
     (if so_far < target
      then cover_gap block_length target (so_far + block_length)
             (covering @ [cover_piece so_far block_length])
      else Some (so_far, covering))"

primrec cover_old :: "u32 \<Rightarrow> dbblock list \<Rightarrow> u32 \<Rightarrow> dbblock list \<Rightarrow> (u32 \<times> dbblock list) option" where
  "cover_old block_length [] so_far covering = Some (so_far, covering)"
| "cover_old block_length (block # blocks) so_far covering =
     (case cover_gap block_length (offset block) so_far covering of None \<Rightarrow> None
      | Some (so_far, covering) \<Rightarrow> cover_old block_length blocks
          (if offset block \<le> so_far \<and> in_new_cover block
           then max so_far (offset block + ucast (bl_length block)) else so_far) covering)"

text \<open>The block that covers the end of the file, whose beginning is pushed back.\<close>

definition cover_tail_piece :: "u32 \<Rightarrow> u32 \<Rightarrow> u32 \<Rightarrow> dbblock" where
  "cover_tail_piece block_length file_length so_far =
     (let len = ucast (min block_length (file_length - so_far)) :: u16 in
      db_block_new\<lparr>offset := (if ucast len < block_length \<and> file_length > block_length
                               then so_far - (block_length - ucast len) else so_far),
                    bl_length := len, in_new_cover := True\<rparr>)"

partial_function (option) cover_tail ::
    "u32 \<Rightarrow> u32 \<Rightarrow> u32 \<Rightarrow> dbblock list \<Rightarrow> dbblock list option" where
  "cover_tail block_length file_length so_far covering =
     (if so_far < file_length
      then let dbb = cover_tail_piece block_length file_length so_far in
           cover_tail block_length file_length (so_far + ucast (bl_length dbb)) (covering @ [dbb])
      else Some covering)"

definition cover_complete_cover :: "((dbblock \<Rightarrow> dbblock \<Rightarrow> int) \<Rightarrow> dbblock list \<Rightarrow> dbblock list)
    \<Rightarrow> u32 \<Rightarrow> u32 \<Rightarrow> dbblock list \<Rightarrow> dbblock list option" where
  "cover_complete_cover gsort block_length file_length covering =
     (let covering = gsort block_compare_by_offset covering in
      case cover_old block_length covering 0 covering of None \<Rightarrow> None
      | Some (so_far, covering) \<Rightarrow> cover_tail block_length file_length so_far covering)"

text \<open>
  \<open>cover_fill_block\<close>: the buffer comes from \<open>g_malloc\<close>, so that after a short read the rest of the
  block is what \<open>malloc\<close> returned (\<open>garbage\<close>).  The test after the seek reads the error flag of
  the stream, which \<open>fseek\<close> does not set; without one, a failed seek is not noticed.
\<close>

definition cover_fill_block :: "(byte list \<Rightarrow> byte list) \<Rightarrow> (nat \<Rightarrow> byte list) \<Rightarrow> dbblock
    \<Rightarrow> (cfile, dbblock) prog" where
  "cover_fill_block sha1 garbage dbb =
     andthen (require (bl_length dbb \<noteq> 0)) (\<lambda>_.
     andthen (require (local_id dbb \<noteq> 0)) (\<lambda>_.
     andthen (fseek (unat (offset dbb))) (\<lambda>_.
     andthen (state cf_err) (\<lambda>err.
     if err then ret (dbb\<lparr>bl_data := Some (garbage (unat (bl_length dbb)))\<rparr>)
     else andthen clearerr (\<lambda>_.
       andthen (fread (unat (bl_length dbb))) (\<lambda>got.
       andthen (state cf_err) (\<lambda>err.
       andthen (if length got \<noteq> unat (bl_length dbb) \<and> err then clearerr else ret ()) (\<lambda>_ f.
       let data = got @ drop (length got) (garbage (unat (bl_length dbb))) in
       rbind (WCsum_get data (of_nat (length got))) (\<lambda>weak.
       Inr (dbb\<lparr>bl_data := Some data, weak_checksum := weak, strong_checksum := sha1 got\<rparr>, f))))))))))"

section \<open>What a list of blocks covers\<close>

definition block_range :: "dbblock \<Rightarrow> nat set" where
  "block_range b = {unat (offset b)..<unat (offset b) + unat (bl_length b)}"

definition covered :: "dbblock list \<Rightarrow> nat set" where
  "covered bs = (\<Union>b\<in>{b \<in> set bs. in_new_cover b}. block_range b)"

lemma covered_simps [simp]:
  "covered [] = {}"
  "covered (b # bs) = (if in_new_cover b then block_range b else {}) \<union> covered bs"
  "covered (as @ bs) = covered as \<union> covered bs"
  by (auto simp: covered_def)

lemma covered_mono: "set as \<subseteq> set bs \<Longrightarrow> covered as \<subseteq> covered bs"
  by (auto simp: covered_def)

text \<open>A block length that the two counters of the program can represent.\<close>

definition sane_block_length :: "u32 \<Rightarrow> bool" where
  "sane_block_length bl \<longleftrightarrow> 0 < bl \<and> bl < 65536"

lemma sane_block_lengthD:
  assumes "sane_block_length bl"
  shows "0 < unat bl" "unat bl < 65536" "unat (ucast bl :: u16) = unat bl"
proof -
  show "0 < unat bl" using assms by (simp add: sane_block_length_def word_less_nat_alt)
  show u: "unat bl < 65536" using assms by (simp add: sane_block_length_def word_less_nat_alt)
  show "unat (ucast bl :: u16) = unat bl" using u by (simp add: unsigned_ucast_eq take_bit_nat_eq_self)
qed

lemma low16_small: "unat (w :: u32) < 65536 \<Longrightarrow> unat (ucast w :: u16) = unat w"
  by (simp add: unsigned_ucast_eq take_bit_nat_eq_self)

lemma cover_piece_range:
  "sane_block_length bl \<Longrightarrow> block_range (cover_piece off bl) = {unat off..<unat off + unat bl}"
  by (simp add: block_range_def cover_piece_def sane_block_lengthD)

lemma cover_piece_new [simp]: "in_new_cover (cover_piece off len)" "remote_id (cover_piece off len) = 0"
  "local_id (cover_piece off len) = 0" "offset (cover_piece off len) = off"
  by (simp_all add: cover_piece_def db_block_new_def)

definition fresh_block :: "dbblock \<Rightarrow> bool" where
  "fresh_block b \<longleftrightarrow> in_new_cover b \<and> remote_id b = 0 \<and> local_id b = 0"

lemma cover_gap_result:
  assumes "sane_block_length bl" "unat target + unat bl < 4294967296"
  shows "\<exists>s new. cover_gap bl target so_far cov = Some (s, cov @ new) \<and> target \<le> s \<and> so_far \<le> s
    \<and> (so_far < target \<longrightarrow> unat s < unat target + unat bl) \<and> (target \<le> so_far \<longrightarrow> s = so_far)
    \<and> covered new = {unat so_far..<unat s} \<and> list_all fresh_block new"
proof (induction "unat target - unat so_far" arbitrary: so_far cov rule: less_induct)
  case less
  note bl = sane_block_lengthD [OF assms(1)]
  show ?case
  proof (cases "so_far < target")
    case False
    then show ?thesis by (simp add: cover_gap.simps [of bl target so_far])
  next
    case True
    then have lt: "unat so_far < unat target" by (simp add: word_less_nat_alt)
    then have add: "unat (so_far + bl) = unat so_far + unat bl"
      using assms(2) by (intro unat_add_nowrap) simp
    then have "unat target - unat (so_far + bl) < unat target - unat so_far"
      using lt bl(1) by arith
    from less [OF this, of "cov @ [cover_piece so_far bl]"] obtain s new where
      IH: "cover_gap bl target (so_far + bl) (cov @ [cover_piece so_far bl]) =
        Some (s, (cov @ [cover_piece so_far bl]) @ new)" "target \<le> s" "so_far + bl \<le> s"
        "so_far + bl < target \<longrightarrow> unat s < unat target + unat bl"
        "target \<le> so_far + bl \<longrightarrow> s = so_far + bl"
        "covered new = {unat (so_far + bl)..<unat s}" "list_all fresh_block new"
      by blast
    have le: "unat so_far + unat bl \<le> unat s" using IH(3) add by (simp add: word_le_nat_alt)
    have "covered (cover_piece so_far bl # new) = {unat so_far..<unat s}"
      using IH(6) add le cover_piece_range [OF assms(1)] by auto
    moreover have "unat s < unat target + unat bl"
      using IH(4,5) add lt by (cases "so_far + bl < target") (auto simp: not_less)
    moreover have "so_far \<le> s" using le by (simp add: word_le_nat_alt)
    moreover have "\<not> target \<le> so_far" using True by simp
    ultimately show ?thesis
      using IH(1,2,7) True lt by (intro exI [of _ s] exI [of _ "cover_piece so_far bl # new"])
        (simp add: cover_gap.simps [of bl target so_far] fresh_block_def)
  qed
qed

definition block_fits :: "u32 \<Rightarrow> dbblock \<Rightarrow> bool" where
  "block_fits bl b \<longleftrightarrow> unat (offset b) + max (unat bl) (unat (bl_length b)) < 4294967296"

lemma cover_old_result:
  assumes "sane_block_length bl" "list_all (block_fits bl) blocks" "set blocks \<subseteq> set cov"
    "{0..<unat so_far} \<subseteq> covered cov"
  shows "\<exists>s new. cover_old bl blocks so_far cov = Some (s, cov @ new)
    \<and> {0..<unat s} \<subseteq> covered (cov @ new) \<and> list_all fresh_block new"
  using assms(2-4)
proof (induction blocks arbitrary: so_far cov)
  case Nil
  then show ?case by auto
next
  case (Cons b blocks)
  have fits: "unat (offset b) + unat bl < 4294967296" "unat (offset b) + unat (bl_length b) < 4294967296"
    using Cons.prems(1) by (auto simp: block_fits_def)
  obtain s new where g: "cover_gap bl (offset b) so_far cov = Some (s, cov @ new)"
    "so_far \<le> s" "covered new = {unat so_far..<unat s}" "list_all fresh_block new"
    using cover_gap_result [OF assms(1) fits(1), of so_far cov] by blast
  define t where "t = (if offset b \<le> s \<and> in_new_cover b
    then max s (offset b + ucast (bl_length b)) else s)"
  have add: "unat (offset b + ucast (bl_length b)) = unat (offset b) + unat (bl_length b)"
    using unat_add_nowrap [of "offset b" "ucast (bl_length b)"] fits(2) by simp
  have s: "{0..<unat s} \<subseteq> covered (cov @ new)"
    using Cons.prems(3) g(2,3) by (auto simp: word_le_nat_alt)
  have "b \<in> set (cov @ new)" using Cons.prems(2) by auto
  then have "in_new_cover b \<Longrightarrow> block_range b \<subseteq> covered (cov @ new)"
    unfolding covered_def by blast
  then have t: "{0..<unat t} \<subseteq> covered (cov @ new)"
    using s add unfolding t_def block_range_def
    by (auto simp: max_def word_le_nat_alt subset_iff split: if_splits) (metis leI order_trans)
  have "list_all (block_fits bl) blocks" "set blocks \<subseteq> set (cov @ new)"
    using Cons.prems by auto
  from Cons.IH [OF this t] obtain u new' where
    "cover_old bl blocks t (cov @ new) = Some (u, (cov @ new) @ new')"
    "{0..<unat u} \<subseteq> covered ((cov @ new) @ new')" "list_all fresh_block new'" by blast
  then show ?case using g by (intro exI [of _ u] exI [of _ "new @ new'"]) (simp add: t_def)
qed

text \<open>What the end of the file leaves: the pieces reach the length, except that the last one,
  when it is shorter than a block, lies at the beginning of the last block of the file.\<close>

definition tail_range :: "nat \<Rightarrow> nat \<Rightarrow> nat \<Rightarrow> nat set" where
  "tail_range bl fl so_far = (if fl \<le> bl then {so_far..<fl}
     else let r = (fl - so_far) mod bl in {so_far..<fl - r} \<union> {fl - bl..<fl - bl + r})"

lemma cover_tail_piece_full:
  assumes "sane_block_length bl" "unat so_far + unat bl \<le> unat fl"
  shows "cover_tail_piece bl fl so_far = cover_piece so_far bl"
    and "bl_length (cover_tail_piece bl fl so_far) = ucast bl"
    and "(ucast (ucast bl :: u16) :: u32) = bl"
proof -
  have "so_far \<le> fl" using assms(2) by (simp add: word_le_nat_alt)
  then have "bl \<le> fl - so_far" using assms(2) by (simp add: word_le_nat_alt unat_sub)
  then have "min bl (fl - so_far) = bl" by (simp add: min_def)
  moreover show "(ucast (ucast bl :: u16) :: u32) = bl"
    by (rule word_unat_eq_iff [THEN iffD2]) (simp add: sane_block_lengthD(3) [OF assms(1)])
  ultimately show "cover_tail_piece bl fl so_far = cover_piece so_far bl"
    by (simp add: cover_tail_piece_def cover_piece_def Let_def)
  then show "bl_length (cover_tail_piece bl fl so_far) = ucast bl"
    by (simp add: cover_piece_def)
qed

lemma cover_tail_piece_last:
  assumes "sane_block_length bl" "so_far < fl" "unat fl < unat so_far + unat bl"
  shows "unat (bl_length (cover_tail_piece bl fl so_far)) = unat fl - unat so_far"
    and "unat (offset (cover_tail_piece bl fl so_far)) = (if fl \<le> bl then unat so_far else unat fl - unat bl)"
    and "fresh_block (cover_tail_piece bl fl so_far)"
proof -
  note bl = sane_block_lengthD [OF assms(1)]
  have le: "so_far \<le> fl" "unat so_far < unat fl"
    using assms(2) by (simp_all add: less_imp_le word_less_nat_alt)
  have d: "unat (fl - so_far) = unat fl - unat so_far" using le by (simp add: unat_sub)
  have lt: "fl - so_far < bl" using d assms(3) le(2) by (simp add: word_less_nat_alt)
  then have m: "min bl (fl - so_far) = fl - so_far" by (simp add: min_absorb2 less_imp_le)
  have n: "unat (ucast (fl - so_far) :: u16) = unat fl - unat so_far"
    using lt bl(2) d by (subst low16_small) (auto simp: word_less_nat_alt)
  have u: "(ucast (ucast (fl - so_far) :: u16) :: u32) = fl - so_far"
    by (rule word_unat_eq_iff [THEN iffD2]) (simp add: n d)
  show "unat (bl_length (cover_tail_piece bl fl so_far)) = unat fl - unat so_far"
    by (simp add: cover_tail_piece_def m n Let_def)
  have "unat (so_far - (bl - (fl - so_far))) = unat fl - unat bl" if "\<not> fl \<le> bl"
  proof -
    have "unat bl < unat fl" using that by (simp add: not_le word_less_nat_alt)
    then have "bl - (fl - so_far) \<le> so_far"
      using lt d assms(3) by (simp add: word_le_nat_alt unat_sub)
    moreover have "bl \<le> fl" using that by simp
    ultimately show ?thesis using lt d assms(3) le by (simp add: unat_sub)
  qed
  then show "unat (offset (cover_tail_piece bl fl so_far)) = (if fl \<le> bl then unat so_far else unat fl - unat bl)"
    using lt by (auto simp: cover_tail_piece_def m u Let_def not_le)
  show "fresh_block (cover_tail_piece bl fl so_far)"
    by (simp add: cover_tail_piece_def fresh_block_def db_block_new_def Let_def)
qed

lemma tail_range_step:
  assumes "so_far + bl \<le> fl" "0 < bl"
  shows "tail_range bl fl so_far = {so_far..<so_far + bl} \<union> tail_range bl fl (so_far + bl)"
proof -
  define r where "r = (fl - so_far) mod bl"
  have "fl - so_far = fl - (so_far + bl) + bl" using assms by simp
  then have r: "r = (fl - (so_far + bl)) mod bl" by (simp add: r_def)
  then have "r \<le> fl - (so_far + bl)" by simp
  then have "{so_far..<fl - r} = {so_far..<so_far + bl} \<union> {so_far + bl..<fl - r}"
    using assms by auto
  then show ?thesis using assms
    by (auto simp: tail_range_def Let_def simp flip: r r_def)
qed

lemma cover_tail_result:
  assumes "sane_block_length bl" "unat fl + unat bl < 4294967296"
  shows "\<exists>new. cover_tail bl fl so_far cov = Some (cov @ new) \<and> list_all fresh_block new
    \<and> covered new = tail_range (unat bl) (unat fl) (unat so_far)"
proof (induction "unat fl - unat so_far" arbitrary: so_far cov rule: less_induct)
  case less
  note bl = sane_block_lengthD [OF assms(1)]
  let ?p = "cover_tail_piece bl fl so_far"
  show ?case
  proof (cases "so_far < fl")
    case False
    then have "unat fl \<le> unat so_far" by (simp add: not_less word_le_nat_alt)
    then show ?thesis using False
      by (simp add: cover_tail.simps [of bl fl so_far] tail_range_def Let_def)
  next
    case True
    then have lt: "unat so_far < unat fl" by (simp add: word_less_nat_alt)
    define t where "t = so_far + ucast (bl_length ?p)"
    have step: "cover_tail bl fl so_far cov = cover_tail bl fl t (cov @ [?p])"
      using True by (simp add: cover_tail.simps [of bl fl so_far] Let_def t_def)
    show ?thesis
    proof (cases "unat so_far + unat bl \<le> unat fl")
      case full: True
      note p = cover_tail_piece_full [OF assms(1) full]
      have t: "unat t = unat so_far + unat bl"
        unfolding t_def p(2,3) using full assms(2) by (intro unat_add_nowrap) simp
      then have "unat fl - unat t < unat fl - unat so_far" using lt bl(1) by arith
      from less [OF this, of "cov @ [?p]"] obtain new where IH:
        "cover_tail bl fl t (cov @ [?p]) = Some ((cov @ [?p]) @ new)" "list_all fresh_block new"
        "covered new = tail_range (unat bl) (unat fl) (unat t)" by blast
      then show ?thesis using step p(1) cover_piece_range [OF assms(1)] t
          tail_range_step [OF full bl(1)]
        by (intro exI [of _ "?p # new"]) (simp add: fresh_block_def)
    next
      case False
      then have "unat fl < unat so_far + unat bl" by simp
      note p = cover_tail_piece_last [OF assms(1) True this]
      have t: "unat t = unat fl"
        unfolding t_def using p(1) lt by (subst unat_add_nowrap) simp_all
      then have "t = fl" by (simp add: word_unat_eq_iff)
      then have "cover_tail bl fl t (cov @ [?p]) = Some (cov @ [?p])"
        by (simp add: cover_tail.simps [of bl fl fl])
      moreover have "block_range ?p = tail_range (unat bl) (unat fl) (unat so_far)"
        using p(1,2) lt False by (auto simp: block_range_def tail_range_def Let_def word_le_nat_alt)
      ultimately show ?thesis using step p(3) by (intro exI [of _ "[?p]"]) (simp add: fresh_block_def)
    qed
  qed
qed

lemma tail_range_almost:
  assumes "0 < bl"
  shows "{so_far..<fl - bl div 2} \<subseteq> tail_range bl fl so_far"
    and "fl \<le> bl \<Longrightarrow> {so_far..<fl} \<subseteq> tail_range bl fl so_far"
proof -
  define r where "r = (fl - so_far) mod bl"
  have r: "r < bl" "r \<le> fl - so_far" using assms by (simp_all add: r_def)
  have "max (fl - r) (fl - bl + r) \<ge> fl - bl div 2" using r by (cases "r \<le> bl div 2") linarith+
  moreover have "fl - bl \<le> fl - r" using r(1) by simp
  ultimately show "{so_far..<fl - bl div 2} \<subseteq> tail_range bl fl so_far"
    using r by (auto simp: tail_range_def Let_def simp flip: r_def)
  show "fl \<le> bl \<Longrightarrow> {so_far..<fl} \<subseteq> tail_range bl fl so_far"
    by (simp add: tail_range_def)
qed

text \<open>What \<open>g_ptr_array_sort\<close> does to an array, whatever the comparison: it permutes it.\<close>

definition permutes_arrays :: "((dbblock \<Rightarrow> dbblock \<Rightarrow> int) \<Rightarrow> dbblock list \<Rightarrow> dbblock list) \<Rightarrow> bool" where
  "permutes_arrays gsort \<longleftrightarrow> (\<forall>cmp bs. mset (gsort cmp bs) = mset bs)"

lemma permutes_arraysD:
  assumes "permutes_arrays gsort"
  shows "set (gsort cmp bs) = set bs" "gsort cmp [] = []" "mset (gsort cmp bs) = mset bs"
    "list_all P (gsort cmp bs) = list_all P bs"
proof -
  show m: "mset (gsort cmp bs) = mset bs" for bs using assms by (simp add: permutes_arrays_def)
  show "set (gsort cmp bs) = set bs" using m by (rule mset_eq_setD)
  then show "list_all P (gsort cmp bs) = list_all P bs" by (simp add: list_all_iff)
  show "gsort cmp [] = []" using m [of "[]"] by simp
qed

lemma cover_complete_result:
  assumes "permutes_arrays gsort" "sane_block_length bl" "list_all (block_fits bl) blocks"
    "unat fl + unat bl < 4294967296"
  obtains so_far new where
    "cover_complete_cover gsort bl fl blocks = Some (gsort block_compare_by_offset blocks @ new)"
    "list_all fresh_block new"
    "{0..<so_far} \<union> tail_range (unat bl) (unat fl) so_far
       \<subseteq> covered (gsort block_compare_by_offset blocks @ new)"
    "blocks = [] \<Longrightarrow> covered new = tail_range (unat bl) (unat fl) 0"
proof -
  let ?cov = "gsort block_compare_by_offset blocks"
  note g = permutes_arraysD [OF assms(1)]
  have "list_all (block_fits bl) ?cov" using assms(3) g(4) by simp
  then obtain s new where 1: "cover_old bl ?cov 0 ?cov = Some (s, ?cov @ new)"
    "{0..<unat s} \<subseteq> covered (?cov @ new)" "list_all fresh_block new"
    using cover_old_result [OF assms(2), of ?cov ?cov 0] by auto
  obtain new' where 2: "cover_tail bl fl s (?cov @ new) = Some ((?cov @ new) @ new')"
    "list_all fresh_block new'" "covered new' = tail_range (unat bl) (unat fl) (unat s)"
    using cover_tail_result [OF assms(2,4)] by blast
  have "s = 0 \<and> new = []" if "blocks = []"
    using 1(1) that g(2) by simp
  then show thesis
    using 1 2 by (intro that [of "new @ new'" "unat s"]) (auto simp: cover_complete_cover_def)
qed

section \<open>Properties\<close>

text \<open>C12. The cover of a file is found and is almost complete: for a block length between 1 and 65535
  and offsets that do not overflow, \<open>cover_complete_cover\<close> ends; it keeps every old block and adds
  only fresh ones; and the blocks of the new cover cover every byte of the file but the last half
  block, and every byte when the file is not longer than a block.\<close>

theorem cover_complete_cover_covers:
  assumes "permutes_arrays gsort" and "sane_block_length bl" and "list_all (block_fits bl) blocks"
    and "unat fl + unat bl < 4294967296"
  shows "\<exists>old new. cover_complete_cover gsort bl fl blocks = Some (old @ new)
    \<and> mset old = mset blocks \<and> list_all fresh_block new
    \<and> {0..<unat fl - unat bl div 2} \<subseteq> covered (old @ new)
    \<and> (fl \<le> bl \<longrightarrow> {0..<unat fl} \<subseteq> covered (old @ new))"
proof -
  let ?old = "gsort block_compare_by_offset blocks"
  obtain so_far new where r: "cover_complete_cover gsort bl fl blocks = Some (?old @ new)"
    "list_all fresh_block new"
    "{0..<so_far} \<union> tail_range (unat bl) (unat fl) so_far \<subseteq> covered (?old @ new)"
    by (rule cover_complete_result [OF assms])
  note tail = tail_range_almost [OF sane_block_lengthD(1) [OF assms(2)], where so_far = so_far and fl = "unat fl"]
  have split: "{0..<m} \<subseteq> {0..<so_far} \<union> X" if "{so_far..<m} \<subseteq> X" for m :: nat and X
  proof
    fix t assume "t \<in> {0..<m}"
    then have "t < so_far \<or> t \<in> {so_far..<m}" by auto
    then show "t \<in> {0..<so_far} \<union> X" using that by auto
  qed
  have a: "{0..<unat fl - unat bl div 2} \<subseteq> covered (?old @ new)"
    using split [OF tail(1)] r(3) by (rule order_trans)
  have b: "fl \<le> bl \<longrightarrow> {0..<unat fl} \<subseteq> covered (?old @ new)"
    using order_trans [OF split [OF tail(2)] r(3)] by (simp add: word_le_nat_alt)
  show ?thesis
    by (rule exI [of _ ?old], rule exI [of _ new])
       (intro conjI r(1,2) a b permutes_arraysD(3) [OF assms(1)])
qed

lemma permutes_arrays_id: "permutes_arrays (\<lambda>cmp bs. bs)"
  by (simp add: permutes_arrays_def)

theorem cover_complete_cover_covers_witness:
  "\<exists>old new. cover_complete_cover (\<lambda>cmp bs. bs) 4 10 [cover_piece 2 4] = Some (old @ new)
    \<and> mset old = mset [cover_piece 2 4] \<and> list_all fresh_block new
    \<and> {0..<8} \<subseteq> covered (old @ new)"
  using cover_complete_cover_covers [of "\<lambda>cmp bs. bs" 4 "[cover_piece 2 4]" 10]
  by (auto simp: permutes_arrays_id sane_block_length_def block_fits_def cover_piece_def db_block_new_def)

text \<open>The last bytes of a file are not backed up: a file of which nothing is stored yet and whose
  length is more than a block and not a multiple of one gets a cover that ends before the file
  does.  The last piece is moved to the beginning of the last block but keeps its short length, so
  that exactly the last \<open>min r (bl - r)\<close> bytes are in no block, for the remainder \<open>r\<close>.\<close>

theorem cover_misses_end_of_file:
  assumes "permutes_arrays gsort" and "sane_block_length bl" and "unat fl + unat bl < 4294967296"
    and "bl < fl"
  shows "\<exists>cov. cover_complete_cover gsort bl fl [] = Some cov
    \<and> covered cov = {0..<unat fl - min (unat fl mod unat bl) (unat bl - unat fl mod unat bl)}"
proof -
  obtain new where r: "cover_complete_cover gsort bl fl [] = Some (gsort block_compare_by_offset [] @ new)"
    "covered new = tail_range (unat bl) (unat fl) 0"
    by (rule cover_complete_result [OF assms(1,2) _ assms(3), of "[]"]) auto
  define k where "k = unat fl mod unat bl"
  have "k < unat bl" using sane_block_lengthD(1) [OF assms(2)] by (simp add: k_def)
  moreover have "k \<le> unat fl" by (simp add: k_def)
  moreover have "unat bl < unat fl" using assms(4) by (simp add: word_less_nat_alt)
  ultimately have "tail_range (unat bl) (unat fl) 0 = {0..<unat fl - min k (unat bl - k)}"
    by (auto simp: tail_range_def Let_def min_def simp flip: k_def)
  then show ?thesis using r permutes_arraysD(2) [OF assms(1)] by (simp add: k_def)
qed

theorem cover_misses_end_of_file_witness:
  "\<exists>cov. cover_complete_cover (\<lambda>cmp bs. bs) 512 1300 [] = Some cov \<and> covered cov = {0..<1064}"
  using cover_misses_end_of_file [of "\<lambda>cmp bs. bs" 512 1300]
  by (simp add: permutes_arrays_id sane_block_length_def)

text \<open>
  A piece whose length is 0 in 16 bits does not move the end of the cover, and the loop adds it
  again for ever.
\<close>

lemma cover_tail_returned:
  "cover_tail bl fl so_far cov = Some r \<Longrightarrow>
     (ucast (min bl (fl - so_far)) :: u16) = 0 \<longrightarrow> \<not> so_far < fl"
  by (erule cover_tail.raw_induct [rotated])
     (auto simp: cover_tail_piece_def Let_def split: if_splits)

lemma cover_tail_stuck:
  "(ucast (min bl (fl - so_far)) :: u16) = 0 \<Longrightarrow> so_far < fl \<Longrightarrow> cover_tail bl fl so_far cov = None"
  using cover_tail_returned [of bl fl so_far cov] by (cases "cover_tail bl fl so_far cov") auto

text \<open>A block length whose low 16 bits are 0, such as 0 or 65536, makes the backup of a file that
  nothing is stored of loop for ever, adding blocks of length 0.\<close>

theorem cover_complete_cover_diverges:
  assumes "permutes_arrays gsort" and "(ucast (min bl fl) :: u16) = 0" and "0 < fl"
  shows "cover_complete_cover gsort bl fl [] = None"
  using cover_tail_stuck [of bl fl 0 "[]"] assms permutes_arraysD(2) [OF assms(1)]
  by (simp add: cover_complete_cover_def)

theorem cover_complete_cover_diverges_witness:
  "cover_complete_cover (\<lambda>cmp bs. bs) 0 1300 [] = None"
  by (rule cover_complete_cover_diverges) (simp_all add: permutes_arrays_id)

text \<open>The blocks that \<open>cover_hash\<close> accepts: their strong checksum is that of the file at their offset.\<close>

definition in_file :: "(byte list \<Rightarrow> byte list) \<Rightarrow> byte list \<Rightarrow> dbblock \<Rightarrow> bool" where
  "in_file sha1 D b \<longleftrightarrow> (let w = window D (unat (bl_length b)) (unat (offset b)) in
     length w = unat (bl_length b) \<and> SCsum_cmp (sha1 w) (strong_checksum b))"

definition found_at :: "u32 \<Rightarrow> dbblock \<Rightarrow> dbblock" where
  "found_at off b = (if offset b \<noteq> off then b\<lparr>in_new_cover := True, offset := off, local_id := 0\<rparr>
     else b\<lparr>in_new_cover := True\<rparr>)"

lemma found_at_simps [simp]: "offset (found_at off b) = off" "bl_length (found_at off b) = bl_length b"
  "strong_checksum (found_at off b) = strong_checksum b" "in_new_cover (found_at off b)"
  "remote_id (found_at off b) = remote_id b"
  "local_id (found_at off b) = (if offset b \<noteq> off then 0 else local_id b)"
  by (simp_all add: found_at_def)

lemma SCsum_match_healthy:
  assumes "cf_healthy f"
  shows "\<exists>f'. SCsum_match sha1 off b f = Inr (in_file sha1 (cf_data f) (found_at off b), f')
    \<and> cf_healthy f' \<and> cf_data f' = cf_data f"
proof -
  define f1 where "f1 = f\<lparr>cf_pos := unat off, cf_eof := False\<rparr>"
  have 1: "fseek (unat off) f = Inr (True, f1)" "cf_healthy f1" "cf_data f1 = cf_data f"
    using assms fseek_healthy [OF assms, of "unat off"] by (simp_all add: f1_def cf_healthy_def)
  obtain f2 where 2: "fread (unat (bl_length b)) f1 = Inr (window (cf_data f) (unat (bl_length b)) (unat off), f2)"
    "cf_healthy f2" "cf_data f2 = cf_data f"
    using fread_healthy [OF 1(2), of "unat (bl_length b)"] 1(2,3)
    by (auto simp: f1_def window_def cf_healthy_def)
  show ?thesis using 1 2 by (auto simp: SCsum_match_def in_file_def Let_def)
qed

lemma cover_hash_block_healthy:
  assumes "cf_healthy f" "hash_find (weak_checksum b) h = Inr found"
  shows "\<exists>f'. cover_hash_block sha1 h b f = Inr ((case found of None \<Rightarrow> b
      | Some off \<Rightarrow> if in_file sha1 (cf_data f) (found_at off b) then found_at off b else b), f')
    \<and> cf_healthy f' \<and> cf_data f' = cf_data f"
proof (cases found)
  case None
  then show ?thesis using assms by (simp add: cover_hash_block_def)
next
  case (Some off)
  obtain f' where "SCsum_match sha1 off b f = Inr (in_file sha1 (cf_data f) (found_at off b), f')"
    "cf_healthy f'" "cf_data f' = cf_data f"
    using SCsum_match_healthy [OF assms(1)] by blast
  then show ?thesis using assms Some by (simp add: cover_hash_block_def found_at_def)
qed

definition cover_verdict :: "(byte list \<Rightarrow> byte list) \<Rightarrow> byte list \<Rightarrow> dbblock \<Rightarrow> dbblock \<Rightarrow> bool" where
  "cover_verdict sha1 D b b' \<longleftrightarrow> b' = b \<or>
     (\<exists>off. b' = found_at off b \<and> in_file sha1 D b')"

lemma cover_hash_verdicts:
  assumes "cf_healthy f" "hash_holds kvs h"
  shows "\<exists>bs' f'. cover_hash sha1 h bs f = Inr (bs', f') \<and> cf_data f' = cf_data f
    \<and> list_all2 (cover_verdict sha1 (cf_data f)) bs bs'"
  using assms(1)
proof (induction bs arbitrary: f)
  case (Cons b bs)
  obtain found where "hash_find (weak_checksum b) h = Inr found"
    using hash_find_holds [OF assms(2)] by blast
  from cover_hash_block_healthy [OF Cons.prems this, of sha1] obtain b' f1 where
    1: "cover_hash_block sha1 h b f = Inr (b', f1)" "cf_healthy f1" "cf_data f1 = cf_data f"
    "cover_verdict sha1 (cf_data f) b b'"
    by (auto simp: cover_verdict_def split: option.splits if_splits)
  from Cons.IH [OF 1(2)] obtain bs' f' where "cover_hash sha1 h bs f1 = Inr (bs', f')"
    "cf_data f' = cf_data f1" "list_all2 (cover_verdict sha1 (cf_data f1)) bs bs'" by blast
  then show ?case using 1 by (intro exI [of _ "b' # bs'"] exI [of _ f']) simp
qed simp

text \<open>C10. Reusing stored blocks is sound: after indexing a healthy file, \<open>cover_hash\<close> returns the same
  blocks in the same order, the file is unchanged, and each block is either untouched or marked as
  part of the new cover at an offset where a whole window of its length in the file has exactly its
  strong checksum; a block whose offset moved has its \<open>local_id\<close> reset, so that it is saved again.\<close>

theorem cover_hash_sound:
  assumes "4 dvd unat block_len" and "block_len \<noteq> 0" and "cf_healthy f" and "hash_idle h"
  shows "\<exists>f1 h1 bs' f'. WCsum_make_hash block_len (f, h) = Inr (f1, h1)
    \<and> cover_hash sha1 h1 bs f1 = Inr (bs', f') \<and> cf_data f' = cf_data f
    \<and> list_all2 (\<lambda>b b'. b' = b \<or> in_new_cover b' \<and> in_file sha1 (cf_data f) b'
         \<and> bl_length b' = bl_length b \<and> strong_checksum b' = strong_checksum b
         \<and> remote_id b' = remote_id b
         \<and> local_id b' = (if offset b' = offset b then local_id b else 0)) bs bs'"
proof -
  have "0 < unat block_len" using assms(2) by (simp add: unat_gt_0)
  then have "4 \<le> unat block_len" using assms(1) by (auto dest: dvd_imp_le)
  then obtain f1 h1 kvs where 1: "WCsum_make_hash block_len (f, h) = Inr (f1, h1)"
    "cf_healthy f1" "cf_data f1 = cf_data f" "hash_holds kvs h1"
    using WCsum_make_hash_indexes [OF assms(1) _ assms(3,4)] by blast
  obtain bs' f' where 2: "cover_hash sha1 h1 bs f1 = Inr (bs', f')" "cf_data f' = cf_data f1"
    "list_all2 (cover_verdict sha1 (cf_data f1)) bs bs'"
    using cover_hash_verdicts [OF 1(2,4)] by blast
  have "list_all2 (\<lambda>b b'. b' = b \<or> in_new_cover b' \<and> in_file sha1 (cf_data f) b'
         \<and> bl_length b' = bl_length b \<and> strong_checksum b' = strong_checksum b
         \<and> remote_id b' = remote_id b
         \<and> local_id b' = (if offset b' = offset b then local_id b else 0)) bs bs'"
    using 2(3) by (rule list_all2_mono) (auto simp: cover_verdict_def 1(3))
  then show ?thesis using 1 2 by auto
qed

theorem cover_hash_sound_witness:
  "\<exists>f1 h1 bs' f'. WCsum_make_hash 4 (fopen_r [9, 1, 2, 3, 4], hash_initial) = Inr (f1, h1)
    \<and> cover_hash (take 20) h1 [db_block_new\<lparr>bl_length := 4\<rparr>] f1 = Inr (bs', f')
    \<and> cf_data f' = [9, 1, 2, 3, 4]"
proof -
  have "4 dvd unat (4 :: u16)" "(4 :: u16) \<noteq> 0" "cf_healthy (fopen_r [9, 1, 2, 3, 4])"
    "hash_idle hash_initial" by (simp_all add: hash_idle_def hash_initial_def)
  from cover_hash_sound [OF this, of "take 20" "[db_block_new\<lparr>bl_length := 4\<rparr>]"]
  show ?thesis by auto
qed

lemma cover_fill_block_result:
  assumes "cf_healthy f" and "\<not> cf_err f" and "local_id b \<noteq> 0" and "bl_length b \<noteq> 0"
    and "\<forall>n. length (garbage n) = n" and "4 dvd unat (bl_length b)" and "unat (offset b) + unat (bl_length b) \<le> length (cf_data f)"
  shows "\<exists>f'. cover_fill_block sha1 garbage b f = Inr (b\<lparr>
      bl_data := Some (window (cf_data f) (unat (bl_length b)) (unat (offset b))),
      weak_checksum := window_sum (cf_data f) (unat (bl_length b)) (unat (offset b)),
      strong_checksum := sha1 (window (cf_data f) (unat (bl_length b)) (unat (offset b)))\<rparr>, f')
    \<and> cf_data f' = cf_data f"
proof -
  let ?n = "unat (bl_length b)" and ?w = "window (cf_data f) (unat (bl_length b)) (unat (offset b))"
  define f1 where "f1 = f\<lparr>cf_pos := unat (offset b), cf_eof := False\<rparr>"
  have 1: "fseek (unat (offset b)) f = Inr (True, f1)" "\<not> cf_err f1"
    using assms(1,2) fseek_healthy [OF assms(1), of "unat (offset b)"] by (simp_all add: f1_def)
  define f2 where "f2 = f1\<lparr>cf_eof := False, cf_err := False\<rparr>"
  have 2: "clearerr f1 = Inr ((), f2)" "cf_healthy f2" "cf_data f2 = cf_data f"
    using assms(1) by (simp_all add: clearerr_def f2_def f1_def cf_healthy_def)
  have w: "length ?w = ?n" using assms(7) by (simp add: window_def)
  obtain f3 where 3: "fread ?n f2 = Inr (?w, f3)" "cf_data f3 = cf_data f" "\<not> cf_err f3"
    using fread_healthy [OF 2(2), of ?n] by (auto simp: f2_def f1_def window_def)
  have "WCsum_get (?w @ drop ?n (garbage ?n)) (bl_length b) = Inr (wc_pack (wc_words ?w))"
    using WCsum_get_words [of "bl_length b" "?w @ drop ?n (garbage ?n)"] assms(6) w by simp
  then show ?thesis using 1 2 3 w assms(3,4,5)
    by (simp add: cover_fill_block_def window_sum_def Let_def)
qed

text \<open>Filling a block reads the file as it is now: for a block whose window lies in a healthy file and
  whose length is a positive multiple of four, \<open>cover_fill_block\<close> stores the bytes of the window, their
  weak checksum and their strong checksum, and changes nothing else of the block.\<close>

theorem cover_fill_block_window:
  assumes "cf_healthy f" and "\<not> cf_err f" and "local_id b \<noteq> 0" and "bl_length b \<noteq> 0"
    and "\<forall>n. length (garbage n) = n" and "4 dvd unat (bl_length b)" and "unat (offset b) + unat (bl_length b) \<le> length (cf_data f)"
  shows "\<exists>f'. cover_fill_block sha1 garbage b f = Inr (b\<lparr>
      bl_data := Some (window (cf_data f) (unat (bl_length b)) (unat (offset b))),
      weak_checksum := window_sum (cf_data f) (unat (bl_length b)) (unat (offset b)),
      strong_checksum := sha1 (window (cf_data f) (unat (bl_length b)) (unat (offset b)))\<rparr>, f')
    \<and> cf_data f' = cf_data f"
  by (rule cover_fill_block_result [OF assms])

theorem cover_fill_block_window_witness:
  "\<exists>f'. cover_fill_block rev (\<lambda>n. replicate n 7) (db_block_new\<lparr>local_id := 1, offset := 1, bl_length := 4\<rparr>)
      (fopen_r [1, 0, 0, 0, 2, 3]) = Inr (db_block_new\<lparr>local_id := 1, offset := 1, bl_length := 4,
        bl_data := Some [0, 0, 0, 2], weak_checksum := 0x20002, strong_checksum := [2, 0, 0, 0]\<rparr>, f')
    \<and> cf_data f' = [1, 0, 0, 0, 2, 3]"
proof -
  have "window_sum [1, 0, 0, 0, 2, 3] 4 1 = 0x20002"
    by (simp add: window_sum_def window_def wc_pack_def CHAR4_TO_INT32_def)
  then show ?thesis
    using cover_fill_block_window [of "fopen_r [1, 0, 0, 0, 2, 3]"
        "db_block_new\<lparr>local_id := 1, offset := 1, bl_length := 4\<rparr>" "\<lambda>n. replicate n 7" rev]
    by (simp add: db_block_new_def fopen_r_def cf_healthy_def window_def)
qed

end
