(* ===== verification/World.thy ===== *)
theory World
  imports Block
begin

text \<open>
  The state of one process and the outside world.

  \<^item> \<open>options.c\<close>: the two arrays of options, indexed by the enumerations of \<open>options.h\<close>.
  \<^item> The file system the process sees: a map from paths to nodes, and the paths that the operating
    system refuses to create or write (no permission, no space).
  \<^item> \<open>external\<close>: the libraries and services that are not part of the repository: Berkeley DB,
    the random number generators, the clock, the contents of fresh memory, the sort of GLib,
    SHA-1, zlib and the AES counter mode and SHA-256 of libtomcrypt.  They are a record of functions over an abstract state \<open>'e\<close>, an argument of every
    definition that uses one; what is assumed of them is stated where it is needed.
  \<^item> \<open>syscall.c\<close>: the wrappers that do nothing in a dry run.
\<close>

section \<open>Options\<close>

datatype int_options = kOption_backup | kOption_create | kOption_extract | kOption_list
  | kOption_server | kOption_ping | kOption_verbose | kOption_dryrun | kOption_read_only
  | kOption_list_only | kOption_self_test

datatype char_options = kArchive_target | kBackup_pattern | kExtract_pattern | kList_pattern

datatype databases = kFilenames | kSummary | kBlocks | kArchive | kConstants | kServerConstants | kKeys

section \<open>The file system\<close>

record regular_file =
  rf_data :: "byte list"
  rf_mtime :: u32
  rf_inode :: u32
  rf_mode :: u32

datatype node = Directory | Regular regular_file

record file_system =
  fs_nodes :: "byte list \<Rightarrow> node option"
  fs_refuses :: "byte list \<Rightarrow> bool"

section \<open>Libraries and services\<close>

datatype db_ret = DB_OK | DB_NOTFOUND | DB_ERROR

record 'e external =
  ex_db_create :: "'e \<Rightarrow> bool"
  ex_db_open :: "byte list \<Rightarrow> 'e \<Rightarrow> db_ret \<times> 'e"
  ex_db_close :: "byte list \<Rightarrow> 'e \<Rightarrow> db_ret \<times> 'e"
  ex_db_get :: "byte list \<Rightarrow> byte list \<Rightarrow> 'e \<Rightarrow> db_ret \<times> byte list"
  ex_db_put :: "byte list \<Rightarrow> byte list \<Rightarrow> byte list \<Rightarrow> 'e \<Rightarrow> db_ret \<times> 'e"
  ex_db_del :: "byte list \<Rightarrow> byte list \<Rightarrow> 'e \<Rightarrow> db_ret \<times> 'e"
  ex_db_sync :: "byte list \<Rightarrow> 'e \<Rightarrow> 'e"
  ex_db_cursor :: "byte list \<Rightarrow> 'e \<Rightarrow> db_ret \<times> nat \<times> 'e"
  ex_db_c_get :: "nat \<Rightarrow> 'e \<Rightarrow> db_ret \<times> byte list \<times> byte list \<times> 'e"
  ex_db_c_close :: "nat \<Rightarrow> 'e \<Rightarrow> db_ret \<times> 'e"
  ex_rand :: "'e \<Rightarrow> u32 \<times> 'e"
  ex_time :: "'e \<Rightarrow> u32"
  ex_garbage :: "nat \<Rightarrow> byte list"
  ex_sha1 :: "byte list \<Rightarrow> byte list"
  ex_sort :: "(dbblock \<Rightarrow> dbblock \<Rightarrow> int) \<Rightarrow> dbblock list \<Rightarrow> dbblock list"
  ex_compress :: "byte list \<Rightarrow> nat \<Rightarrow> pointer"
  ex_uncompress :: "byte list \<Rightarrow> nat \<Rightarrow> pointer"
  ex_crypto_ok :: bool
  ex_ivsize :: nat
  ex_keysize :: nat
  ex_yarrow_read :: "nat \<Rightarrow> 'e \<Rightarrow> byte list \<times> 'e"
  ex_sha256 :: "byte list \<Rightarrow> byte list"
  ex_ctr :: "byte list \<Rightarrow> byte list \<Rightarrow> byte list \<Rightarrow> byte list"

section \<open>The process\<close>

record 'e proc =
  int_option_array :: "int_options \<Rightarrow> int"
  char_option_array :: "char_options \<Rightarrow> pointer"
  home_variable :: pointer
  file_sys :: file_system
  archive_dir_cache :: pointer
  database_ptrs :: "databases \<Rightarrow> pointer"
  env :: 'e

definition set_int_option :: "int_options \<Rightarrow> int \<Rightarrow> (('e, 'z) proc_scheme, unit) prog" where
  "set_int_option opt val = update (\<lambda>s. s\<lparr>int_option_array := (int_option_array s)(opt := val)\<rparr>)"

definition int_option :: "int_options \<Rightarrow> ('e, 'z) proc_scheme \<Rightarrow> int" where
  "int_option opt s = int_option_array s opt"

definition set_char_option :: "char_options \<Rightarrow> pointer \<Rightarrow> (('e, 'z) proc_scheme, unit) prog" where
  "set_char_option opt val = update (\<lambda>s. s\<lparr>char_option_array := (char_option_array s)(opt := val)\<rparr>)"

definition char_option :: "char_options \<Rightarrow> ('e, 'z) proc_scheme \<Rightarrow> pointer" where
  "char_option opt s = char_option_array s opt"

definition char_option_safe :: "char_options \<Rightarrow> ('e, 'z) proc_scheme \<Rightarrow> byte list" where
  "char_option_safe opt s = (case char_option_array s opt of Some v \<Rightarrow> v | None \<Rightarrow> [])"

text \<open>
  \<open>options_init\<close> passes the arguments of \<open>memset\<close> in the wrong order: it sets 0 bytes of the
  arrays, that is none.
\<close>

definition options_init :: "(('e, 'z) proc_scheme, unit) prog" where
  "options_init = ret ()"

text \<open>What \<open>%s\<close> of \<open>g_strdup_printf\<close> prints for a pointer.\<close>

definition printed :: "pointer \<Rightarrow> byte list" where
  "printed p = (case p of Some s \<Rightarrow> s | None \<Rightarrow> cstr ''(null)'')"

section \<open>System calls\<close>

text \<open>\<open>CHECK_RO\<close>: the wrappers fail with \<open>EROFS\<close> when the process is read-only.\<close>

definition read_only :: "('e, 'z) proc_scheme \<Rightarrow> bool" where
  "read_only s \<longleftrightarrow> int_option kOption_read_only s \<noteq> 0 \<or> int_option kOption_list_only s \<noteq> 0"

function trim_trailing_slashes :: "byte list \<Rightarrow> byte list" where
  "trim_trailing_slashes name = (if 1 < length name \<and> last name = of_char CHR ''/''
     then trim_trailing_slashes (butlast name) else name)"
  by pat_completeness auto
termination
  by (relation "measure length") auto

declare trim_trailing_slashes.simps [simp del]

text \<open>The directory that must exist for a path to be created.\<close>

definition parent_dir :: "byte list \<Rightarrow> byte list" where
  "parent_dir p = rev (tl (dropWhile (\<lambda>c. c \<noteq> of_char CHR ''/'') (rev p)))"

datatype mkdir_ret = Made | Exists | Refused

definition mkdir :: "byte list \<Rightarrow> (('e, 'z) proc_scheme, mkdir_ret) prog" where
  "mkdir p s = (let fs = file_sys s in
     if fs_nodes fs p \<noteq> None then Inr (Exists, s)
     else if fs_refuses fs p \<or>
          \<not> (parent_dir p = [] \<or> fs_nodes fs (parent_dir p) = Some Directory) then Inr (Refused, s)
     else Inr (Made, s\<lparr>file_sys := fs\<lparr>fs_nodes := (fs_nodes fs)(p \<mapsto> Directory)\<rparr>\<rparr>))"

text \<open>
  \<open>do_mkdir\<close> returns 0 for a directory that it made or that exists, and trims the string of the
  caller in place: the result is the return value and the string.
\<close>

definition do_mkdir :: "byte list \<Rightarrow> (('e, 'z) proc_scheme, int \<times> byte list) prog" where
  "do_mkdir fname s =
     (if int_option kOption_dryrun s \<noteq> 0 then Inr ((0, fname), s)
      else if read_only s then Inr ((-1, fname), s)
      else let fname = trim_trailing_slashes fname in
      andthen (mkdir fname) (\<lambda>r s. case r of
          Made \<Rightarrow> Inr ((0, fname), s)
        | Exists \<Rightarrow> Inr ((if fs_nodes (file_sys s) fname = Some Directory then 0 else 1, fname), s)
        | Refused \<Rightarrow> Inr ((-1, fname), s)) s)"

definition do_unlink :: "byte list \<Rightarrow> (('e, 'z) proc_scheme, int) prog" where
  "do_unlink fname s =
     (if int_option kOption_dryrun s \<noteq> 0 then Inr (0, s)
      else if read_only s then Inr (-1, s)
      else case fs_nodes (file_sys s) fname of
        Some (Regular _) \<Rightarrow> if fs_refuses (file_sys s) fname then Inr (-1, s)
          else Inr (0, s\<lparr>file_sys := (file_sys s)\<lparr>fs_nodes := (fs_nodes (file_sys s))(fname := None)\<rparr>\<rparr>)
      | _ \<Rightarrow> Inr (-1, s))"

definition do_rename :: "byte list \<Rightarrow> byte list \<Rightarrow> (('e, 'z) proc_scheme, int) prog" where
  "do_rename fname1 fname2 s =
     (if int_option kOption_dryrun s \<noteq> 0 then Inr (0, s)
      else if read_only s then Inr (-1, s)
      else case fs_nodes (file_sys s) fname1 of
        Some (Regular f) \<Rightarrow> if fs_refuses (file_sys s) fname1 \<or> fs_refuses (file_sys s) fname2
              \<or> fs_nodes (file_sys s) fname2 = Some Directory then Inr (-1, s)
          else Inr (0, s\<lparr>file_sys := (file_sys s)\<lparr>fs_nodes :=
                 (fs_nodes (file_sys s))(fname1 := None, fname2 \<mapsto> Regular f)\<rparr>\<rparr>)
      | _ \<Rightarrow> Inr (-1, s))"

definition file_stat :: "byte list \<Rightarrow> ('e, 'z) proc_scheme \<Rightarrow> regular_file option" where
  "file_stat p s = (case fs_nodes (file_sys s) p of Some (Regular f) \<Rightarrow> Some f | _ \<Rightarrow> None)"

lemma trim_keeps: "name \<noteq> [] \<Longrightarrow> trim_trailing_slashes name \<noteq> []"
  by (induction name rule: trim_trailing_slashes.induct)
     (metis length_butlast length_greater_0_conv less_numeral_extra(3) trim_trailing_slashes.simps
       zero_less_diff)

lemma trim_trimmed:
  "length (trim_trailing_slashes name) \<le> 1 \<or> last (trim_trailing_slashes name) \<noteq> of_char CHR ''/''"
  by (induction name rule: trim_trailing_slashes.induct)
     (metis not_less trim_trailing_slashes.simps)

lemma trim_prefix: "\<exists>k. name = trim_trailing_slashes name @ replicate k (of_char CHR ''/'')"
proof (induction name rule: trim_trailing_slashes.induct)
  case (1 name)
  show ?case
  proof (cases "1 < length name \<and> last name = of_char CHR ''/''")
    case False
    then have "trim_trailing_slashes name = name"
      by (subst trim_trailing_slashes.simps) (rule if_not_P)
    then show ?thesis by (intro exI [of _ 0]) simp
  next
    case True
    then obtain k where "butlast name = trim_trailing_slashes (butlast name)
        @ replicate k (of_char CHR ''/'')" using 1 by blast
    moreover have "name = butlast name @ [of_char CHR ''/'']"
      using True by (metis append_butlast_last_id list.size(3) not_one_less_zero)
    moreover have "trim_trailing_slashes name = trim_trailing_slashes (butlast name)"
      using True trim_trailing_slashes.simps by metis
    ultimately have "name = trim_trailing_slashes name @ replicate (k + 1) (of_char CHR ''/'')"
      by (metis append.assoc replicate_add replicate_0 replicate_Suc One_nat_def)
    then show ?thesis by blast
  qed
qed

section \<open>Properties\<close>

text \<open>A dry run leaves the file system alone: with \<open>kOption_dryrun\<close> set, making a directory,
  unlinking and renaming report success and change nothing, and with one of the read-only options
  set instead they report failure and change nothing.\<close>

theorem dry_run_changes_nothing:
  assumes "int_option kOption_dryrun s \<noteq> 0 \<or> read_only s"
  shows "\<exists>r. r = (if int_option kOption_dryrun s \<noteq> 0 then 0 else -1)
    \<and> do_mkdir p s = Inr ((r, p), s) \<and> do_unlink p s = Inr (r, s) \<and> do_rename p q s = Inr (r, s)"
  using assms by (auto simp: do_mkdir_def do_unlink_def do_rename_def)

definition plain_proc :: "'e \<Rightarrow> 'e proc" where
  "plain_proc e = \<lparr>int_option_array = (\<lambda>_. 0), char_option_array = (\<lambda>_. None), home_variable = None,
     file_sys = \<lparr>fs_nodes = (\<lambda>_. None), fs_refuses = (\<lambda>_. False)\<rparr>, archive_dir_cache = None,
     database_ptrs = (\<lambda>_. None), env = e\<rparr>"

theorem dry_run_changes_nothing_witness:
  "do_mkdir (cstr ''d/'') ((plain_proc ())\<lparr>int_option_array := (\<lambda>_. 0)(kOption_dryrun := 1)\<rparr>)
    = Inr ((0, cstr ''d/''), (plain_proc ())\<lparr>int_option_array := (\<lambda>_. 0)(kOption_dryrun := 1)\<rparr>)"
  using dry_run_changes_nothing [of "(plain_proc ())\<lparr>int_option_array := (\<lambda>_. 0)(kOption_dryrun := 1)\<rparr>"
      "cstr ''d/''"]
  by (simp add: int_option_def plain_proc_def)

end
