(* ===== verification/Database.thy ===== *)
theory Database
  imports World
begin

text \<open>
  \<open>db_misc.c\<close>: the access to the databases of Berkeley DB.  Every database is a file of its own,
  opened under the name \<open>HOME/cryptar/ARCHIVE/client/db_NAME\<close> (\<open>server\<close> in the server); the handle
  of an open database is that file name.  An error of the library other than a missing key ends
  the process.

  What is shown: for a library that works (\<open>db_works\<close>, the documented behaviour of \<open>DB->get\<close> and
  \<open>DB->put\<close>), the databases are the keyed stores of the locale \<open>keyed_store\<close>; the index counters
  hand out each number once.
\<close>

section \<open>Names and handles\<close>

definition database_names :: "databases \<Rightarrow> byte list" where
  "database_names db = cstr (case db of kFilenames \<Rightarrow> ''filename'' | kSummary \<Rightarrow> ''summary''
     | kBlocks \<Rightarrow> ''block'' | kArchive \<Rightarrow> ''archive'' | kConstants \<Rightarrow> ''constants''
     | kServerConstants \<Rightarrow> ''server_constants'' | kKeys \<Rightarrow> ''keys'')"

definition database_number :: "databases \<Rightarrow> u32" where
  "database_number db = (case db of kFilenames \<Rightarrow> 0 | kSummary \<Rightarrow> 1 | kBlocks \<Rightarrow> 2 | kArchive \<Rightarrow> 3
     | kConstants \<Rightarrow> 4 | kServerConstants \<Rightarrow> 5 | kKeys \<Rightarrow> 6)"

definition all_databases :: "databases list" where
  "all_databases = [kFilenames, kSummary, kBlocks, kArchive, kConstants, kServerConstants, kKeys]"

definition slash :: "byte list" where
  "slash = cstr ''/''"

text \<open>\<open>assert(!do_mkdir(dir, 0700))\<close>; the string may have been trimmed.\<close>

definition assert_mkdir :: "byte list \<Rightarrow> (('e, 'z) proc_scheme, byte list) prog" where
  "assert_mkdir dir = andthen (do_mkdir dir) (\<lambda>(r, dir).
     andthen (require (r = 0)) (\<lambda>_. ret dir))"

definition archive_dir_name :: "(('e, 'z) proc_scheme, byte list) prog" where
  "archive_dir_name s = (case archive_dir_cache s of Some d \<Rightarrow> Inr (d, s)
     | None \<Rightarrow>
         let home = (case home_variable s of Some h \<Rightarrow> h | None \<Rightarrow> cstr ''.'') in
         andthen (assert_mkdir (home @ cstr ''/cryptar'')) (\<lambda>pref_dir.
         andthen (state (char_option kArchive_target)) (\<lambda>target.
         andthen (assert_mkdir (pref_dir @ slash @ printed target)) (\<lambda>dir.
         andthen (update (\<lambda>s. s\<lparr>archive_dir_cache := Some dir\<rparr>)) (\<lambda>_. ret dir)))) s)"

definition generic_db_name :: "byte list \<Rightarrow> (('e, 'z) proc_scheme, byte list) prog" where
  "generic_db_name name = andthen archive_dir_name (\<lambda>base.
     andthen (assert_mkdir (base @ slash @ name)) (\<lambda>dir. ret (dir @ cstr ''/db'')))"

definition server_db_name :: "(('e, 'z) proc_scheme, byte list) prog" where
  "server_db_name = generic_db_name (cstr ''server'')"

definition client_db_name :: "(('e, 'z) proc_scheme, byte list) prog" where
  "client_db_name = generic_db_name (cstr ''client'')"

definition db_name :: "(('e, 'z) proc_scheme, byte list) prog" where
  "db_name s = (if int_option kOption_server s \<noteq> 0 then server_db_name s else client_db_name s)"

definition open_db :: "'e external \<Rightarrow> byte list \<Rightarrow> byte list \<Rightarrow> (('e, 'z) proc_scheme, byte list) prog" where
  "open_db ext filename name s = (let one_name = filename @ cstr ''_'' @ name in
     if \<not> ex_db_create ext (env s) then Inl (Exit (-1))
     else case ex_db_open ext one_name (env s) of (r, e) \<Rightarrow>
       if r \<noteq> DB_OK then Inl (Exit 1) else Inr (one_name, s\<lparr>env := e\<rparr>))"

definition db_open :: "'e external \<Rightarrow> databases \<Rightarrow> (('e, 'z) proc_scheme, unit) prog" where
  "db_open ext db = andthen db_name (\<lambda>filename.
     andthen (open_db ext filename (database_names db)) (\<lambda>h.
     update (\<lambda>s. s\<lparr>database_ptrs := (database_ptrs s)(db \<mapsto> h)\<rparr>)))"

definition db_close :: "'e external \<Rightarrow> databases \<Rightarrow> (('e, 'z) proc_scheme, unit) prog" where
  "db_close ext db s = Inr ((), (case database_ptrs s db of None \<Rightarrow> s
       | Some h \<Rightarrow> s\<lparr>env := snd (ex_db_close ext h (env s))\<rparr>)\<lparr>database_ptrs := (database_ptrs s)(db := None)\<rparr>)"

primrec db_close_each :: "'e external \<Rightarrow> databases list \<Rightarrow> (('e, 'z) proc_scheme, unit) prog" where
  "db_close_each ext [] = ret ()"
| "db_close_each ext (db # dbs) = andthen
     (\<lambda>s. if database_ptrs s db \<noteq> None then db_close ext db s else Inr ((), s))
     (\<lambda>_. db_close_each ext dbs)"

definition db_close_all :: "'e external \<Rightarrow> (('e, 'z) proc_scheme, unit) prog" where
  "db_close_all ext = db_close_each ext all_databases"

definition db_error_exit :: "'e external \<Rightarrow> (('e, 'z) proc_scheme, unit) prog" where
  "db_error_exit ext = db_close_all ext"

definition db_ptr :: "databases \<Rightarrow> (('e, 'z) proc_scheme, byte list) prog" where
  "db_ptr db s = (case database_ptrs s db of None \<Rightarrow> Inl Abort | Some h \<Rightarrow> Inr (h, s))"

definition db_open_client_dbs :: "'e external \<Rightarrow> (('e, 'z) proc_scheme, unit) prog" where
  "db_open_client_dbs ext = andthen (db_open ext kFilenames) (\<lambda>_. andthen (db_open ext kSummary) (\<lambda>_.
     andthen (db_open ext kBlocks) (\<lambda>_. db_open ext kConstants)))"

section \<open>Reading and writing\<close>

text \<open>A \<open>DBT\<close> whose data and size are those of a buffer: the bytes the library sees.\<close>

definition dbt :: "iosbuf \<Rightarrow> byte list" where
  "dbt ios = (case ios_buffer ios of None \<Rightarrow> [] | Some p \<Rightarrow> take (unat (ios_buffer_size ios)) p)"

text \<open>Running a serialiser on a new buffer.\<close>

definition on_new :: "(iosbuf, 'a) prog \<Rightarrow> iosbuf result" where
  "on_new m = rbind (m ios_new) (\<lambda>(_, ios). Inr ios)"

definition lifted :: "'a result \<Rightarrow> ('s, 'a) prog" where
  "lifted r s = rbind r (\<lambda>x. Inr (x, s))"

definition db_put :: "'e external \<Rightarrow> databases \<Rightarrow> iosbuf \<Rightarrow> iosbuf \<Rightarrow> (('e, 'z) proc_scheme, unit) prog" where
  "db_put ext db key_in data_in = andthen (db_ptr db) (\<lambda>h s.
     case ex_db_put ext h (dbt key_in) (dbt data_in) (env s) of (r, e) \<Rightarrow>
       if r \<noteq> DB_OK then Inl (Exit 1) else Inr ((), s\<lparr>env := ex_db_sync ext h e\<rparr>))"

definition db_get :: "'e external \<Rightarrow> databases \<Rightarrow> iosbuf \<Rightarrow> iosbuf \<Rightarrow> (('e, 'z) proc_scheme, iosbuf) prog" where
  "db_get ext db key_in data_out = andthen (db_ptr db) (\<lambda>h s.
     case ex_db_get ext h (dbt key_in) (env s) of
       (DB_OK, d) \<Rightarrow> rbind (ios_set_buffer (Some d) (of_nat (length d)) data_out) (\<lambda>(_, ios). Inr (ios, s))
     | (DB_NOTFOUND, _) \<Rightarrow> Inr (ios_reset data_out, s)
     | (DB_ERROR, _) \<Rightarrow> Inl (Exit 1))"

definition db_delete :: "'e external \<Rightarrow> databases \<Rightarrow> iosbuf \<Rightarrow> (('e, 'z) proc_scheme, unit) prog" where
  "db_delete ext db key_in = andthen (db_ptr db) (\<lambda>h.
     update (\<lambda>s. s\<lparr>env := snd (ex_db_del ext h (dbt key_in) (env s))\<rparr>))"

definition db_put_key_int :: "u32 \<Rightarrow> iosbuf result" where
  "db_put_key_int ident = on_new (ios_append_int32 ident)"

definition db_get_key_int :: "byte list \<Rightarrow> u32 result" where
  "db_get_key_int key = rbind (ios_set_buffer (Some key) (of_nat (length key)) ios_new) (\<lambda>(_, ios).
     rbind (ios_read_int32 ios) (\<lambda>(ident, _). Inr ident))"

text \<open>
  \<open>db_get_next_index\<close>: the counter of a database is the entry of \<open>kConstants\<close>
  (\<open>kServerConstants\<close> in the server) under the number of the database; no entry means 0.
\<close>

definition next_index :: "db_ret \<times> byte list \<Rightarrow> u32 result" where
  "next_index r = (case r of
       (DB_NOTFOUND, _) \<Rightarrow> Inr 1
     | (DB_ERROR, _) \<Rightarrow> Inl (Exit 1)
     | (DB_OK, d) \<Rightarrow> rbind (db_get_key_int d) (\<lambda>index.
         if index = 0 then Inl Abort else Inr (index + 1)))"

definition db_get_next_index :: "'e external \<Rightarrow> databases \<Rightarrow> (('e, 'z) proc_scheme, u32) prog" where
  "db_get_next_index ext db s =
     andthen (db_ptr (if int_option kOption_server s \<noteq> 0 then kServerConstants else kConstants)) (\<lambda>h.
     andthen (lifted (db_put_key_int (database_number db))) (\<lambda>key.
     andthen (\<lambda>s. rbind (next_index (ex_db_get ext h (dbt key) (env s))) (\<lambda>index. Inr (index, s))) (\<lambda>index.
     andthen (lifted (on_new (ios_append_int32 index))) (\<lambda>data s.
       case ex_db_put ext h (dbt key) (dbt data) (env s) of (r, e) \<Rightarrow>
         if r \<noteq> DB_OK then Inl (Exit 1) else Inr (index, s\<lparr>env := e\<rparr>))))) s"

section \<open>Cursors\<close>

definition db_curs_begin :: "'e external \<Rightarrow> databases \<Rightarrow> (('e, 'z) proc_scheme, nat) prog" where
  "db_curs_begin ext db = andthen (db_ptr db) (\<lambda>h s.
     case ex_db_cursor ext h (env s) of (r, c, e) \<Rightarrow>
       if r \<noteq> DB_OK then Inl (Exit 1) else Inr (c, s\<lparr>env := e\<rparr>))"

definition db_curs_end :: "'e external \<Rightarrow> nat \<Rightarrow> (('e, 'z) proc_scheme, unit) prog" where
  "db_curs_end ext c s = (case ex_db_c_close ext c (env s) of (r, e) \<Rightarrow>
     if r \<noteq> DB_OK then Inl (Exit 1) else Inr ((), s\<lparr>env := e\<rparr>))"

text \<open>The result is \<open>None\<close> at the end, where the cursor is closed.\<close>

definition db_curs_next :: "'e external \<Rightarrow> nat \<Rightarrow> iosbuf \<Rightarrow> iosbuf
    \<Rightarrow> (('e, 'z) proc_scheme, (iosbuf \<times> iosbuf) option) prog" where
  "db_curs_next ext c key_in data_in s = (case ex_db_c_get ext c (env s) of
       (DB_OK, k, d, e) \<Rightarrow> rbind (ios_set_buffer (Some k) (of_nat (length k)) key_in) (\<lambda>(_, key).
         rbind (ios_set_buffer (Some d) (of_nat (length d)) data_in) (\<lambda>(_, data).
         Inr (Some (key, data), s\<lparr>env := e\<rparr>)))
     | (DB_NOTFOUND, _, _, e) \<Rightarrow> andthen (db_curs_end ext c) (\<lambda>_. ret None) (s\<lparr>env := e\<rparr>)
     | (DB_ERROR, _, _, _) \<Rightarrow> Inl (Exit 1))"

section \<open>The contract of a keyed store\<close>

lemma dbt_data [simp]: "ios_ok ios \<Longrightarrow> dbt ios = ios_data ios"
  by (simp add: dbt_def ios_buffer_data ios_buffer_size_data)

lemma on_new_writes:
  assumes "writes m bs" "length bs < 2147483648"
  obtains ios where "on_new m = Inr ios" "ios_holds bs ios"
proof -
  obtain ios where "m ios_new = Inr ((), ios)" "ios_ok ios" "ios_data ios = bs"
    by (rule writesE [OF assms(1) ios_ok_new]) (use assms(2) in simp_all)
  then show thesis by (intro that) (simp_all add: on_new_def ios_holds_def)
qed

lemma ios_set_buffer_holds:
  assumes "ios_ok ios" "length d < 2147483648"
  shows "\<exists>ios'. ios_set_buffer (Some d) (of_nat (length d)) ios = Inr ((), ios') \<and> ios_holds d ios'"
  using ios_append_spec [of "ios_reset ios" "length d" d] assms
  by (auto simp: ios_set_buffer_def ios_holds_def)

locale keyed_store =
  fixes put :: "iosbuf \<Rightarrow> iosbuf \<Rightarrow> ('s, unit) prog"
    and get :: "iosbuf \<Rightarrow> iosbuf \<Rightarrow> ('s, iosbuf) prog"
    and view :: "'s \<Rightarrow> byte list \<Rightarrow> pointer"
    and ready :: "'s \<Rightarrow> bool"
  assumes put_view: "ready s \<Longrightarrow> ios_holds k key \<Longrightarrow> ios_holds d data \<Longrightarrow> length d < 2147483648 \<Longrightarrow>
      \<exists>s'. put key data s = Inr ((), s') \<and> ready s' \<and> view s' = (view s)(k \<mapsto> d)"
    and get_view: "ready s \<Longrightarrow> ios_holds k key \<Longrightarrow> ios_ok out \<Longrightarrow>
      \<exists>ios. get key out s = Inr (ios, s) \<and> ios_holds (case view s k of None \<Rightarrow> [] | Some d \<Rightarrow> d) ios"
begin

lemma get_put:
  assumes "ready s" "ios_holds k key" "ios_holds d data" "length d < 2147483648"
  shows "\<exists>s'. put key data s = Inr ((), s') \<and> ready s' \<and> view s' = (view s)(k \<mapsto> d)
    \<and> (\<forall>key' out. ios_holds k key' \<longrightarrow> ios_ok out \<longrightarrow>
         (\<exists>ios. get key' out s' = Inr (ios, s') \<and> ios_holds d ios))"
proof -
  obtain s' where s': "put key data s = Inr ((), s')" "ready s'" "view s' = (view s)(k \<mapsto> d)"
    using put_view [OF assms] by blast
  then show ?thesis using get_view [OF s'(2)] by fastforce
qed

lemma get_record:
  assumes "ready s" "ios_holds k key" "ios_ok out" "view s k = Some bs" "reads m bs x"
  shows "\<exists>ios ios'. get key out s = Inr (ios, s) \<and> ios_holds bs ios \<and> m ios = Inr (x, ios') \<and> ios_data ios' = []"
proof -
  obtain ios where 1: "get key out s = Inr (ios, s)" "ios_holds bs ios"
    using get_view [OF assms(1-3)] assms(4) by auto
  obtain ios' where "m ios = Inr (x, ios')" "ios_data ios' = []"
    using readsE [OF assms(5), of ios "[]"] 1(2) by (auto simp: ios_holds_def)
  with 1 show ?thesis by blast
qed

end

section \<open>A working library\<close>

text \<open>
  The documented behaviour of \<open>DB->get\<close>, \<open>DB->put\<close> and \<open>DB->sync\<close> on a device with room: \<open>A\<close> is
  what the databases contain, by file name and key.
\<close>

type_synonym 'e db_contents = "'e \<Rightarrow> byte list \<Rightarrow> byte list \<Rightarrow> pointer"

definition db_works :: "'e external \<Rightarrow> 'e db_contents \<Rightarrow> bool" where
  "db_works ext A \<longleftrightarrow>
     (\<forall>h k e. ex_db_get ext h k e = (case A e h k of None \<Rightarrow> (DB_NOTFOUND, []) | Some d \<Rightarrow> (DB_OK, d)))
   \<and> (\<forall>h k d e. fst (ex_db_put ext h k d e) = DB_OK
        \<and> A (snd (ex_db_put ext h k d e)) = (A e)(h := (A e h)(k \<mapsto> d)))
   \<and> (\<forall>h e. A (ex_db_sync ext h e) = A e)"

definition db_view :: "'e db_contents \<Rightarrow> databases \<Rightarrow> ('e, 'z) proc_scheme \<Rightarrow> byte list \<Rightarrow> pointer" where
  "db_view A db s k = (case database_ptrs s db of None \<Rightarrow> None | Some h \<Rightarrow> A (env s) h k)"

definition db_ready :: "'e external \<Rightarrow> 'e db_contents \<Rightarrow> databases \<Rightarrow> ('e, 'z) proc_scheme \<Rightarrow> bool" where
  "db_ready ext A db s \<longleftrightarrow> db_works ext A \<and> database_ptrs s db \<noteq> None
     \<and> (\<forall>k d. db_view A db s k = Some d \<longrightarrow> length d < 2147483648)"

text \<open>What a write to one database changes of the process.\<close>

definition same_but_db :: "'e db_contents \<Rightarrow> databases \<Rightarrow> ('e, 'z) proc_scheme \<Rightarrow> ('e, 'z) proc_scheme \<Rightarrow> bool" where
  "same_but_db A db s s' \<longleftrightarrow> (\<exists>e. s' = s\<lparr>env := e\<rparr> \<and>
     (\<forall>h. database_ptrs s db \<noteq> Some h \<longrightarrow> A e h = A (env s) h))"

lemma db_get_library:
  "db_works ext A \<Longrightarrow> ex_db_get ext h k e = (case A e h k of None \<Rightarrow> (DB_NOTFOUND, []) | Some d \<Rightarrow> (DB_OK, d))"
  by (simp add: db_works_def)

lemma db_put_library:
  assumes "db_works ext A"
  obtains e' where "ex_db_put ext h k d e = (DB_OK, e')" "A e' = (A e)(h := (A e h)(k \<mapsto> d))"
    "A (ex_db_sync ext h e') = A e'"
  using assms unfolding db_works_def by (metis prod.collapse)

lemma db_put_spec:
  assumes "db_ready ext A db s" "length (dbt data) < 2147483648"
  shows "\<exists>s'. db_put ext db key data s = Inr ((), s') \<and> db_ready ext A db s' \<and> same_but_db A db s s'
    \<and> db_view A db s' = (db_view A db s)(dbt key \<mapsto> dbt data)"
proof -
  have w: "db_works ext A" using assms(1) by (simp add: db_ready_def)
  obtain h where h: "database_ptrs s db = Some h" using assms(1) by (auto simp: db_ready_def)
  obtain e where e: "ex_db_put ext h (dbt key) (dbt data) (env s) = (DB_OK, e)"
    "A e = (A (env s))(h := (A (env s) h)(dbt key \<mapsto> dbt data))" "A (ex_db_sync ext h e) = A e"
    by (rule db_put_library [OF w])
  let ?s' = "s\<lparr>env := ex_db_sync ext h e\<rparr>"
  have "db_put ext db key data s = Inr ((), ?s')"
    using h e(1) by (simp add: db_put_def db_ptr_def)
  moreover have v: "db_view A db ?s' = (db_view A db s)(dbt key \<mapsto> dbt data)"
    using h e by (auto simp: db_view_def fun_eq_iff)
  moreover have "db_ready ext A db ?s'"
    using assms h by (auto simp: db_ready_def v split: if_splits)
  moreover have "same_but_db A db s ?s'"
    using h e by (auto simp: same_but_db_def)
  ultimately show ?thesis by blast
qed

interpretation kv: keyed_store "db_put ext db" "db_get ext db" "db_view A db" "db_ready ext A db" for ext A db
proof unfold_locales
  fix s k key d data
  assume "db_ready ext A db s" "ios_holds k key" "ios_holds d data" "length d < 2147483648"
  then show "\<exists>s'. db_put ext db key data s = Inr ((), s') \<and> db_ready ext A db s'
      \<and> db_view A db s' = (db_view A db s)(k \<mapsto> d)"
    using db_put_spec [of ext A db s data key] by (auto simp: ios_holds_def)
next
  fix s k key out
  assume a: "db_ready ext A db s" "ios_holds k key" "ios_ok out"
  obtain h where h: "database_ptrs s db = Some h" using a(1) by (auto simp: db_ready_def)
  then have v: "db_view A db s k = A (env s) h k" by (simp add: db_view_def)
  have w: "db_works ext A" using a(1) by (simp add: db_ready_def)
  show "\<exists>ios. db_get ext db key out s = Inr (ios, s)
      \<and> ios_holds (case db_view A db s k of None \<Rightarrow> [] | Some d \<Rightarrow> d) ios"
  proof (cases "A (env s) h k")
    case None
    then show ?thesis using a(2,3) h v
      by (simp add: db_get_def db_ptr_def ios_holds_def db_get_library [OF w])
  next
    case (Some d)
    then have "length d < 2147483648" using a(1) v by (simp add: db_ready_def)
    then show ?thesis using a(2,3) h v Some ios_set_buffer_holds [of out d]
      by (auto simp: db_get_def db_ptr_def ios_holds_def db_get_library [OF w])
  qed
qed

section \<open>The index counters\<close>

definition index_db :: "('e, 'z) proc_scheme \<Rightarrow> databases" where
  "index_db s = (if int_option kOption_server s \<noteq> 0 then kServerConstants else kConstants)"

definition index_key :: "databases \<Rightarrow> byte list" where
  "index_key db = be32 (database_number db)"

text \<open>The counter of \<open>db\<close> stands at \<open>c\<close>.\<close>

definition counts :: "'e db_contents \<Rightarrow> ('e, 'z) proc_scheme \<Rightarrow> databases \<Rightarrow> u32 \<Rightarrow> bool" where
  "counts A s db c \<longleftrightarrow> db_view A (index_db s) s (index_key db) = (if c = 0 then None else Some (be32 c))"

lemma be32_inject [simp]: "be32 v = be32 w \<longleftrightarrow> v = w"
  by (metis append_Nil2 un_be32_be32)

lemma index_key_inject [simp]: "index_key db = index_key db' \<longleftrightarrow> db = db'"
  by (cases db; cases db') (simp_all add: index_key_def database_number_def)

lemma index_db_env [simp]: "index_db (s\<lparr>env := e\<rparr>) = index_db s"
  by (simp add: index_db_def int_option_def)

lemma db_get_key_int_be32: "db_get_key_int (be32 w) = Inr w"
proof -
  obtain ios where 1: "ios_set_buffer (Some (be32 w)) (of_nat (length (be32 w))) ios_new = Inr ((), ios)"
    "ios_holds (be32 w) ios"
    using ios_set_buffer_holds [OF ios_ok_new, of "be32 w"] by auto
  obtain ios' where "ios_read_int32 ios = Inr (w, ios')"
    using readsE [OF reads_int32, of ios w "[]"] 1(2) by (auto simp: ios_holds_def)
  then show ?thesis using 1 by (simp add: db_get_key_int_def)
qed

lemma next_index_run:
  assumes "db_ready ext A (index_db s) s" "counts A s db c"
  shows "\<exists>s'. db_get_next_index ext db s = Inr (c + 1, s') \<and> db_ready ext A (index_db s') s'
    \<and> same_but_db A (index_db s) s s'
    \<and> db_view A (index_db s) s' = (db_view A (index_db s) s)(index_key db \<mapsto> be32 (c + 1))"
proof -
  let ?I = "index_db s"
  have w: "db_works ext A" using assms(1) by (simp add: db_ready_def)
  obtain h where h: "database_ptrs s ?I = Some h" using assms(1) by (auto simp: db_ready_def)
  obtain key where key: "on_new (ios_append_int32 (database_number db)) = Inr key" "ios_holds (index_key db) key"
    by (rule on_new_writes [OF writes_int32]) (simp_all add: index_key_def)
  obtain data where data: "on_new (ios_append_int32 (c + 1)) = Inr data" "ios_holds (be32 (c + 1)) data"
    by (rule on_new_writes [OF writes_int32]) simp_all
  have d: "dbt key = index_key db" "dbt data = be32 (c + 1)"
    using key(2) data(2) by (simp_all add: ios_holds_def)
  have g: "ex_db_get ext h (index_key db) (env s) = (if c = 0 then (DB_NOTFOUND, []) else (DB_OK, be32 c))"
    using assms(2) h by (simp add: db_get_library [OF w] counts_def db_view_def split: if_splits)
  have n: "next_index (ex_db_get ext h (index_key db) (env s)) = Inr (c + 1)"
    by (simp add: g next_index_def db_get_key_int_be32)
  obtain e where e: "ex_db_put ext h (index_key db) (be32 (c + 1)) (env s) = (DB_OK, e)"
    "A e = (A (env s))(h := (A (env s) h)(index_key db \<mapsto> be32 (c + 1)))"
    by (rule db_put_library [OF w])
  have I: "(if int_option kOption_server s \<noteq> 0 then kServerConstants else kConstants) = ?I"
    by (simp add: index_db_def)
  have run: "db_get_next_index ext db s = Inr (c + 1, s\<lparr>env := e\<rparr>)"
    unfolding db_get_next_index_def I
    using h key(1) data(1) d n e(1) by (simp add: db_ptr_def lifted_def db_put_key_int_def)
  have v: "db_view A ?I (s\<lparr>env := e\<rparr>) = (db_view A ?I s)(index_key db \<mapsto> be32 (c + 1))"
    using h e by (auto simp: db_view_def fun_eq_iff)
  moreover have "db_ready ext A (index_db (s\<lparr>env := e\<rparr>)) (s\<lparr>env := e\<rparr>)"
    using assms(1) h by (auto simp: db_ready_def v split: if_splits)
  moreover have "same_but_db A ?I s (s\<lparr>env := e\<rparr>)" using h e by (auto simp: same_but_db_def)
  ultimately show ?thesis using run by blast
qed

lemma index_db_same: "same_but_db A db s s' \<Longrightarrow> index_db s' = index_db s"
  by (auto simp: same_but_db_def)

primrec take_indices :: "'e external \<Rightarrow> databases \<Rightarrow> nat \<Rightarrow> (('e, 'z) proc_scheme, u32 list) prog" where
  "take_indices ext db 0 = ret []"
| "take_indices ext db (Suc n) = andthen (db_get_next_index ext db) (\<lambda>i.
     andthen (take_indices ext db n) (\<lambda>is. ret (i # is)))"

lemma take_indices_run:
  assumes "db_ready ext A (index_db s) s" "counts A s db c" "unat c + n < 4294967296"
  shows "\<exists>s'. take_indices ext db n s = Inr (map (\<lambda>i. c + of_nat i) [1..<Suc n], s')
    \<and> counts A s' db (c + of_nat n) \<and> (\<forall>db' c'. db' \<noteq> db \<longrightarrow> counts A s db' c' \<longrightarrow> counts A s' db' c')"
  using assms
proof (induction n arbitrary: s c)
  case 0
  then show ?case by simp
next
  case (Suc n)
  obtain s1 where 1: "db_get_next_index ext db s = Inr (c + 1, s1)" "db_ready ext A (index_db s1) s1"
    "index_db s1 = index_db s"
    "db_view A (index_db s) s1 = (db_view A (index_db s) s)(index_key db \<mapsto> be32 (c + 1))"
    using next_index_run [OF Suc.prems(1,2)] index_db_same by blast
  have c1: "unat (c + 1) = unat c + 1"
    using Suc.prems(3) unat_add_nowrap [of c 1] by simp
  then have "c + 1 \<noteq> 0" by (metis add_eq_0_iff_both_eq_0 one_neq_zero unat_0)
  then have "counts A s1 db (c + 1)" using 1(3,4) by (simp add: counts_def)
  moreover have "unat (c + 1) + n < 4294967296" using c1 Suc.prems(3) by simp
  ultimately obtain s' where 2: "take_indices ext db n s1 = Inr (map (\<lambda>i. c + 1 + of_nat i) [1..<Suc n], s')"
    "counts A s' db (c + 1 + of_nat n)" "\<forall>db' c'. db' \<noteq> db \<longrightarrow> counts A s1 db' c' \<longrightarrow> counts A s' db' c'"
    using Suc.IH [OF 1(2)] by blast
  have "map (\<lambda>i. c + of_nat i) [1..<Suc (Suc n)] = (c + 1) # map (\<lambda>i. c + 1 + of_nat i) [1..<Suc n]"
    by (simp add: upt_conv_Cons map_Suc_upt [symmetric] comp_def algebra_simps del: upt_Suc)
  moreover have "\<forall>db' c'. db' \<noteq> db \<longrightarrow> counts A s db' c' \<longrightarrow> counts A s1 db' c'"
    using 1(3,4) by (simp add: counts_def)
  ultimately show ?case using 1(1) 2 by (auto simp: algebra_simps)
qed

section \<open>A library for examples\<close>

definition map_db :: "(byte list \<Rightarrow> byte list \<Rightarrow> pointer) external" where
  "map_db = \<lparr>ex_db_create = (\<lambda>_. True), ex_db_open = (\<lambda>_ e. (DB_OK, e)), ex_db_close = (\<lambda>_ e. (DB_OK, e)),
     ex_db_get = (\<lambda>h k e. case e h k of None \<Rightarrow> (DB_NOTFOUND, []) | Some d \<Rightarrow> (DB_OK, d)),
     ex_db_put = (\<lambda>h k d e. (DB_OK, e(h := (e h)(k \<mapsto> d)))),
     ex_db_del = (\<lambda>h k e. (if e h k = None then DB_NOTFOUND else DB_OK, e(h := (e h)(k := None)))),
     ex_db_sync = (\<lambda>_ e. e), ex_db_cursor = (\<lambda>_ e. (DB_OK, 0, e)),
     ex_db_c_get = (\<lambda>_ e. (DB_NOTFOUND, [], [], e)), ex_db_c_close = (\<lambda>_ e. (DB_OK, e)),
     ex_rand = (\<lambda>e. (4, e)), ex_time = (\<lambda>_. 0), ex_garbage = (\<lambda>n. replicate n 0), ex_sha1 = (\<lambda>_. replicate 20 0),
     ex_sort = (\<lambda>_ bs. bs), ex_compress = (\<lambda>d n. if length d < n then Some (d @ [1]) else None),
     ex_uncompress = (\<lambda>d _. Some (butlast d)), ex_crypto_ok = True, ex_ivsize = 16, ex_keysize = 32,
     ex_yarrow_read = (\<lambda>n e. (replicate n 1, e)), ex_sha256 = (\<lambda>_. replicate 32 9),
     ex_ctr = (\<lambda>_ _ d. map NOT d)\<rparr>"

definition open_proc :: "(byte list \<Rightarrow> byte list \<Rightarrow> pointer) proc" where
  "open_proc = (plain_proc (\<lambda>_ _. None))\<lparr>database_ptrs := (\<lambda>db. Some (database_names db))\<rparr>"

lemma map_db_works: "db_works map_db (\<lambda>e. e)"
  by (simp add: db_works_def map_db_def)

lemma open_proc_ready [simp]: "db_ready map_db (\<lambda>e. e) db open_proc"
  by (simp add: db_ready_def map_db_works open_proc_def plain_proc_def db_view_def)

lemma open_proc_counts [simp]: "counts (\<lambda>e. e) open_proc db 0"
  by (simp add: counts_def open_proc_def plain_proc_def db_view_def)

section \<open>Properties\<close>

text \<open>C36. A database is a keyed store: after \<open>db_put\<close>, \<open>db_get\<close> under the same key returns exactly the
  bytes written, under any other key what it returned before, and no database with another
  handle changes.\<close>

theorem db_get_put:
  assumes "db_ready ext A db s" and "ios_holds k key" and "ios_holds d data" and "length d < 2147483648"
    and "ios_holds k' key'" and "ios_ok out"
  shows "\<exists>s' ios. db_put ext db key data s = Inr ((), s') \<and> db_get ext db key' out s' = Inr (ios, s')
    \<and> ios_holds (if k' = k then d else case db_view A db s k' of None \<Rightarrow> [] | Some d \<Rightarrow> d) ios
    \<and> (\<forall>db'. database_ptrs s db' \<noteq> database_ptrs s db \<longrightarrow> db_view A db' s' = db_view A db' s)"
proof -
  have d: "dbt data = d" "dbt key = k" using assms(2,3) by (simp_all add: ios_holds_def)
  obtain s' where s': "db_put ext db key data s = Inr ((), s')" "db_ready ext A db s'"
    "same_but_db A db s s'" "db_view A db s' = (db_view A db s)(k \<mapsto> d)"
    using db_put_spec [OF assms(1), of data key] assms(4) d by auto
  obtain ios where ios: "db_get ext db key' out s' = Inr (ios, s')"
    "ios_holds (case db_view A db s' k' of None \<Rightarrow> [] | Some d \<Rightarrow> d) ios"
    using kv.get_view [OF s'(2) assms(5,6)] by blast
  have "database_ptrs s db' \<noteq> database_ptrs s db \<Longrightarrow> db_view A db' s' = db_view A db' s" for db'
    using s'(3) by (auto simp: same_but_db_def db_view_def fun_eq_iff split: option.splits)
  then show ?thesis using s' ios by auto
qed

theorem db_get_put_witness:
  "\<exists>s' ios. db_put map_db kBlocks (ios_of [1]) (ios_of [5, 6]) open_proc = Inr ((), s')
    \<and> db_get map_db kBlocks (ios_of [1]) ios_new s' = Inr (ios, s') \<and> ios_holds [5, 6] ios"
  using db_get_put [of map_db "\<lambda>e. e" kBlocks open_proc "[1]" "ios_of [1]" "[5, 6]" "ios_of [5, 6]"
      "[1]" "ios_of [1]" ios_new]
  by (auto simp: ios_holds_def)

text \<open>C37. Identifiers are handed out once: from a counter that stands at \<open>c\<close>, \<open>n\<close> calls of
  \<open>db_get_next_index\<close> return \<open>c + 1, \<dots>, c + n\<close>, all different and none of them 0, as long as the
  32-bit counter does not overflow; the counters of the other databases do not move.\<close>

theorem db_get_next_index_fresh:
  assumes "db_ready ext A (index_db s) s" and "counts A s db c" and "unat c + n < 4294967296"
  shows "\<exists>ids s'. take_indices ext db n s = Inr (ids, s') \<and> map unat ids = [Suc (unat c)..<Suc (unat c) + n]
    \<and> counts A s' db (c + of_nat n) \<and> (\<forall>db' c'. db' \<noteq> db \<longrightarrow> counts A s db' c' \<longrightarrow> counts A s' db' c')"
proof -
  obtain s' where s': "take_indices ext db n s = Inr (map (\<lambda>i. c + of_nat i) [1..<Suc n], s')"
    "counts A s' db (c + of_nat n)" "\<forall>db' c'. db' \<noteq> db \<longrightarrow> counts A s db' c' \<longrightarrow> counts A s' db' c'"
    using take_indices_run [OF assms] by blast
  have "unat (c + of_nat i) = unat c + i" if "i \<le> n" for i
    using that assms(3) by (subst unat_add_nowrap) (auto simp: unat_of_nat_u32)
  then have "map unat (map (\<lambda>i. c + of_nat i) [1..<Suc n]) = map (\<lambda>i. unat c + i) [1..<Suc n]"
    by (simp del: upt_Suc)
  also have "\<dots> = [Suc (unat c)..<Suc (unat c) + n]"
    using map_add_upt [of "Suc (unat c)" n] map_Suc_upt [of 0 n]
    by (simp add: map_Suc_upt [symmetric] comp_def del: upt_Suc map_Suc_upt) (simp add: add.commute)
  finally show ?thesis using s' by blast
qed

theorem db_get_next_index_fresh_witness:
  "\<exists>ids s'. take_indices map_db kBlocks 3 open_proc = Inr (ids, s') \<and> map unat ids = [1, 2, 3]"
  using db_get_next_index_fresh [of map_db "\<lambda>e. e" open_proc kBlocks 0 3] by (auto simp: upt_rec)

text \<open>The counter is not protected against overflow: the call after \<open>2\<^sup>3\<^sup>2 - 1\<close> returns the
  identifier 0, which everywhere else means that there is none, and every later call stops the process.\<close>

theorem db_get_next_index_overflow:
  assumes "db_ready ext A (index_db s) s" and "counts A s db 0xFFFFFFFF"
  shows "\<exists>s'. db_get_next_index ext db s = Inr (0, s') \<and> db_get_next_index ext db s' = Inl Abort"
proof -
  obtain s1 where 1: "db_get_next_index ext db s = Inr (0, s1)" "db_ready ext A (index_db s1) s1"
    "index_db s1 = index_db s"
    "db_view A (index_db s) s1 = (db_view A (index_db s) s)(index_key db \<mapsto> be32 0)"
    using next_index_run [OF assms] index_db_same by fastforce
  have w: "db_works ext A" using assms(1) by (simp add: db_ready_def)
  obtain h where h: "database_ptrs s1 (index_db s1) = Some h" using 1(2) by (auto simp: db_ready_def)
  obtain key where key: "on_new (ios_append_int32 (database_number db)) = Inr key" "ios_holds (index_key db) key"
    by (rule on_new_writes [OF writes_int32]) (simp_all add: index_key_def)
  have "A (env s1) h (index_key db) = Some (be32 0)"
    using 1(3,4) h by (metis db_view_def fun_upd_same option.simps(5))
  then have "ex_db_get ext h (index_key db) (env s1) = (DB_OK, be32 0)"
    by (simp add: db_get_library [OF w])
  then have n: "next_index (ex_db_get ext h (dbt key) (env s1)) = Inl Abort"
    using key(2) by (simp add: next_index_def db_get_key_int_be32 ios_holds_def)
  have I: "(if int_option kOption_server s1 \<noteq> 0 then kServerConstants else kConstants) = index_db s1"
    by (simp add: index_db_def)
  have "db_get_next_index ext db s1 = Inl Abort"
    unfolding db_get_next_index_def I using h key(1) n
    by (simp add: db_ptr_def lifted_def db_put_key_int_def)
  then show ?thesis using 1(1) by blast
qed

theorem db_get_next_index_overflow_witness:
  "\<exists>s'. db_get_next_index map_db kBlocks (open_proc\<lparr>env := (\<lambda>_. [be32 2 \<mapsto> be32 0xFFFFFFFF])\<rparr>) = Inr (0, s')
    \<and> db_get_next_index map_db kBlocks s' = Inl Abort"
  by (rule db_get_next_index_overflow [where A = "\<lambda>e. e"])
     (auto simp: db_ready_def map_db_works open_proc_def plain_proc_def db_view_def counts_def
        index_key_def database_number_def split: if_splits)

end
