(* ===== verification/Stores.thy ===== *)
theory Stores
  imports Database Block
begin

text \<open>
  The records that the databases hold, one group of definitions per file: \<open>constants.c\<close>,
  \<open>prefs.c\<close>, \<open>filename.c\<close>, \<open>summary.c\<close>, the accesses of \<open>block.c\<close>, \<open>remote.c\<close> (the blocks that the
  server archives) and \<open>key.c\<close>.  A function that returns a newly allocated record or NULL
  returns an \<open>option\<close>; one that fills in a field of its argument returns the new record.

  What is shown: what each store returns for what was added, and where it does not return it.
\<close>

text \<open>A buffer that holds a string, as \<open>ios_set_buffer(ios, s, strlen(s))\<close> makes it.\<close>

definition string_key :: "byte list \<Rightarrow> iosbuf result" where
  "string_key str = on_new (ios_set_buffer (Some str) (of_nat (length str)))"

definition int_key :: "u32 \<Rightarrow> iosbuf result" where
  "int_key ident = on_new (ios_append_int32 ident)"

text \<open>Reading a record from a buffer that is freed afterwards.\<close>

definition from_ios :: "(iosbuf, 'a) prog \<Rightarrow> iosbuf \<Rightarrow> (('e, 'z) proc_scheme, 'a) prog" where
  "from_ios m ios s = rbind (m ios) (\<lambda>(x, _). Inr (x, s))"

section \<open>Constants and preferences\<close>

definition const_put_string :: "'e external \<Rightarrow> byte list \<Rightarrow> byte list \<Rightarrow> (('e, 'z) proc_scheme, unit) prog" where
  "const_put_string ext key val = andthen (lifted (string_key key)) (\<lambda>ios_key.
     andthen (lifted (on_new (ios_append_string val))) (\<lambda>data. db_put ext kConstants ios_key data))"

definition const_get_string :: "'e external \<Rightarrow> byte list \<Rightarrow> (('e, 'z) proc_scheme, pointer) prog" where
  "const_get_string ext key = andthen (lifted (string_key key)) (\<lambda>ios_key.
     andthen (db_get ext kConstants ios_key ios_new) (\<lambda>data. from_ios ios_read_str data))"

definition const_put_int :: "'e external \<Rightarrow> byte list \<Rightarrow> u32 \<Rightarrow> (('e, 'z) proc_scheme, unit) prog" where
  "const_put_int ext key val = andthen (lifted (string_key key)) (\<lambda>ios_key.
     andthen (lifted (on_new (ios_append_int32 val))) (\<lambda>data. db_put ext kConstants ios_key data))"

text \<open>The \<open>int\<close> result is the bits of the \<open>guint32\<close> that was read.\<close>

definition const_get_int :: "'e external \<Rightarrow> byte list \<Rightarrow> (('e, 'z) proc_scheme, u32) prog" where
  "const_get_int ext key = andthen (lifted (string_key key)) (\<lambda>ios_key.
     andthen (db_get ext kConstants ios_key ios_new) (\<lambda>data. from_ios ios_read_int32 data))"

abbreviation PREF_BLOCK_LENGTH :: "byte list" where "PREF_BLOCK_LENGTH \<equiv> cstr ''block_length''"
abbreviation PREF_DAEMON_COMMAND :: "byte list" where "PREF_DAEMON_COMMAND \<equiv> cstr ''daemon_command''"
abbreviation PREF_TO_ARCHIVE :: "byte list" where "PREF_TO_ARCHIVE \<equiv> cstr ''to_archive''"
abbreviation PREF_ALWAYS_COMPARE_HASH :: "byte list" where
  "PREF_ALWAYS_COMPARE_HASH \<equiv> cstr ''always_compare_hash''"
abbreviation PREF_ARCHIVE_ID :: "byte list" where "PREF_ARCHIVE_ID \<equiv> cstr ''archive_id''"
abbreviation PREF_ARCHIVE_PASS :: "byte list" where "PREF_ARCHIVE_PASS \<equiv> cstr ''archive_pass''"
abbreviation PREF_MUST_CREATE :: "byte list" where "PREF_MUST_CREATE \<equiv> cstr ''must_create''"
abbreviation DEFAULT_BLOCK_LENGTH :: "byte list" where "DEFAULT_BLOCK_LENGTH \<equiv> cstr ''1024''"

definition pref_get_value :: "'e external \<Rightarrow> byte list \<Rightarrow> (('e, 'z) proc_scheme, byte list) prog" where
  "pref_get_value ext key = andthen (const_get_string ext key) (\<lambda>value.
     ret (case value of None \<Rightarrow> [] | Some v \<Rightarrow> v))"

definition pref_get_int_value :: "'e external \<Rightarrow> byte list \<Rightarrow> (('e, 'z) proc_scheme, u32) prog" where
  "pref_get_int_value ext key = const_get_int ext key"

definition pref_get_value_silent_default ::
    "'e external \<Rightarrow> byte list \<Rightarrow> byte list \<Rightarrow> (('e, 'z) proc_scheme, byte list) prog" where
  "pref_get_value_silent_default ext key deflt = andthen (const_get_string ext key) (\<lambda>value.
     ret (case value of None \<Rightarrow> deflt | Some v \<Rightarrow> v))"

text \<open>The default is not used.\<close>

definition pref_get_int_value_silent_default ::
    "'e external \<Rightarrow> byte list \<Rightarrow> byte list \<Rightarrow> (('e, 'z) proc_scheme, u32) prog" where
  "pref_get_int_value_silent_default ext key deflt = const_get_int ext key"

text \<open>
  \<open>db_open_server_dbs\<close> opens the databases of the server and then reads the preferences, which are
  in a database it did not open.  The result is 0 on success.
\<close>

definition db_open_server_dbs :: "'e external \<Rightarrow> u32 \<Rightarrow> u32 \<Rightarrow> (('e, 'z) proc_scheme, int) prog" where
  "db_open_server_dbs ext ident pass = andthen (db_open ext kServerConstants) (\<lambda>_.
     andthen (db_open ext kArchive) (\<lambda>_.
     andthen (const_get_int ext PREF_ARCHIVE_ID) (\<lambda>a.
     if a = ident then andthen (const_get_int ext PREF_ARCHIVE_PASS) (\<lambda>p. ret (if p \<noteq> 0 then 0 else 1))
     else ret 1)))"

section \<open>File names\<close>

record dbfile =
  dbf_filename :: pointer
  dbf_file_id :: u32
  dbf_version :: byte

definition db_filename_new :: "byte list \<Rightarrow> dbfile" where
  "db_filename_new filename = \<lparr>dbf_filename = Some filename, dbf_file_id = 0, dbf_version = 0\<rparr>"

definition db_filename_to_stream :: "dbfile \<Rightarrow> (iosbuf, unit) prog" where
  "db_filename_to_stream dbf = andthen (ios_append_int16 (ucast (dbf_version dbf))) (\<lambda>_.
     ios_append_int32 (dbf_file_id dbf))"

definition db_filename_add :: "'e external \<Rightarrow> byte list \<Rightarrow> (('e, 'z) proc_scheme, dbfile) prog" where
  "db_filename_add ext filename = andthen (lifted (string_key filename)) (\<lambda>key.
     andthen (db_get_next_index ext kFilenames) (\<lambda>file_id.
     let dbf = (db_filename_new filename)\<lparr>dbf_version := 0, dbf_file_id := file_id\<rparr> in
     andthen (lifted (on_new (db_filename_to_stream dbf))) (\<lambda>data.
     andthen (db_put ext kFilenames key data) (\<lambda>_. ret dbf))))"

definition db_filename_from_stream :: "byte list \<Rightarrow> (iosbuf, dbfile option) prog" where
  "db_filename_from_stream name ios = (if ios_buffer ios = None then Inr (None, ios)
     else andthen ios_read_int16 (\<lambda>version. andthen ios_read_int32 (\<lambda>file_id.
          ret (Some ((db_filename_new name)\<lparr>dbf_version := ucast version, dbf_file_id := file_id\<rparr>)))) ios)"

definition db_filename_fetch :: "'e external \<Rightarrow> byte list \<Rightarrow> (('e, 'z) proc_scheme, dbfile option) prog" where
  "db_filename_fetch ext name = andthen (lifted (string_key name)) (\<lambda>key.
     andthen (db_get ext kFilenames key ios_new) (\<lambda>data. from_ios (db_filename_from_stream name) data))"

definition db_filename_curs_begin :: "'e external \<Rightarrow> (('e, 'z) proc_scheme, nat) prog" where
  "db_filename_curs_begin ext = db_curs_begin ext kFilenames"

definition db_filename_curs_next :: "'e external \<Rightarrow> nat \<Rightarrow> (('e, 'z) proc_scheme, dbfile option) prog" where
  "db_filename_curs_next ext c = andthen (db_curs_next ext c ios_new ios_new) (\<lambda>r. case r of
       None \<Rightarrow> ret None
     | Some (key, data) \<Rightarrow> let len = ios_buffer_size key in
         andthen (require (0 < sint len)) (\<lambda>_.
         andthen (from_ios (\<lambda>k. rbind (ios_read len k) (\<lambda>(p, k). rbind (g_strndup p len) (\<lambda>n. Inr (n, k)))) key) (\<lambda>name.
         from_ios (db_filename_from_stream (case name of Some n \<Rightarrow> n | None \<Rightarrow> [])) data)))"

definition db_filename_curs_end :: "'e external \<Rightarrow> nat \<Rightarrow> (('e, 'z) proc_scheme, unit) prog" where
  "db_filename_curs_end ext c = db_curs_end ext c"

section \<open>Summaries\<close>

record dbsummary =
  summary_id :: u32
  sm_version :: byte
  sm_file_id :: u32
  summary_time :: u32
  mod_time :: u32
  file_length :: u32
  inode_number :: u32
  permissions :: u32
  file_sha1 :: "byte list"
  block_list_sha1 :: "byte list"
  block_list_length :: u32
  block_list_remote_id :: u32

definition db_summary_to_stream :: "dbsummary \<Rightarrow> (iosbuf, unit) prog" where
  "db_summary_to_stream a =
     andthen (ios_append (Some [sm_version a]) 1) (\<lambda>_.
     andthen (ios_append_int32 (sm_file_id a)) (\<lambda>_.
     andthen (ios_append_int32 (summary_time a)) (\<lambda>_.
     andthen (ios_append_int32 (mod_time a)) (\<lambda>_.
     andthen (ios_append_int32 (file_length a)) (\<lambda>_.
     andthen (ios_append_int32 (inode_number a)) (\<lambda>_.
     andthen (ios_append_int32 (permissions a)) (\<lambda>_.
     andthen (ios_append (Some (file_sha1 a)) 20) (\<lambda>_.
     andthen (ios_append (Some (block_list_sha1 a)) 20) (\<lambda>_.
     andthen (ios_append_int32 (block_list_length a)) (\<lambda>_.
     ios_append_int32 (block_list_remote_id a)))))))))))"

definition db_summary_from_stream :: "u32 \<Rightarrow> (iosbuf, dbsummary) prog" where
  "db_summary_from_stream ident =
     andthen ios_read_byte (\<lambda>version.
     andthen ios_read_int32 (\<lambda>file_id.
     andthen ios_read_int32 (\<lambda>stime.
     andthen ios_read_int32 (\<lambda>mtime.
     andthen ios_read_int32 (\<lambda>len.
     andthen ios_read_int32 (\<lambda>inode.
     andthen ios_read_int32 (\<lambda>perm.
     andthen (ios_read_mem 20) (\<lambda>fsha.
     andthen (ios_read_mem 20) (\<lambda>bsha.
     andthen ios_read_int32 (\<lambda>blen.
     andthen ios_read_int32 (\<lambda>bremote.
     ret \<lparr>summary_id = ident, sm_version = version, sm_file_id = file_id, summary_time = stime,
       mod_time = mtime, file_length = len, inode_number = inode, permissions = perm,
       file_sha1 = fsha, block_list_sha1 = bsha, block_list_length = blen,
       block_list_remote_id = bremote\<rparr>)))))))))))"

definition db_summary_add :: "'e external \<Rightarrow> dbsummary \<Rightarrow> (('e, 'z) proc_scheme, dbsummary) prog" where
  "db_summary_add ext a =
     andthen (if summary_id a = 0 then db_get_next_index ext kSummary else ret (summary_id a)) (\<lambda>ident.
     let a = a\<lparr>summary_id := ident\<rparr> in
     andthen (lifted (int_key ident)) (\<lambda>key.
     andthen (lifted (on_new (db_summary_to_stream a))) (\<lambda>data.
     andthen (db_put ext kSummary key data) (\<lambda>_. ret a))))"

definition db_summary_fetch :: "'e external \<Rightarrow> u32 \<Rightarrow> (('e, 'z) proc_scheme, dbsummary option) prog" where
  "db_summary_fetch ext ident = andthen (lifted (int_key ident)) (\<lambda>key.
     andthen (db_get ext kSummary key ios_new) (\<lambda>data.
     if ios_buffer_size data = 0 then ret None
     else andthen (from_ios (db_summary_from_stream ident) data) (\<lambda>dbs. ret (Some dbs))))"

definition db_summary_fetch_last :: "'e external \<Rightarrow> u32 \<Rightarrow> (('e, 'z) proc_scheme, dbsummary option) prog" where
  "db_summary_fetch_last ext ident = andthen (db_ptr kSummary) (\<lambda>_. db_summary_fetch ext ident)"

definition db_summary_new :: "'e external \<Rightarrow> dbfile \<Rightarrow> regular_file \<Rightarrow> (('e, 'z) proc_scheme, dbsummary) prog" where
  "db_summary_new ext dbf sb = andthen (require (dbf_filename dbf \<noteq> None)) (\<lambda>_ s. Inr (
     \<lparr>summary_id = dbf_file_id dbf, sm_version = 0, sm_file_id = dbf_file_id dbf,
      summary_time = ex_time ext (env s), mod_time = rf_mtime sb,
      file_length = of_nat (length (rf_data sb)), inode_number = rf_inode sb,
      permissions = rf_mode sb, file_sha1 = replicate 20 0, block_list_sha1 = replicate 20 0,
      block_list_length = 0, block_list_remote_id = 0\<rparr>, s))"

section \<open>Blocks\<close>

text \<open>
  \<open>db_block_add\<close> writes only three of the fields.  \<open>db_block_fetch\<close> frees its buffers before it
  reads the block from one of them, which is undefined.
\<close>

definition db_block_to_db :: "dbblock \<Rightarrow> (iosbuf, unit) prog" where
  "db_block_to_db b = andthen (ios_append (Some [bl_version b]) 1) (\<lambda>_.
     andthen (ios_append_int32 (offset b)) (\<lambda>_. ios_append_int16 (bl_length b)))"

definition db_block_add :: "'e external \<Rightarrow> dbblock \<Rightarrow> (('e, 'z) proc_scheme, unit) prog" where
  "db_block_add ext b = andthen (lifted (int_key (local_id b))) (\<lambda>key.
     andthen (lifted (on_new (db_block_to_db b))) (\<lambda>data. db_put ext kBlocks key data))"

definition db_block_fetch :: "'e external \<Rightarrow> u32 \<Rightarrow> (('e, 'z) proc_scheme, dbblock option) prog" where
  "db_block_fetch ext ident = andthen (lifted (int_key ident)) (\<lambda>key.
     andthen (db_get ext kBlocks key ios_new) (\<lambda>_. fail Undef))"

section \<open>The archive of the server\<close>

record dbarchive =
  ar_archive_id :: u32
  ar_version :: byte
  ar_ios :: "iosbuf option"

definition db_archive_new :: dbarchive where
  "db_archive_new = \<lparr>ar_archive_id = 0, ar_version = 0, ar_ios = None\<rparr>"

definition db_archive_to_stream :: "byte \<Rightarrow> iosbuf \<Rightarrow> (iosbuf, unit) prog" where
  "db_archive_to_stream version ios = andthen (ios_append (Some [version]) 1) (\<lambda>_.
     andthen (ios_append_int16 (ucast (ios_buffer_size ios))) (\<lambda>_. ios_append_ios ios))"

definition db_archive_add :: "'e external \<Rightarrow> dbarchive \<Rightarrow> (('e, 'z) proc_scheme, dbarchive) prog" where
  "db_archive_add ext b =
     andthen (if ar_archive_id b = 0 then db_get_next_index ext kArchive else ret (ar_archive_id b)) (\<lambda>ident.
     andthen (lifted (int_key ident)) (\<lambda>key.
     case ar_ios b of None \<Rightarrow> fail Abort
     | Some ios \<Rightarrow> andthen (lifted (on_new (db_archive_to_stream (ar_version b) ios))) (\<lambda>data.
         andthen (db_put ext kArchive key data) (\<lambda>_. ret (b\<lparr>ar_archive_id := ident\<rparr>)))))"

definition db_archive_from_stream :: "u32 \<Rightarrow> (iosbuf, dbarchive option) prog" where
  "db_archive_from_stream ident ios = (if ios_buffer ios = None then Inr (None, ios)
     else andthen ios_read_byte (\<lambda>version. andthen ios_read_int16 (\<lambda>len16.
          let len = ucast len16 :: u32 in
          andthen (ios_read_mem len) (\<lambda>d ios.
          rbind (on_new (ios_set_buffer (if len = 0 then None else Some d) len)) (\<lambda>data.
          Inr (Some \<lparr>ar_archive_id = ident, ar_version = version, ar_ios = Some data\<rparr>, ios))))) ios)"

definition db_archive_fetch :: "'e external \<Rightarrow> u32 \<Rightarrow> (('e, 'z) proc_scheme, dbarchive option) prog" where
  "db_archive_fetch ext ident = andthen (lifted (int_key ident)) (\<lambda>key.
     andthen (db_get ext kArchive key ios_new) (\<lambda>data. from_ios (db_archive_from_stream ident) data))"

section \<open>Keys\<close>

record dbkey =
  dbk_key_id :: u32
  dbk_key :: pointer
  dbk_version :: byte

definition db_key_new :: "u32 \<Rightarrow> dbkey" where
  "db_key_new key_id = \<lparr>dbk_key_id = key_id, dbk_key = None, dbk_version = 0\<rparr>"

definition db_key_to_stream :: "byte list \<Rightarrow> (iosbuf, unit) prog" where
  "db_key_to_stream key_val = andthen (ios_append_int16 0) (\<lambda>_. ios_append_string key_val)"

definition db_key_add :: "'e external \<Rightarrow> byte list \<Rightarrow> (('e, 'z) proc_scheme, dbkey) prog" where
  "db_key_add ext key_val = andthen (lifted (string_key key_val)) (\<lambda>key.
     andthen (db_get_next_index ext kKeys) (\<lambda>key_id.
     andthen (lifted (on_new (db_key_to_stream key_val))) (\<lambda>data.
     andthen (db_put ext kKeys key data) (\<lambda>_.
     ret ((db_key_new key_id)\<lparr>dbk_version := 0, dbk_key := Some key_val\<rparr>)))))"

definition db_key_from_stream :: "u32 \<Rightarrow> (iosbuf, dbkey option) prog" where
  "db_key_from_stream key_id ios = (if ios_buffer ios = None then Inr (None, ios)
     else andthen ios_read_int16 (\<lambda>version. andthen ios_read_str (\<lambda>key.
          ret (Some ((db_key_new key_id)\<lparr>dbk_version := ucast version, dbk_key := key\<rparr>)))) ios)"

definition db_key_fetch :: "'e external \<Rightarrow> u32 \<Rightarrow> (('e, 'z) proc_scheme, dbkey option) prog" where
  "db_key_fetch ext key_id = andthen (lifted (int_key key_id)) (\<lambda>key.
     andthen (db_get ext kKeys key ios_new) (\<lambda>data. from_ios (db_key_from_stream key_id) data))"

definition db_key_curs_begin :: "'e external \<Rightarrow> (('e, 'z) proc_scheme, nat) prog" where
  "db_key_curs_begin ext = db_curs_begin ext kKeys"

definition db_key_curs_next :: "'e external \<Rightarrow> nat \<Rightarrow> (('e, 'z) proc_scheme, dbkey option) prog" where
  "db_key_curs_next ext c = andthen (db_curs_next ext c ios_new ios_new) (\<lambda>r. case r of
       None \<Rightarrow> ret None
     | Some (key, data) \<Rightarrow> andthen (require (0 < sint (ios_buffer_size key))) (\<lambda>_.
         andthen (from_ios ios_read_int32 key) (\<lambda>key_id. from_ios (db_key_from_stream key_id) data)))"

definition db_key_curs_end :: "'e external \<Rightarrow> nat \<Rightarrow> (('e, 'z) proc_scheme, unit) prog" where
  "db_key_curs_end ext c = db_curs_end ext c"

section \<open>Helpers for the stores\<close>

lemma string_key_run:
  assumes "length str < 2147483648"
  obtains ios where "string_key str = Inr ios" "ios_holds str ios"
  using ios_set_buffer_holds [OF ios_ok_new assms] by (auto simp: string_key_def on_new_def)

lemma int_key_run:
  obtains ios where "int_key w = Inr ios" "ios_holds (be32 w) ios"
  using on_new_writes [OF writes_int32 [of w]] by (auto simp: int_key_def)

lemma lifted_Inr [simp]: "lifted (Inr x) s = Inr (x, s)"
  by (simp add: lifted_def)

lemma from_ios_reads:
  assumes "ios_holds bs ios" "reads m bs x"
  shows "from_ios m ios s = Inr (x, s)"
proof -
  obtain ios' where "m ios = Inr (x, ios')"
    using readsE [OF assms(2), of ios "[]"] assms(1) by (auto simp: ios_holds_def)
  then show ?thesis by (simp add: from_ios_def)
qed

lemma ios_holds_buffer: "ios_holds bs ios \<Longrightarrow> ios_buffer ios = None \<longleftrightarrow> bs = []"
  by (auto simp: ios_holds_def ios_buffer_data)

lemma reads_guarded:
  assumes "ios_holds bs ios" "bs \<noteq> []" "reads m bs x"
  shows "from_ios (\<lambda>ios. if ios_buffer ios = None then Inr (y, ios) else m ios) ios s = Inr (x, s)"
proof -
  have "from_ios m ios s = Inr (x, s)" by (rule from_ios_reads [OF assms(1,3)])
  moreover have "ios_buffer ios \<noteq> None" using ios_holds_buffer [OF assms(1)] assms(2) by simp
  ultimately show ?thesis by (simp add: from_ios_def del: not_None_eq)
qed

lemma db_put_record:
  assumes "db_ready ext A db s" "ios_holds k key" "writes m bs" "length bs < 2147483648"
  obtains data s' where "on_new m = Inr data" "db_put ext db key data s = Inr ((), s')"
    "db_ready ext A db s'" "same_but_db A db s s'" "db_view A db s' = (db_view A db s)(k \<mapsto> bs)"
proof -
  obtain data where data: "on_new m = Inr data" "ios_holds bs data"
    by (rule on_new_writes [OF assms(3,4)])
  have "dbt data = bs" "dbt key = k" using data(2) assms(2) by (simp_all add: ios_holds_def)
  then show thesis using db_put_spec [OF assms(1), of data key] assms(4) data(1) that by auto
qed

lemma db_get_holds:
  assumes "db_ready ext A db s" "ios_holds k key"
  obtains ios where "db_get ext db key ios_new s = Inr (ios, s)"
    "ios_holds (case db_view A db s k of None \<Rightarrow> [] | Some d \<Rightarrow> d) ios"
  using kv.get_view [OF assms ios_ok_new] by blast

lemma ios_reset_new [simp]: "ios_reset ios_new = ios_new"
  by (simp add: ios_reset_def ios_new_def)

lemma ios_read_int32_new: "ios_read_int32 ios_new = Inl Abort"
  by (simp add: ios_read_int32_def ios_new_def)

lemma db_get_missing:
  assumes "db_ready ext A db s" "ios_holds k key" "db_view A db s k = None"
  shows "db_get ext db key ios_new s = Inr (ios_new, s)"
proof -
  obtain h where h: "database_ptrs s db = Some h" using assms(1) by (auto simp: db_ready_def)
  have "db_works ext A" using assms(1) by (simp add: db_ready_def)
  then show ?thesis using assms(2,3) h
    by (simp add: db_get_def db_ptr_def db_get_library ios_holds_def db_view_def)
qed

lemma same_but_db_other:
  assumes "same_but_db A db s s'" "database_ptrs s db' \<noteq> database_ptrs s db"
  shows "db_view A db' s' = db_view A db' s" "db_ready ext A db' s' = db_ready ext A db' s"
proof -
  show v: "db_view A db' s' = db_view A db' s"
    using assms by (auto simp: same_but_db_def db_view_def fun_eq_iff split: option.splits)
  show "db_ready ext A db' s' = db_ready ext A db' s"
    using assms(1) by (auto simp: db_ready_def v same_but_db_def)
qed

text \<open>The store of a record and the counters are open, in different files.\<close>

definition store_ready :: "'e external \<Rightarrow> 'e db_contents \<Rightarrow> databases \<Rightarrow> ('e, 'z) proc_scheme \<Rightarrow> bool" where
  "store_ready ext A db s \<longleftrightarrow> db_ready ext A db s \<and> db_ready ext A (index_db s) s
     \<and> database_ptrs s db \<noteq> database_ptrs s (index_db s)"

lemma next_index_store:
  assumes "store_ready ext A db s" "counts A s dbi c"
  obtains s' where "db_get_next_index ext dbi s = Inr (c + 1, s')" "db_ready ext A db s'"
    "db_view A db s' = db_view A db s" "database_ptrs s' = database_ptrs s"
proof -
  have r: "db_ready ext A db s" "db_ready ext A (index_db s) s"
    "database_ptrs s db \<noteq> database_ptrs s (index_db s)"
    using assms(1) by (simp_all add: store_ready_def)
  obtain s' where s': "db_get_next_index ext dbi s = Inr (c + 1, s')" "same_but_db A (index_db s) s s'"
    using next_index_run [OF r(2) assms(2)] by blast
  then show thesis
    using same_but_db_other [OF s'(2) r(3)] r(1) by (intro that [of s']) (auto simp: same_but_db_def)
qed

lemma open_proc_fields [simp]: "database_ptrs open_proc db = Some (database_names db)"
  "index_db open_proc = kConstants" "env open_proc = (\<lambda>_ _. None)"
  by (simp_all add: open_proc_def plain_proc_def index_db_def int_option_def)

lemma open_proc_store [simp]: "db \<noteq> kConstants \<Longrightarrow> store_ready map_db (\<lambda>e. e) db open_proc"
  by (cases db) (simp_all add: store_ready_def database_names_def cstr_def)

section \<open>The stored forms\<close>

definition summary_bytes :: "dbsummary \<Rightarrow> byte list" where
  "summary_bytes a = [sm_version a] @ be32 (sm_file_id a) @ be32 (summary_time a) @ be32 (mod_time a)
     @ be32 (file_length a) @ be32 (inode_number a) @ be32 (permissions a) @ file_sha1 a
     @ block_list_sha1 a @ be32 (block_list_length a) @ be32 (block_list_remote_id a)"

definition summary_ok :: "u32 \<Rightarrow> dbsummary \<Rightarrow> bool" where
  "summary_ok ident a \<longleftrightarrow> length (file_sha1 a) = 20 \<and> length (block_list_sha1 a) = 20 \<and> summary_id a = ident"

lemma length_summary_bytes: "summary_ok ident a \<Longrightarrow> length (summary_bytes a) = 73"
  by (simp add: summary_bytes_def summary_ok_def)

lemma writes_byte1 [ios_specs]: "writes (ios_append (Some [b]) 1) [b]"
  using writes_append [of 1 "[b]" "[b]"] by simp

lemma writes_20: "length d = 20 \<Longrightarrow> writes (ios_append (Some d) 20) d"
  using writes_append [of 20 d d] by simp

interpretation summary_wire: wire_format db_summary_to_stream "db_summary_from_stream ident"
  summary_bytes "summary_ok ident" for ident
proof unfold_locales
  fix a assume ok: "summary_ok ident a"
  then show "writes (db_summary_to_stream a) (summary_bytes a)"
    unfolding summary_ok_def db_summary_to_stream_def summary_bytes_def
    by (intro ios_specs writes_20) simp_all
  have sha: "reads (ios_read_mem 20) (file_sha1 a) (file_sha1 a)"
    "reads (ios_read_mem 20) (block_list_sha1 a) (block_list_sha1 a)"
    using ok by (auto simp: summary_ok_def intro!: reads_mem)
  have "reads (db_summary_from_stream ident) ([sm_version a] @ be32 (sm_file_id a) @ be32 (summary_time a)
      @ be32 (mod_time a) @ be32 (file_length a) @ be32 (inode_number a) @ be32 (permissions a)
      @ file_sha1 a @ block_list_sha1 a @ be32 (block_list_length a)
      @ be32 (block_list_remote_id a) @ []) a"
    unfolding db_summary_from_stream_def
    by (rule reads_andthen [OF reads_byte] reads_andthen [OF reads_int32] reads_andthen [OF sha(1)]
          reads_andthen [OF sha(2)])+
       (use ok in \<open>simp_all add: summary_ok_def reads_def\<close>)
  then show "reads (db_summary_from_stream ident) (summary_bytes a) a"
    by (simp add: summary_bytes_def)
qed

section \<open>Properties\<close>

text \<open>An integer constant is kept: after \<open>const_put_int\<close> the same key reads back the same value,
  and every other key what it read before.\<close>

theorem const_put_get_int:
  assumes "db_ready ext A kConstants s" and "length key < 2147483648" and "length key' < 2147483648"
    and "db_view A kConstants s key' = Some (be32 w)"
  shows "\<exists>s'. const_put_int ext key val s = Inr ((), s')
    \<and> const_get_int ext key' s' = Inr (if key' = key then val else w, s')"
proof -
  obtain k where k: "string_key key = Inr k" "ios_holds key k" by (rule string_key_run [OF assms(2)])
  obtain k' where k': "string_key key' = Inr k'" "ios_holds key' k'" by (rule string_key_run [OF assms(3)])
  have l: "length (be32 val) < 2147483648" by simp
  obtain d s' where s': "on_new (ios_append_int32 val) = Inr d" "db_put ext kConstants k d s = Inr ((), s')"
    "db_ready ext A kConstants s'" "db_view A kConstants s' = (db_view A kConstants s)(key \<mapsto> be32 val)"
    by (rule db_put_record [OF assms(1) k(2) writes_int32 l])
  obtain out where out: "db_get ext kConstants k' ios_new s' = Inr (out, s')"
    "ios_holds (case db_view A kConstants s' key' of None \<Rightarrow> [] | Some d \<Rightarrow> d) out"
    by (rule db_get_holds [OF s'(3) k'(2)])
  have "ios_holds (be32 (if key' = key then val else w)) out"
    using out(2) s'(4) assms(4) by (auto split: if_splits)
  then have "from_ios ios_read_int32 out s' = Inr (if key' = key then val else w, s')"
    by (rule from_ios_reads [OF _ reads_int32])
  then show ?thesis using k k' s' out by (simp add: const_put_int_def const_get_int_def)
qed

theorem const_put_get_int_witness:
  "\<exists>s'. const_put_int map_db PREF_BLOCK_LENGTH 512
      (open_proc\<lparr>env := (\<lambda>_. [PREF_BLOCK_LENGTH \<mapsto> be32 7])\<rparr>) = Inr ((), s')
    \<and> const_get_int map_db PREF_BLOCK_LENGTH s' = Inr (512, s')"
  using const_put_get_int [of map_db "\<lambda>e. e" "open_proc\<lparr>env := (\<lambda>_. [PREF_BLOCK_LENGTH \<mapsto> be32 7])\<rparr>"
      PREF_BLOCK_LENGTH PREF_BLOCK_LENGTH 7 512]
  by (auto simp: db_ready_def map_db_works open_proc_def plain_proc_def db_view_def cstr_def split: if_splits)

text \<open>A preference that was never set stops the process: \<open>pref_get_int_value_silent_default\<close> does not
  use its default, and reading an integer from the empty answer of the database fails an assertion.\<close>

theorem pref_default_is_ignored:
  assumes "db_ready ext A kConstants s" and "length key < 2147483648" and "db_view A kConstants s key = None"
  shows "pref_get_int_value_silent_default ext key deflt s = Inl Abort"
proof -
  obtain k where k: "string_key key = Inr k" "ios_holds key k" by (rule string_key_run [OF assms(2)])
  have "db_get ext kConstants k ios_new s = Inr (ios_new, s)"
    by (rule db_get_missing [OF assms(1) k(2) assms(3)])
  then show ?thesis using k
    by (simp add: pref_get_int_value_silent_default_def const_get_int_def from_ios_def ios_read_int32_new)
qed

theorem pref_default_is_ignored_witness:
  "pref_get_int_value_silent_default map_db PREF_BLOCK_LENGTH DEFAULT_BLOCK_LENGTH open_proc = Inl Abort"
  by (rule pref_default_is_ignored [where A = "\<lambda>e. e"])
     (simp_all add: db_view_def cstr_def)

text \<open>A file name is found again: \<open>db_filename_add\<close> gives it the next identifier and
  \<open>db_filename_fetch\<close> then returns that record; a name that was never added is not found.\<close>

theorem db_filename_add_fetch:
  assumes "store_ready ext A kFilenames s" and "counts A s kFilenames c" and "length name < 2147483648"
    and "db_view A kFilenames s name = None"
  shows "db_filename_fetch ext name s = Inr (None, s)
    \<and> (\<exists>s'. db_filename_add ext name s =
           Inr (\<lparr>dbf_filename = Some name, dbf_file_id = c + 1, dbf_version = 0\<rparr>, s')
         \<and> db_filename_fetch ext name s' =
           Inr (Some \<lparr>dbf_filename = Some name, dbf_file_id = c + 1, dbf_version = 0\<rparr>, s'))"
proof -
  have r: "db_ready ext A kFilenames s" using assms(1) by (simp add: store_ready_def)
  obtain k where k: "string_key name = Inr k" "ios_holds name k" by (rule string_key_run [OF assms(3)])
  have "db_get ext kFilenames k ios_new s = Inr (ios_new, s)"
    by (rule db_get_missing [OF r k(2) assms(4)])
  then have 0: "db_filename_fetch ext name s = Inr (None, s)"
    using k by (simp add: db_filename_fetch_def db_filename_from_stream_def from_ios_def ios_buffer_data)
  let ?f = "\<lparr>dbf_filename = Some name, dbf_file_id = c + 1, dbf_version = 0\<rparr>"
  obtain s1 where s1: "db_get_next_index ext kFilenames s = Inr (c + 1, s1)" "db_ready ext A kFilenames s1"
    by (rule next_index_store [OF assms(1,2)])
  have w: "writes (db_filename_to_stream ?f) (be16 0 @ be32 (c + 1))"
    unfolding db_filename_to_stream_def by (intro ios_specs) (simp_all add: writes_int16 writes_int32)
  have l: "length (be16 0 @ be32 (c + 1)) < 2147483648" by simp
  obtain d s2 where s2: "on_new (db_filename_to_stream ?f) = Inr d" "db_put ext kFilenames k d s1 = Inr ((), s2)"
    "db_ready ext A kFilenames s2" "db_view A kFilenames s2 = (db_view A kFilenames s1)(name \<mapsto> be16 0 @ be32 (c + 1))"
    by (rule db_put_record [OF s1(2) k(2) w l])
  obtain out where out: "db_get ext kFilenames k ios_new s2 = Inr (out, s2)"
    "ios_holds (be16 0 @ be32 (c + 1)) out"
    using db_get_holds [OF s2(3) k(2)] s2(4) by auto
  have "from_ios (db_filename_from_stream name) out s2 = Inr (Some ?f, s2)"
    unfolding db_filename_from_stream_def
  proof (rule reads_guarded [OF out(2)])
    have "reads (andthen ios_read_int16 (\<lambda>version. andthen ios_read_int32 (\<lambda>file_id.
          ret (Some ((db_filename_new name)\<lparr>dbf_version := ucast version, dbf_file_id := file_id\<rparr>)))))
        (be16 0 @ be32 (c + 1) @ []) (Some ?f)"
      by (rule reads_andthen [OF reads_int16] reads_andthen [OF reads_int32])+
         (simp add: reads_def db_filename_new_def)
    then show "reads (andthen ios_read_int16 (\<lambda>version. andthen ios_read_int32 (\<lambda>file_id.
          ret (Some ((db_filename_new name)\<lparr>dbf_version := ucast version, dbf_file_id := file_id\<rparr>)))))
        (be16 0 @ be32 (c + 1)) (Some ?f)" by simp
  qed simp
  then have "db_filename_fetch ext name s2 = Inr (Some ?f, s2)"
    using k out by (simp add: db_filename_fetch_def)
  moreover have "db_filename_add ext name s = Inr (?f, s2)"
    using k s1 s2 by (simp add: db_filename_add_def db_filename_new_def)
  ultimately show ?thesis using 0 by blast
qed

theorem db_filename_add_fetch_witness:
  "\<exists>s'. db_filename_fetch map_db (cstr ''/etc/passwd'') open_proc = Inr (None, open_proc)
    \<and> db_filename_add map_db (cstr ''/etc/passwd'') open_proc =
        Inr (\<lparr>dbf_filename = Some (cstr ''/etc/passwd''), dbf_file_id = 1, dbf_version = 0\<rparr>, s')"
  using db_filename_add_fetch [of map_db "\<lambda>e. e" open_proc 0 "cstr ''/etc/passwd''"]
  by (auto simp: db_view_def cstr_def)

text \<open>A summary is stored without loss: \<open>db_summary_add\<close> of a summary without an identifier
  gives it the next one, and \<open>db_summary_fetch\<close> of that identifier returns all of its fields.\<close>

theorem db_summary_add_fetch:
  assumes "store_ready ext A kSummary s" and "counts A s kSummary c" and "c + 1 \<noteq> 0"
    and "length (file_sha1 a) = 20" and "length (block_list_sha1 a) = 20" and "summary_id a = 0"
  shows "\<exists>s'. db_summary_add ext a s = Inr (a\<lparr>summary_id := c + 1\<rparr>, s')
    \<and> db_summary_fetch ext (c + 1) s' = Inr (Some (a\<lparr>summary_id := c + 1\<rparr>), s')"
proof -
  let ?a = "a\<lparr>summary_id := c + 1\<rparr>"
  have ok: "summary_ok (c + 1) ?a" using assms(4,5) by (simp add: summary_ok_def)
  obtain s1 where s1: "db_get_next_index ext kSummary s = Inr (c + 1, s1)" "db_ready ext A kSummary s1"
    by (rule next_index_store [OF assms(1,2)])
  obtain k where k: "int_key (c + 1) = Inr k" "ios_holds (be32 (c + 1)) k" by (rule int_key_run)
  have l: "length (summary_bytes ?a) < 2147483648" by (simp add: length_summary_bytes [OF ok])
  obtain d s2 where s2: "on_new (db_summary_to_stream ?a) = Inr d" "db_put ext kSummary k d s1 = Inr ((), s2)"
    "db_ready ext A kSummary s2" "db_view A kSummary s2 = (db_view A kSummary s1)(be32 (c + 1) \<mapsto> summary_bytes ?a)"
    by (rule db_put_record [OF s1(2) k(2) summary_wire.put_writes [OF ok] l])
  obtain out where out: "db_get ext kSummary k ios_new s2 = Inr (out, s2)" "ios_holds (summary_bytes ?a) out"
    using db_get_holds [OF s2(3) k(2)] s2(4) by auto
  have "unat (ios_buffer_size out) = 73"
    using out(2) length_summary_bytes [OF ok] by (auto simp: ios_holds_def ios_buffer_size_data)
  then have "ios_buffer_size out \<noteq> 0" by auto
  moreover have "from_ios (db_summary_from_stream (c + 1)) out s2 = Inr (?a, s2)"
    by (rule from_ios_reads [OF out(2) summary_wire.get_reads [OF ok]])
  ultimately show ?thesis using k s1 s2 out assms(6)
    by (simp add: db_summary_add_def db_summary_fetch_def Let_def)
qed

definition sample_summary :: dbsummary where
  "sample_summary = \<lparr>summary_id = 0, sm_version = 0, sm_file_id = 3, summary_time = 9, mod_time = 8,
     file_length = 1300, inode_number = 2, permissions = 420, file_sha1 = replicate 20 1,
     block_list_sha1 = replicate 20 2, block_list_length = 0, block_list_remote_id = 0\<rparr>"

theorem db_summary_add_fetch_witness:
  "\<exists>s'. db_summary_add map_db sample_summary open_proc = Inr (sample_summary\<lparr>summary_id := 1\<rparr>, s')
    \<and> db_summary_fetch map_db 1 s' = Inr (Some (sample_summary\<lparr>summary_id := 1\<rparr>), s')"
  using db_summary_add_fetch [of map_db "\<lambda>e. e" open_proc 0 sample_summary]
  by (auto simp: sample_summary_def)

lemma unat_eq_of_natD: "unat (w :: 'a :: len word) = n \<Longrightarrow> w = of_nat n"
  by auto

lemma ucast_of_nat_u16: "(ucast (of_nat n :: u32) :: u16) = of_nat n"
  by (rule bit_word_eqI) (simp add: bit_simps)

lemma ios_of_append_all:
  assumes "ios_holds d ios" "ios_read_ptr ios = 0" "length d < 2147483648"
  shows "writes (ios_append_ios ios) d"
proof -
  have "ios_bytes ios = d" "ios_len ios = of_nat (length d)"
    using assms(1,2) by (auto simp: ios_holds_def ios_data_def ios_ok_def)
  then show ?thesis using writes_append [of "length d" d d] by (simp add: ios_append_ios_def)
qed

definition archive_bytes :: "byte \<Rightarrow> byte list \<Rightarrow> byte list" where
  "archive_bytes v d = [v] @ be16 (of_nat (length d)) @ d"

lemma writes_archive:
  assumes "ios_holds d ios" "ios_read_ptr ios = 0" "length d < 2147483648"
  shows "writes (db_archive_to_stream v ios) (archive_bytes v d)"
proof -
  have "unat (ios_buffer_size ios) = length d"
    using assms(1) ios_buffer_size_data [of ios] by (simp add: ios_holds_def)
  then have "(ucast (ios_buffer_size ios) :: u16) = of_nat (length d)"
    using ucast_of_nat_u16 [of "length d"] unat_eq_of_natD by metis
  then show ?thesis
    unfolding db_archive_to_stream_def archive_bytes_def
    by (simp only:) (intro writes_andthen writes_byte1 writes_int16 ios_of_append_all [OF assms])
qed

lemma archive_from_stream:
  assumes "ios_holds (archive_bytes v d) ios" "n = length d mod 65536"
  shows "n = 0 \<Longrightarrow> from_ios (db_archive_from_stream ident) ios s = Inl Abort"
    and "n \<noteq> 0 \<Longrightarrow> \<exists>data. ios_holds (take n d) data \<and> ios_read_ptr data = 0 \<and> from_ios (db_archive_from_stream ident) ios s =
       Inr (Some \<lparr>ar_archive_id = ident, ar_version = v, ar_ios = Some data\<rparr>, s)"
proof -
  let ?len = "of_nat (length d) :: u16"
  have n: "unat ?len = n" by (simp add: assms(2) unat_of_nat)
  have buf: "ios_buffer ios \<noteq> None"
    using ios_holds_buffer [OF assms(1)] by (simp add: archive_bytes_def)
  obtain i1 where i1: "ios_read_byte ios = Inr (v, i1)" "ios_ok i1" "ios_data i1 = be16 ?len @ d"
    using readsE [OF reads_byte, of ios v "be16 ?len @ d"] assms(1)
    by (auto simp: ios_holds_def archive_bytes_def)
  obtain i2 where i2: "ios_read_int16 i1 = Inr (?len, i2)" "ios_ok i2" "ios_data i2 = d"
    by (rule readsE [OF reads_int16 i1(2,3)])
  have le: "n \<le> length d" "n < 65536" by (simp_all add: assms(2))
  have m: "unat (ucast ?len :: u32) = length (take n d)" using le by (simp add: n)
  have split: "ios_data i2 = take n d @ drop n d" using i2(3) by simp
  obtain i3 where i3: "ios_read_mem (ucast ?len) i2 = Inr (take n d, i3)"
    by (rule readsE [OF reads_mem [OF m] i2(2) split])
  have z: "(ucast ?len :: u32) = of_nat n" using m le unat_eq_of_natD by fastforce
  show "from_ios (db_archive_from_stream ident) ios s = Inl Abort" if "n = 0"
    using buf i1 i2 i3 z that
    by (simp add: from_ios_def db_archive_from_stream_def on_new_def ios_set_buffer_def Let_def del: not_None_eq)
  show "\<exists>data. ios_holds (take n d) data \<and> ios_read_ptr data = 0 \<and> from_ios (db_archive_from_stream ident) ios s =
       Inr (Some \<lparr>ar_archive_id = ident, ar_version = v, ar_ios = Some data\<rparr>, s)" if "n \<noteq> 0"
  proof -
    have nz: "(of_nat n :: u32) \<noteq> 0" using m z that le by (metis length_take min.absorb2 unat_0)
    have "length (take n d) = n" using le by simp
    then obtain data where data: "ios_set_buffer (Some (take n d)) (of_nat n) ios_new = Inr ((), data)"
      "ios_holds (take n d) data"
      using ios_set_buffer_holds [OF ios_ok_new, of "take n d"] le by auto
    moreover have "ios_read_ptr data = 0" by (rule ios_set_buffer_read_ptr [OF data(1)])
    ultimately show ?thesis using buf i1 i2 i3 z nz
      by (intro exI [of _ data]) (simp add: from_ios_def db_archive_from_stream_def on_new_def Let_def del: not_None_eq)
  qed
qed

text \<open>C40. The server keeps only 16 bits of the length of what it archives: what \<open>db_archive_add\<close>
  stored, \<open>db_archive_fetch\<close> returns in full up to 65535 bytes; of a longer one it returns the first
  \<open>n mod 65536\<close> bytes, and when that is none the process stops at an assertion.\<close>

theorem db_archive_add_fetch:
  assumes "store_ready ext A kArchive s" and "counts A s kArchive c" and "ios_holds d ios"
    and "ios_read_ptr ios = 0" and "length d < 2147483000"
  shows "\<exists>s'. db_archive_add ext (db_archive_new\<lparr>ar_ios := Some ios\<rparr>) s =
        Inr (db_archive_new\<lparr>ar_archive_id := c + 1, ar_ios := Some ios\<rparr>, s')
    \<and> (if length d mod 65536 = 0 then db_archive_fetch ext (c + 1) s' = Inl Abort
       else \<exists>data. db_archive_fetch ext (c + 1) s' =
            Inr (Some \<lparr>ar_archive_id = c + 1, ar_version = 0, ar_ios = Some data\<rparr>, s')
          \<and> ios_holds (take (length d mod 65536) d) data)"
proof -
  obtain s1 where s1: "db_get_next_index ext kArchive s = Inr (c + 1, s1)" "db_ready ext A kArchive s1"
    by (rule next_index_store [OF assms(1,2)])
  obtain k where k: "int_key (c + 1) = Inr k" "ios_holds (be32 (c + 1)) k" by (rule int_key_run)
  have w: "writes (db_archive_to_stream 0 ios) (archive_bytes 0 d)"
    by (rule writes_archive [OF assms(3,4)]) (use assms(5) in simp)
  have l: "length (archive_bytes 0 d) < 2147483648" using assms(5) by (simp add: archive_bytes_def)
  obtain t s2 where s2: "on_new (db_archive_to_stream 0 ios) = Inr t" "db_put ext kArchive k t s1 = Inr ((), s2)"
    "db_ready ext A kArchive s2" "db_view A kArchive s2 = (db_view A kArchive s1)(be32 (c + 1) \<mapsto> archive_bytes 0 d)"
    by (rule db_put_record [OF s1(2) k(2) w l])
  obtain out where out: "db_get ext kArchive k ios_new s2 = Inr (out, s2)" "ios_holds (archive_bytes 0 d) out"
    using db_get_holds [OF s2(3) k(2)] s2(4) by auto
  have "db_archive_add ext (db_archive_new\<lparr>ar_ios := Some ios\<rparr>) s =
      Inr (db_archive_new\<lparr>ar_archive_id := c + 1, ar_ios := Some ios\<rparr>, s2)"
    using k s1 s2 by (simp add: db_archive_add_def db_archive_new_def)
  moreover have "db_archive_fetch ext (c + 1) s2 = from_ios (db_archive_from_stream (c + 1)) out s2"
    using k out by (simp add: db_archive_fetch_def)
  ultimately show ?thesis
    using archive_from_stream(1) [OF out(2) refl, of "c + 1" s2]
      archive_from_stream(2) [OF out(2) refl, of "c + 1" s2]
    by (intro exI [of _ s2]) (auto simp del: mod_greater_zero_iff_not_dvd)
qed

theorem db_archive_add_fetch_witness:
  "\<exists>s' data. db_archive_add map_db (db_archive_new\<lparr>ar_ios := Some (ios_of [1, 2, 3])\<rparr>) open_proc =
        Inr (db_archive_new\<lparr>ar_archive_id := 1, ar_ios := Some (ios_of [1, 2, 3])\<rparr>, s')
    \<and> db_archive_fetch map_db 1 s' =
        Inr (Some \<lparr>ar_archive_id = 1, ar_version = 0, ar_ios = Some data\<rparr>, s') \<and> ios_holds [1, 2, 3] data"
  using db_archive_add_fetch [of map_db "\<lambda>e. e" open_proc 0 "[1, 2, 3]" "ios_of [1, 2, 3]"]
  by (auto simp: ios_holds_def ios_of_def ios_ok_def ios_data_def)

text \<open>A key cannot be found by its identifier: \<open>db_key_add\<close> stores it under its own bytes, so that
  \<open>db_key_fetch\<close> of the identifier that it was given finds nothing that was not there before.\<close>

theorem db_key_not_found_by_id:
  assumes "store_ready ext A kKeys s" and "counts A s kKeys c" and "length key_val < 2147483000"
    and "db_view A kKeys s (be32 (c + 1)) = None" and "key_val \<noteq> be32 (c + 1)"
  shows "\<exists>s'. db_key_add ext key_val s =
        Inr (\<lparr>dbk_key_id = c + 1, dbk_key = Some key_val, dbk_version = 0\<rparr>, s')
    \<and> db_key_fetch ext (c + 1) s' = Inr (None, s')"
proof -
  have lk: "length key_val < 2147483648" using assms(3) by simp
  obtain k where k: "string_key key_val = Inr k" "ios_holds key_val k" by (rule string_key_run [OF lk])
  obtain s1 where s1: "db_get_next_index ext kKeys s = Inr (c + 1, s1)" "db_ready ext A kKeys s1"
    "db_view A kKeys s1 = db_view A kKeys s"
    by (rule next_index_store [OF assms(1,2)])
  let ?bs = "be16 0 @ be32 (of_nat (length key_val)) @ key_val"
  have w: "writes (db_key_to_stream key_val) ?bs"
    unfolding db_key_to_stream_def by (intro ios_specs)
  have l: "length ?bs < 2147483648" using assms(3) by simp
  obtain d s2 where s2: "on_new (db_key_to_stream key_val) = Inr d" "db_put ext kKeys k d s1 = Inr ((), s2)"
    "db_ready ext A kKeys s2" "db_view A kKeys s2 = (db_view A kKeys s1)(key_val \<mapsto> ?bs)"
    by (rule db_put_record [OF s1(2) k(2) w l])
  obtain i where i: "int_key (c + 1) = Inr i" "ios_holds (be32 (c + 1)) i" by (rule int_key_run)
  have "db_view A kKeys s2 (be32 (c + 1)) = None" using s2(4) s1(3) assms(4,5) by simp
  then have "db_get ext kKeys i ios_new s2 = Inr (ios_new, s2)"
    by (rule db_get_missing [OF s2(3) i(2)])
  then have "db_key_fetch ext (c + 1) s2 = Inr (None, s2)"
    using i by (simp add: db_key_fetch_def db_key_from_stream_def from_ios_def ios_buffer_data)
  then show ?thesis using k s1 s2 by (simp add: db_key_add_def db_key_new_def)
qed

theorem db_key_not_found_by_id_witness:
  "\<exists>s'. db_key_add map_db (cstr ''secret'') open_proc =
        Inr (\<lparr>dbk_key_id = 1, dbk_key = Some (cstr ''secret''), dbk_version = 0\<rparr>, s')
    \<and> db_key_fetch map_db 1 s' = Inr (None, s')"
  using db_key_not_found_by_id [of map_db "\<lambda>e. e" open_proc 0 "cstr ''secret''"]
  by (auto simp: db_view_def cstr_def be32_def)

section \<open>Storing and fetching on a server\<close>

text \<open>Only the library's state changes.\<close>

lemma same_but_db_env: "same_but_db A db s s' \<Longrightarrow> \<exists>e. s' = s\<lparr>env := e\<rparr>"
  by (auto simp: same_but_db_def)

lemma store_ready_trans:
  assumes "store_ready ext A db s" "same_but_db A db' s s'" "db' = db \<or> db' = index_db s"
    "db_ready ext A db' s'"
  shows "store_ready ext A db s'"
proof -
  have p: "database_ptrs s' = database_ptrs s" "index_db s' = index_db s"
    using assms(2) by (auto simp: same_but_db_def)
  have h: "database_ptrs s db \<noteq> database_ptrs s (index_db s)" using assms(1) by (simp add: store_ready_def)
  have "db_ready ext A db s' \<and> db_ready ext A (index_db s) s'"
    using assms(1,3,4) same_but_db_other(2) [OF assms(2)] h by (auto simp: store_ready_def)
  then show ?thesis using h by (simp add: store_ready_def p)
qed

lemma counts_other:
  assumes "same_but_db A db s s'" "database_ptrs s db \<noteq> database_ptrs s (index_db s)" "counts A s dbi c"
  shows "counts A s' dbi c"
  using assms same_but_db_other(1) [OF assms(1), of "index_db s"] by (auto simp: counts_def index_db_same)

text \<open>The archive of a server: its contents under an identifier.\<close>

definition archived :: "'e db_contents \<Rightarrow> ('e, 'z) proc_scheme \<Rightarrow> u32 \<Rightarrow> byte list option" where
  "archived A s ident = (case db_view A kArchive s (be32 ident) of None \<Rightarrow> None | Some bs \<Rightarrow> Some (drop 3 bs))"

lemma db_archive_add_run:
  assumes "store_ready ext A kArchive s" "counts A s kArchive c" "ios_holds d ios" "ios_read_ptr ios = 0"
    "length d < 2147483000"
  obtains e where "db_archive_add ext \<lparr>ar_archive_id = 0, ar_version = 0, ar_ios = Some ios\<rparr> s =
      Inr (\<lparr>ar_archive_id = c + 1, ar_version = 0, ar_ios = Some ios\<rparr>, s\<lparr>env := e\<rparr>)"
    "store_ready ext A kArchive (s\<lparr>env := e\<rparr>)" "c + 1 \<noteq> 0 \<Longrightarrow> counts A (s\<lparr>env := e\<rparr>) kArchive (c + 1)"
    "db_view A kArchive (s\<lparr>env := e\<rparr>) = (db_view A kArchive s)(be32 (c + 1) \<mapsto> archive_bytes 0 d)"
proof -
  have r: "db_ready ext A kArchive s" "db_ready ext A (index_db s) s"
    "database_ptrs s kArchive \<noteq> database_ptrs s (index_db s)"
    using assms(1) by (simp_all add: store_ready_def)
  obtain s1 where s1: "db_get_next_index ext kArchive s = Inr (c + 1, s1)" "db_ready ext A (index_db s1) s1"
    "same_but_db A (index_db s) s s1"
    "db_view A (index_db s) s1 = (db_view A (index_db s) s)(index_key kArchive \<mapsto> be32 (c + 1))"
    using next_index_run [OF r(2) assms(2)] by blast
  note i1 = index_db_same [OF s1(3)]
  have st1: "store_ready ext A kArchive s1"
    by (rule store_ready_trans [OF assms(1) s1(3)]) (use s1(2) i1 in simp_all)
  have c1: "c + 1 \<noteq> 0 \<Longrightarrow> counts A s1 kArchive (c + 1)" using s1(4) i1 by (simp add: counts_def)
  have v1: "db_view A kArchive s1 = db_view A kArchive s" by (rule same_but_db_other(1) [OF s1(3) r(3)])
  obtain k where k: "int_key (c + 1) = Inr k" "ios_holds (be32 (c + 1)) k" by (rule int_key_run)
  have w: "writes (db_archive_to_stream 0 ios) (archive_bytes 0 d)"
    by (rule writes_archive [OF assms(3,4)]) (use assms(5) in simp)
  have l: "length (archive_bytes 0 d) < 2147483648" using assms(5) by (simp add: archive_bytes_def)
  have r1: "db_ready ext A kArchive s1" using st1 by (simp add: store_ready_def)
  obtain t s2 where s2: "on_new (db_archive_to_stream 0 ios) = Inr t" "db_put ext kArchive k t s1 = Inr ((), s2)"
    "db_ready ext A kArchive s2" "same_but_db A kArchive s1 s2"
    "db_view A kArchive s2 = (db_view A kArchive s1)(be32 (c + 1) \<mapsto> archive_bytes 0 d)"
    by (rule db_put_record [OF r1 k(2) w l])
  obtain e where e: "s2 = s\<lparr>env := e\<rparr>" using same_but_db_env [OF s1(3)] same_but_db_env [OF s2(4)] by auto
  have "store_ready ext A kArchive s2" by (rule store_ready_trans [OF st1 s2(4)]) (use s2(3) in simp_all)
  moreover have "c + 1 \<noteq> 0 \<Longrightarrow> counts A s2 kArchive (c + 1)"
    using counts_other [OF s2(4)] c1 st1 by (simp add: store_ready_def)
  ultimately show thesis
    using s1(1) k s2 v1 e by (intro that [of e]) (simp_all add: db_archive_add_def)
qed

lemma db_archive_fetch_run:
  assumes "db_ready ext A kArchive s" "db_view A kArchive s (be32 ident) = Some (archive_bytes v d)"
    "d \<noteq> []" "length d < 65536"
  obtains data where "db_archive_fetch ext ident s =
      Inr (Some \<lparr>ar_archive_id = ident, ar_version = v, ar_ios = Some data\<rparr>, s)" "ios_holds d data"
    "ios_read_ptr data = 0"
proof -
  obtain k where k: "int_key ident = Inr k" "ios_holds (be32 ident) k" by (rule int_key_run)
  obtain out where out: "db_get ext kArchive k ios_new s = Inr (out, s)" "ios_holds (archive_bytes v d) out"
    using db_get_holds [OF assms(1) k(2)] assms(2) by auto
  have n: "length d = length d mod 65536" "length d \<noteq> 0" using assms(3,4) by simp_all
  obtain data where data: "ios_holds (take (length d) d) data" "from_ios (db_archive_from_stream ident) out s =
      Inr (Some \<lparr>ar_archive_id = ident, ar_version = v, ar_ios = Some data\<rparr>, s)" "ios_read_ptr data = 0"
    using archive_from_stream(2) [OF out(2) n, of ident s] by auto
  then show thesis using that [of data] k out by (simp add: db_archive_fetch_def)
qed

end
