(* ===== verification/Peer.thy ===== *)
theory Peer
  imports Stores Covering
begin

text \<open>
  One end of a connection: the process with the static variables of \<open>io.c\<close>, \<open>main.c\<close>,
  \<open>encryption.c\<close>, \<open>hash.c\<close>, \<open>covering.c\<close> and \<open>workticket.c\<close>, and the operations of \<open>io.c\<close> that
  the protocol uses to send.

  \<^item> \<open>ios_read_buf\<close>, \<open>ios_write_buf\<close>: the two buffers of a connection.  They are created on first
    use, so an empty buffer stands for NULL.
  \<^item> \<open>chan_out\<close>: \<open>None\<close> for a NULL channel, else whether the output handler is registered.
  \<^item> \<open>work_list\<close>: the tickets in the order of their insertion.  A ticket in the list is referred to
    by its index; the handlers never hold a reference across an insertion or removal.
  \<^item> A stream of a ticket is a file open for reading, or the path and position of a file open for
    writing.
\<close>

section \<open>The state\<close>

datatype wt_actions = wt_Archive | wt_Extract

datatype wt_status = wt_New | wt_AwaitingBlockList | wt_SendingBlocks | wt_SendingBlockRequests
  | wt_AwaitingBlockConfirms | wt_AwaitingBlockListConfirm

text \<open>The order of the enumeration.\<close>

primrec wt_status_number :: "wt_status \<Rightarrow> nat" where
  "wt_status_number wt_New = 0"
| "wt_status_number wt_AwaitingBlockList = 1"
| "wt_status_number wt_SendingBlocks = 2"
| "wt_status_number wt_SendingBlockRequests = 3"
| "wt_status_number wt_AwaitingBlockConfirms = 4"
| "wt_status_number wt_AwaitingBlockListConfirm = 5"

instantiation wt_status :: linorder
begin

definition less_eq_wt_status :: "wt_status \<Rightarrow> wt_status \<Rightarrow> bool" where
  "less_eq_wt_status a b \<longleftrightarrow> wt_status_number a \<le> wt_status_number b"

definition less_wt_status :: "wt_status \<Rightarrow> wt_status \<Rightarrow> bool" where
  "less_wt_status a b \<longleftrightarrow> wt_status_number a < wt_status_number b"

instance
proof
  fix a b :: wt_status
  show "a \<le> b \<Longrightarrow> b \<le> a \<Longrightarrow> a = b"
    by (cases a; cases b) (simp_all add: less_eq_wt_status_def)
qed (auto simp: less_eq_wt_status_def less_wt_status_def)

end

datatype stream = Reading cfile | Writing "byte list" nat

record ticket =
  wt_dbf :: "dbfile option"
  wt_summary :: "dbsummary option"
  wt_block_list :: "dbblock list option"
  num_blocks_moved :: u32
  next_block_to_queue :: u32
  wt_state :: wt_status
  wt_fp :: "stream option"
  wt_action :: wt_actions

record crypto_instance =
  ci_ivsize :: nat
  ci_ks :: nat
  ci_hashkey :: "byte list"

record 'e peer = "'e proc" +
  ios_read_buf :: iosbuf
  ios_write_buf :: iosbuf
  chan_out :: "bool option"
  ignore_input :: bool
  ignore_output :: bool
  main_loop_running :: bool
  work_list :: "ticket list"
  more_work :: int
  cover_block_length :: u32
  checksum_hash :: hash_state
  g_crypto :: "crypto_instance option"

section \<open>The main loop\<close>

definition quit_main_loop :: "('e peer, unit) prog" where
  "quit_main_loop = update (\<lambda>s. s\<lparr>main_loop_running := False\<rparr>)"

definition is_main_loop_running :: "'e peer \<Rightarrow> bool" where
  "is_main_loop_running s = main_loop_running s"

section \<open>Sending\<close>

definition io_write_reg :: "('e peer, unit) prog" where
  "io_write_reg s = (case chan_out s of None \<Rightarrow> Inl Segv
     | Some watched \<Rightarrow> Inr ((), s\<lparr>chan_out := Some True\<rparr>))"

definition io_write_buf :: "('e peer, iosbuf) prog" where
  "io_write_buf = andthen io_write_reg (\<lambda>_. state ios_write_buf)"

definition io_read_buf :: "('e peer, iosbuf) prog" where
  "io_read_buf = state ios_read_buf"

text \<open>Running an operation on the write buffer.\<close>

definition on_write_buf :: "(iosbuf, 'a) prog \<Rightarrow> ('e peer, 'a) prog" where
  "on_write_buf m s = rbind (m (ios_write_buf s)) (\<lambda>(x, ios). Inr (x, s\<lparr>ios_write_buf := ios\<rparr>))"

definition put_frame :: "iosbuf \<Rightarrow> (iosbuf, unit) prog" where
  "put_frame ios = andthen (ios_append_int32 (ios_buffer_size ios)) (\<lambda>_.
     ios_append (ios_buffer ios) (ios_buffer_size ios))"

definition io_send_ios :: "iosbuf \<Rightarrow> ('e peer, unit) prog" where
  "io_send_ios ios s = (if ignore_output s then Inr ((), s)
     else andthen io_write_buf (\<lambda>_. on_write_buf (put_frame ios)) s)"

definition io_no_more_input :: "('e peer, unit) prog" where
  "io_no_more_input = update (\<lambda>s. s\<lparr>ignore_input := True\<rparr>)"

definition io_no_more_output :: "('e peer, unit) prog" where
  "io_no_more_output = update (\<lambda>s. s\<lparr>ignore_output := True\<rparr>)"

text \<open>\<open>io_register_fd_pair\<close>: the channels exist afterwards and the output handler is registered.\<close>

definition io_register_fd_pair :: "('e peer, unit) prog" where
  "io_register_fd_pair = andthen (update (\<lambda>s. s\<lparr>chan_out := Some False\<rparr>)) (\<lambda>_.
     andthen io_write_buf (\<lambda>_. ret ()))"

section \<open>The work list\<close>

definition new_work_ticket :: ticket where
  "new_work_ticket = \<lparr>wt_dbf = None, wt_summary = None, wt_block_list = None, num_blocks_moved = 0,
     next_block_to_queue = 0, wt_state = wt_New, wt_fp = None, wt_action = wt_Archive\<rparr>"

definition wt_queue_full :: "'e peer \<Rightarrow> bool" where
  "wt_queue_full s \<longleftrightarrow> length (work_list s) > 20"

definition wt_insert :: "ticket \<Rightarrow> ('e peer, unit) prog" where
  "wt_insert wt = andthen (update (\<lambda>s. s\<lparr>work_list := work_list s @ [wt]\<rparr>)) (\<lambda>_.
     andthen io_write_buf (\<lambda>_. ret ()))"

definition wt_remove :: "nat \<Rightarrow> ('e peer, unit) prog" where
  "wt_remove i = update (\<lambda>s. s\<lparr>work_list := take i (work_list s) @ drop (Suc i) (work_list s)\<rparr>)"

definition wt_more :: "'e peer \<Rightarrow> bool" where
  "wt_more s \<longleftrightarrow> work_list s \<noteq> []"

definition wt_more_to_come :: "'e peer \<Rightarrow> bool" where
  "wt_more_to_come s \<longleftrightarrow> more_work s \<noteq> 0"

definition wt_working :: "int \<Rightarrow> ('e peer, unit) prog" where
  "wt_working x = update (\<lambda>s. s\<lparr>more_work := x\<rparr>)"

text \<open>The comparator dereferences the file record of every ticket it meets.\<close>

fun find_wt_by_file_id :: "u32 \<Rightarrow> ticket list \<Rightarrow> nat \<Rightarrow> nat option result" where
  "find_wt_by_file_id file_id [] i = Inr None"
| "find_wt_by_file_id file_id (wt # wts) i = (case wt_dbf wt of None \<Rightarrow> Inl Segv
     | Some dbf \<Rightarrow> if dbf_file_id dbf = file_id then Inr (Some i)
                   else find_wt_by_file_id file_id wts (Suc i))"

definition wt_find :: "u32 \<Rightarrow> ('e peer, nat) prog" where
  "wt_find file_id s = (if file_id = 0 then Inl Abort
     else rbind (find_wt_by_file_id file_id (work_list s) 0) (\<lambda>r.
          case r of None \<Rightarrow> Inl Abort | Some i \<Rightarrow> Inr (i, s)))"

fun find_block :: "u32 \<Rightarrow> dbblock list \<Rightarrow> nat \<Rightarrow> nat option" where
  "find_block block_id [] i = None"
| "find_block block_id (b # bs) i = (if local_id b = block_id then Some i else find_block block_id bs (Suc i))"

definition wt_find_block :: "ticket \<Rightarrow> u32 \<Rightarrow> nat option result" where
  "wt_find_block wt block_id = (case wt_block_list wt of None \<Rightarrow> Inl Abort
     | Some bl \<Rightarrow> Inr (find_block block_id bl 0))"

definition wt_assert :: "ticket \<Rightarrow> unit result" where
  "wt_assert wt = (if wt_fp wt \<noteq> None \<and> wt_summary wt \<noteq> None \<and> wt_dbf wt \<noteq> None
       \<and> (case wt_block_list wt of None \<Rightarrow> False | Some bl \<Rightarrow> unat (next_block_to_queue wt) < length bl)
     then Inr () else Inl Abort)"

text \<open>Reading and replacing the ticket at an index.\<close>

definition ticket_at :: "nat \<Rightarrow> 'e peer \<Rightarrow> ticket" where
  "ticket_at i s = work_list s ! i"

definition set_ticket :: "nat \<Rightarrow> ticket \<Rightarrow> ('e peer, unit) prog" where
  "set_ticket i wt = update (\<lambda>s. s\<lparr>work_list := (work_list s)[i := wt]\<rparr>)"

definition wt_finish :: "'e external \<Rightarrow> nat \<Rightarrow> ('e peer, unit) prog" where
  "wt_finish ext i s = (case wt_summary (ticket_at i s) of None \<Rightarrow> Inl Abort
     | Some dba \<Rightarrow> andthen (db_summary_add ext dba) (\<lambda>_. wt_remove i) s)"

end
