(* ===== verification/Crypt.thy ===== *)
theory Crypt
  imports Peer
begin

text \<open>
  \<open>compress.c\<close> and \<open>encryption.c\<close> as they are compiled without \<open>CLEARTEXT\<close>.  zlib and libtomcrypt
  are parameters: \<open>ex_compress d n\<close> and \<open>ex_uncompress d n\<close> are given the size of the output buffer
  and fail with \<open>None\<close>; \<open>ex_ctr key iv d\<close> is AES in counter mode, from a fresh counter.  The bound
  \<open>(float)size * 1.001 + 13\<close> is computed as IEEE arithmetic does it (\<open>float_bound\<close>).  A NULL result is \<open>None\<close>.

  What is shown: the bound is what the documentation of zlib asks for, up to 16 MiB, and not beyond; packing (compress, then
  encrypt) and unpacking are inverse, under the documented behaviour of the libraries, when the initialisation vector survives
  \<open>strncpy\<close>; and what a receiver gets when it does not.
\<close>

section \<open>Compression\<close>

text \<open>Rounding to \<open>k\<close> significant binary digits, to the nearest and on a tie to the even one.\<close>

function binary_digits :: "int \<Rightarrow> nat" where
  "binary_digits n = (if n \<le> 0 then 0 else Suc (binary_digits (n div 2)))"
  by auto
termination
  by (relation "measure nat") auto

definition round_to :: "nat \<Rightarrow> int \<Rightarrow> int" where
  "round_to k n = (let s = binary_digits n - k; q = n div 2 ^ s; r = n mod 2 ^ s in
     (if 2 * r < 2 ^ s \<or> (2 * r = 2 ^ s \<and> even q) then q else q + 1) * 2 ^ s)"

text \<open>
  The size is rounded to a \<open>float\<close> (24 digits); the rest is in \<open>double\<close> (53 digits), where 1.001 is
  \<open>4508103226997866 / 2^52\<close>; products and sums are counted in units of \<open>2^-52\<close>, and the assignment to \<open>length\<close> truncates.
\<close>

definition float_bound :: "nat \<Rightarrow> nat" where
  "float_bound n = nat (let p = round_to 53 (round_to 24 (int n) * 4508103226997866) in
     round_to 53 (p + 13 * 2 ^ 52) div 2 ^ 52)"

definition do_compress :: "'e external \<Rightarrow> iosbuf \<Rightarrow> iosbuf result" where
  "do_compress ext ios_in =
     (case ex_compress ext (dbt ios_in) (float_bound (unat (ios_buffer_size ios_in))) of
        None \<Rightarrow> Inl (Exit 1)
      | Some data \<Rightarrow> on_new (ios_set_buffer (Some data) (of_nat (length data))))"

definition do_decompress :: "'e external \<Rightarrow> iosbuf \<Rightarrow> u32 \<Rightarrow> iosbuf result" where
  "do_decompress ext ios_in orig_len = (if orig_len = 0 then Inl Abort
     else case ex_uncompress ext (dbt ios_in) (unat orig_len) of
        None \<Rightarrow> Inl (Exit 1)
      | Some data \<Rightarrow> on_new (ios_set_buffer (Some data) (of_nat (length data))))"

section \<open>Keys\<close>

text \<open>Reading exactly \<open>n\<close> bytes from the random number generator; \<open>g_error\<close> aborts.\<close>

definition yarrow_read :: "'e external \<Rightarrow> nat \<Rightarrow> ('e peer, byte list) prog" where
  "yarrow_read ext n s = (case ex_yarrow_read ext n (env s) of (bs, e) \<Rightarrow>
     if length bs \<noteq> n then Inl Abort else Inr (bs, s\<lparr>env := e\<rparr>))"

definition string_to_key :: "'e external \<Rightarrow> byte list \<Rightarrow> ('e peer, unit) prog" where
  "string_to_key ext key s = (case g_crypto s of None \<Rightarrow> Inl Segv
     | Some c \<Rightarrow> Inr ((), s\<lparr>g_crypto := Some (c\<lparr>ci_hashkey := ex_sha256 ext (c_string key)\<rparr>)\<rparr>))"

text \<open>\<open>MAXBLOCKSIZE\<close> of libtomcrypt is 128.\<close>

definition set_key :: "byte list \<Rightarrow> int \<Rightarrow> ('e peer, unit) prog" where
  "set_key inputkey len s = (if len \<le> 0 then Inl Abort
     else case g_crypto s of None \<Rightarrow> Inl Segv
     | Some c \<Rightarrow> if length inputkey < min (nat len) 128 then Inl Segv
         else let k = take (min (nat len) 128) inputkey in
           Inr ((), s\<lparr>g_crypto := Some (c\<lparr>ci_hashkey := k @ replicate (128 - length k) 0\<rparr>)\<rparr>))"

definition generate_random_key :: "'e external \<Rightarrow> ('e peer, unit) prog" where
  "generate_random_key ext = andthen (yarrow_read ext 512) (\<lambda>random_source_key.
     string_to_key ext (random_source_key @ [0]))"

definition init_crypto :: "'e external \<Rightarrow> ('e peer, unit) prog" where
  "init_crypto ext = andthen (require (ex_crypto_ok ext)) (\<lambda>_.
     andthen (update (\<lambda>s. s\<lparr>g_crypto := Some \<lparr>ci_ivsize = ex_ivsize ext, ci_ks = ex_keysize ext,
        ci_hashkey = replicate 128 0\<rparr>\<rparr>)) (\<lambda>_.
     andthen (yarrow_read ext (ex_ivsize ext)) (\<lambda>_. generate_random_key ext)))"

section \<open>Encryption\<close>

definition encrypt :: "'e external \<Rightarrow> iosbuf \<Rightarrow> ('e peer, iosbuf option) prog" where
  "encrypt ext ios_in s = (case g_crypto s of None \<Rightarrow> Inl Segv
     | Some c \<Rightarrow> andthen (yarrow_read ext (ci_ivsize c)) (\<lambda>iv s.
         rbind (ios_append (Some iv) (of_nat (ci_ivsize c)) ios_new) (\<lambda>(_, out).
         case ios_buffer ios_in of None \<Rightarrow> Inr (None, s)
         | Some _ \<Rightarrow> rbind (ios_append (Some (ex_ctr ext (take (ci_ks c) (ci_hashkey c)) iv (dbt ios_in)))
                (ios_buffer_size ios_in) out) (\<lambda>(_, out). Inr (Some out, s)))) s)"

text \<open>
  \<open>strncpy(IV, p, n)\<close>: the bytes before the first NUL, \<open>n\<close> at most, padded with NULs.
\<close>

definition strncpy :: "byte list \<Rightarrow> nat \<Rightarrow> byte list" where
  "strncpy p n = (let c = c_string (take n p) in c @ replicate (n - length c) 0)"

definition decrypt :: "'e external \<Rightarrow> iosbuf \<Rightarrow> ('e peer, iosbuf) prog" where
  "decrypt ext ios_in s = (case g_crypto s of None \<Rightarrow> Inl Segv
     | Some c \<Rightarrow> (case ios_buffer ios_in of None \<Rightarrow> Inl Segv
         | Some p \<Rightarrow> if length p < ci_ivsize c then Inl Undef
             else let iv = strncpy p (ci_ivsize c);
                  plaintext = ex_ctr ext (take (ci_ks c) (ci_hashkey c)) iv (drop (ci_ivsize c) (dbt ios_in))
               in rbind (ios_append (Some plaintext) (ios_buffer_size ios_in - of_nat (ci_ivsize c)) ios_new)
                    (\<lambda>(_, out). Inr (out, s))))"

section \<open>The bound\<close>

declare binary_digits.simps [simp del]

lemma binary_digits_less: "n < 2 ^ binary_digits n"
proof (induction n rule: binary_digits.induct)
  case (1 n)
  show ?case
  proof (cases "n \<le> 0")
    case False
    have "n div 2 < 2 ^ binary_digits (n div 2)" using 1 False by simp
    then show ?thesis using False by (simp add: binary_digits.simps [of n])
  next
    case True
    then show ?thesis by (simp add: binary_digits.simps [of n])
  qed
qed

lemma binary_digits_le: "0 < n \<Longrightarrow> 2 ^ binary_digits n \<le> 2 * n"
proof (induction n rule: binary_digits.induct)
  case (1 n)
  show ?case
  proof (cases "n = 1")
    case True
    then show ?thesis by (simp add: binary_digits.simps [of 1] binary_digits.simps [of 0])
  next
    case False
    then have "2 ^ binary_digits (n div 2) \<le> 2 * (n div 2)" using 1 by simp
    then have "2 ^ binary_digits (n div 2) \<le> n" by linarith
    then show ?thesis using 1(2) by (simp add: binary_digits.simps [of n])
  qed
qed

lemma binary_digits_bound: "n < 2 ^ k \<Longrightarrow> binary_digits n \<le> k"
proof (cases "n \<le> 0")
  case False
  assume "n < 2 ^ k"
  then have "(2::int) ^ binary_digits n < 2 ^ Suc k" using binary_digits_le [of n] False by simp
  then show ?thesis by (simp add: power_strict_increasing_iff del: power_Suc)
qed (simp add: binary_digits.simps [of n])

lemma round_to_exact: "n < 2 ^ k \<Longrightarrow> round_to k n = n"
  using binary_digits_bound [of n k] by (simp add: round_to_def)

lemma round_to_near:
  assumes "0 \<le> n"
  shows "2 ^ k * round_to k n \<le> 2 ^ k * n + n" "2 ^ k * n \<le> 2 ^ k * round_to k n + n"
proof -
  define s where "s = binary_digits n - k"
  have "2 ^ k * round_to k n \<le> 2 ^ k * n + n \<and> 2 ^ k * n \<le> 2 ^ k * round_to k n + n"
  proof (cases "s = 0")
    case True
    then show ?thesis using assms by (simp add: round_to_def s_def [symmetric])
  next
    case False
    then have "binary_digits n = k + s" by (simp add: s_def)
    moreover have "0 < n" using False assms binary_digits_bound [of n k] by (cases "n = 0") (simp_all add: s_def)
    ultimately have b: "2 ^ k * 2 ^ s \<le> 2 * n" using binary_digits_le [of n] by (simp add: power_add)
    define t where "t = (2::int) ^ s"
    define q r where "q = n div t" and "r = n mod t"
    have n: "n = q * t + r" unfolding q_def r_def by (rule div_mult_mod_eq [symmetric])
    have r: "r < t" "0 \<le> r" by (simp_all add: r_def t_def)
    have e: "round_to k n = (if 2 * r < t \<or> (2 * r = t \<and> even q) then q else q + 1) * t"
      by (simp add: round_to_def Let_def s_def t_def q_def r_def)
    have "2 * round_to k n \<le> 2 * n + t \<and> 2 * n \<le> 2 * round_to k n + t"
      unfolding e using n r by (auto split: if_splits simp: distrib_right)
    then have "2 ^ k * (2 * round_to k n) \<le> 2 ^ k * (2 * n + t)" "2 ^ k * (2 * n) \<le> 2 ^ k * (2 * round_to k n + t)"
      by (auto intro!: mult_left_mono)
    then show ?thesis using b by (simp add: distrib_left t_def)
  qed
  then show "2 ^ k * round_to k n \<le> 2 ^ k * n + n" "2 ^ k * n \<le> 2 ^ k * round_to k n + n" by blast+
qed

lemma round_to_nonneg: "0 \<le> n \<Longrightarrow> 0 \<le> round_to k n"
  by (auto simp: round_to_def Let_def pos_imp_zdiv_nonneg_iff)

lemma float_bound_steps:
  obtains f p q :: int where "f = round_to 24 (int n)" "p = round_to 53 (f * 4508103226997866)"
    "q = round_to 53 (p + 13 * 2 ^ 52)" "0 \<le> f" "0 \<le> p" "0 \<le> q"
    "2 ^ 52 * int (float_bound n) \<le> q" "q < 2 ^ 52 * int (float_bound n) + 2 ^ 52"
proof -
  define f where "f = round_to 24 (int n)"
  define p where "p = round_to 53 (f * 4508103226997866)"
  define q where "q = round_to 53 (p + 13 * 2 ^ 52)"
  have nn: "0 \<le> f" "0 \<le> p" "0 \<le> q"
    unfolding q_def p_def f_def by (intro round_to_nonneg mult_nonneg_nonneg add_nonneg_nonneg; simp)+
  then have "int (float_bound n) = q div 2 ^ 52"
    by (simp add: float_bound_def p_def q_def f_def pos_imp_zdiv_nonneg_iff)
  then show thesis using that [OF f_def p_def q_def nn] by simp
qed

lemma float_bound_enough:
  assumes "n < 16777216"
  shows "1001 * n + 12000 \<le> 1000 * float_bound n"
proof -
  obtain f p q where s: "f = round_to 24 (int n)" "p = round_to 53 (f * 4508103226997866)"
    "q = round_to 53 (p + 13 * 2 ^ 52)" "0 \<le> f" "0 \<le> p" "q < 2 ^ 52 * int (float_bound n) + 2 ^ 52"
    by (rule float_bound_steps [of n])
  have f: "f = int n" using assms s(1) by (simp add: round_to_exact)
  have "2 ^ 53 * (f * 4508103226997866) \<le> 2 ^ 53 * p + f * 4508103226997866"
    "2 ^ 53 * p \<le> 2 ^ 53 * (f * 4508103226997866) + f * 4508103226997866"
    using round_to_near [of "f * 4508103226997866" 53] s(4) unfolding s(2) by simp_all
  moreover have "2 ^ 53 * (p + 13 * 2 ^ 52) \<le> 2 ^ 53 * q + (p + 13 * 2 ^ 52)"
    unfolding s(3) by (rule round_to_near) (simp add: s(5))
  ultimately show ?thesis using assms s(6) f by simp
qed

lemma float_bound_le:
  assumes "n < 1073741824"
  shows "float_bound n \<le> n + n div 2 + 64"
proof -
  obtain f p q where s: "f = round_to 24 (int n)" "p = round_to 53 (f * 4508103226997866)"
    "q = round_to 53 (p + 13 * 2 ^ 52)" "0 \<le> f" "0 \<le> p" "2 ^ 52 * int (float_bound n) \<le> q"
    by (rule float_bound_steps [of n])
  have "2 ^ 24 * f \<le> 2 ^ 24 * int n + int n" unfolding s(1) by (rule round_to_near) simp
  moreover have "2 ^ 53 * p \<le> 2 ^ 53 * (f * 4508103226997866) + f * 4508103226997866"
    unfolding s(2) by (rule round_to_near) (simp add: s(4))
  moreover have "2 ^ 53 * q \<le> 2 ^ 53 * (p + 13 * 2 ^ 52) + (p + 13 * 2 ^ 52)"
    unfolding s(3) by (rule round_to_near) (simp add: s(5))
  ultimately show ?thesis using assms s(6) by simp
qed

lemma round_to_eq:
  assumes "n < 2 ^ (k + s)" "2 ^ (k + s) \<le> 2 * n"
  shows "round_to k n = (if 2 * (n mod 2 ^ s) < 2 ^ s \<or> (2 * (n mod 2 ^ s) = 2 ^ s \<and> even (n div 2 ^ s))
      then n div 2 ^ s else n div 2 ^ s + 1) * 2 ^ s"
proof -
  have "binary_digits n \<le> k + s" by (rule binary_digits_bound [OF assms(1)])
  moreover have "(2::int) ^ (k + s) < 2 ^ Suc (binary_digits n)"
    using assms(2) binary_digits_less [of n] by simp
  then have "k + s \<le> binary_digits n" by (simp add: power_strict_increasing_iff del: power_Suc)
  ultimately have "binary_digits n - k = s" by simp
  then show ?thesis by (simp add: round_to_def Let_def)
qed

text \<open>One byte more than 16 MiB, and the bound is too small.\<close>

lemma float_bound_too_small: "1000 * float_bound 16777217 < 1001 * 16777217 + 12000"
proof -
  have "round_to 24 16777217 = 16777216" by (simp add: round_to_eq [where s = 1])
  moreover have "round_to 53 (16777216 * 4508103226997866) = 16777216 * 4508103226997866"
    by (simp add: round_to_eq [where s = 24])
  moreover have "round_to 53 (16777216 * 4508103226997866 + 13 * 2 ^ 52) = 16777216 * 4508103226997866 + 13 * 2 ^ 52"
    by (simp add: round_to_eq [where s = 24])
  ultimately show ?thesis by (simp add: float_bound_def)
qed

lemma float_bound_3: "float_bound 3 = 16"
proof -
  have "round_to 53 (3 * 4508103226997866) = 13524309680993598" by (simp add: round_to_eq [where s = 1])
  then show ?thesis by (simp add: float_bound_def round_to_exact round_to_eq [where s = 4])
qed

section \<open>Documented behaviour of the libraries\<close>

text \<open>
  \<open>compress\<close> does not run out of space in a buffer that is 0.1\% and 12 bytes larger than its input; what it makes is not
  empty, fits the buffer, and is turned back by \<open>uncompress\<close> in any buffer that is large enough.
\<close>

definition zlib_works :: "'e external \<Rightarrow> bool" where
  "zlib_works ext \<longleftrightarrow> (\<forall>d n. (1001 * length d + 12000 \<le> 1000 * n \<longrightarrow> ex_compress ext d n \<noteq> None)
     \<and> (\<forall>z. ex_compress ext d n = Some z \<longrightarrow> z \<noteq> [] \<and> length z \<le> n
          \<and> (\<forall>m. length d \<le> m \<longrightarrow> ex_uncompress ext z m = Some d)))"

definition ctr_works :: "'e external \<Rightarrow> bool" where
  "ctr_works ext \<longleftrightarrow> (\<forall>k iv d. length (ex_ctr ext k iv d) = length d
     \<and> ex_ctr ext k iv (ex_ctr ext k iv d) = d)"

definition prng_works :: "'e external \<Rightarrow> bool" where
  "prng_works ext \<longleftrightarrow> (\<forall>n e. length (fst (ex_yarrow_read ext n e)) = n)"

definition crypt_ready :: "'e peer \<Rightarrow> bool" where
  "crypt_ready s \<longleftrightarrow> (\<exists>c. g_crypto s = Some c \<and> ci_ivsize c \<le> 128)"

text \<open>The bytes that are sent for a buffer \<open>d\<close> that was compressed to \<open>z\<close>.\<close>

definition sealed :: "'e external \<Rightarrow> crypto_instance \<Rightarrow> byte list \<Rightarrow> byte list \<Rightarrow> byte list" where
  "sealed ext c iv z = iv @ ex_ctr ext (take (ci_ks c) (ci_hashkey c)) iv z"

lemma length_sealed: "ctr_works ext \<Longrightarrow> length (sealed ext c iv z) = length iv + length z"
  by (simp add: sealed_def ctr_works_def)

lemma on_new_set_buffer:
  assumes "length d < 2147483648"
  obtains ios where "on_new (ios_set_buffer (Some d) (of_nat (length d))) = Inr ios" "ios_holds d ios"
    "ios_read_ptr ios = 0"
proof -
  obtain ios where "ios_set_buffer (Some d) (of_nat (length d)) ios_new = Inr ((), ios)" "ios_holds d ios"
    using ios_set_buffer_holds [OF ios_ok_new assms] by blast
  moreover have "ios_read_ptr ios = 0" by (rule ios_set_buffer_read_ptr [OF calculation(1)])
  ultimately show thesis by (intro that [of ios]) (simp_all add: on_new_def)
qed

lemma ios_holds_size: "ios_holds d ios \<Longrightarrow> ios_buffer_size ios = of_nat (length d)"
  using ios_buffer_size_data [of ios] unat_eq_of_natD by (metis ios_holds_def)

lemma ios_holds_small: "ios_holds d ios \<Longrightarrow> length d < 4294967296"
  using ios_buffer_size_data [of ios] unat_u32_less [of "ios_buffer_size ios"] by (auto simp: ios_holds_def)

lemma ios_holds_dbt [simp]: "ios_holds d ios \<Longrightarrow> dbt ios = d"
  by (simp add: ios_holds_def)

lemma do_compress_run:
  assumes "zlib_works ext" "ios_holds d ios" "length d < 1073741824" "ex_compress ext d (float_bound (length d)) = Some z"
  obtains out where "do_compress ext ios = Inr out" "ios_holds z out" "ios_read_ptr out = 0" "z \<noteq> []"
    "length z \<le> length d + length d div 2 + 64" "\<forall>n. length d \<le> n \<longrightarrow> ex_uncompress ext z n = Some d"
proof -
  have z: "z \<noteq> []" "length z \<le> float_bound (length d)" "\<forall>n. length d \<le> n \<longrightarrow> ex_uncompress ext z n = Some d"
    using assms(1,4) unfolding zlib_works_def by blast+
  have l: "length z \<le> length d + length d div 2 + 64" using z(2) float_bound_le [OF assms(3)] by simp
  then have "length z < 2147483648" using assms(3) by simp
  then obtain out where out: "on_new (ios_set_buffer (Some z) (of_nat (length z))) = Inr out" "ios_holds z out"
    "ios_read_ptr out = 0" by (rule on_new_set_buffer)
  have "unat (ios_buffer_size ios) = length d"
    using assms(2) ios_buffer_size_data by (simp add: ios_holds_def)
  then show thesis using that [of out] z l out assms(2,4) by (simp add: do_compress_def)
qed

text \<open>The compression fails only for buffers of 16 MiB and more.\<close>

lemma do_compress_exits:
  assumes "zlib_works ext" "ios_holds d ios" "ex_compress ext d (float_bound (length d)) = None"
  shows "do_compress ext ios = Inl (Exit 1)" "16777216 \<le> length d"
proof -
  have "unat (ios_buffer_size ios) = length d"
    using assms(2) ios_buffer_size_data by (simp add: ios_holds_def)
  then show "do_compress ext ios = Inl (Exit 1)" using assms(2,3) by (simp add: do_compress_def)
  have "\<not> 1001 * length d + 12000 \<le> 1000 * float_bound (length d)"
    using assms(1,3) unfolding zlib_works_def by blast
  then show "16777216 \<le> length d" using float_bound_enough [of "length d"] by linarith
qed

lemma do_decompress_run:
  assumes "ios_holds z ios" "ex_uncompress ext z (unat orig_len) = Some d" "orig_len \<noteq> 0" "length d < 2147483648"
  obtains out where "do_decompress ext ios orig_len = Inr out" "ios_holds d out" "ios_read_ptr out = 0"
  using on_new_set_buffer [OF assms(4)] assms(1-3) that by (auto simp: do_decompress_def)

lemma c_string_length: "length (c_string bs) \<le> length bs"
  by (simp add: c_string_def length_takeWhile_le)

lemma length_strncpy [simp]: "length (strncpy p n) = max n (length (c_string (take n p)))"
  by (simp add: strncpy_def Let_def max_def)

lemma strncpy_append: "length iv = n \<Longrightarrow> strncpy (iv @ ct) n = strncpy iv n"
  by (simp add: strncpy_def)

lemma strncpy_whole: "0 \<notin> set iv \<Longrightarrow> length iv = n \<Longrightarrow> strncpy iv n = iv"
  by (simp add: strncpy_def c_string_id)

text \<open>Appending in two steps to a new buffer.\<close>

lemma ios_append_holds:
  assumes "ios_holds a ios" "ios_read_ptr ios = 0" "length a + length d < 2147483648"
  obtains ios' where "ios_append (Some d) (of_nat (length d)) ios = Inr ((), ios')" "ios_holds (a @ d) ios'"
    "ios_read_ptr ios' = 0"
proof -
  have ok: "ios_ok ios" "ios_data ios = a" using assms(1) by (simp_all add: ios_holds_def)
  have "unat (ios_len ios) = length a" using ok assms(2) by (simp add: ios_ok_def ios_data_def)
  then have "ios_room ios (length d)" using assms(3) by (simp add: ios_room_def)
  then obtain ios' where "ios_append (Some d) (of_nat (length d)) ios = Inr ((), ios')" "ios_ok ios'"
    "ios_data ios' = a @ d"
    using ios_append_spec [OF ok(1), of "length d" d] ok(2) by auto
  then show thesis
    using ios_append_read_ptr [OF _ assms(2)] by (intro that [of ios']) (simp_all add: ios_holds_def)
qed

lemma ios_new_holds [simp]: "ios_holds [] ios_new" "ios_read_ptr ios_new = 0"
  by (simp_all add: ios_holds_def) (simp add: ios_new_def)

lemma encrypt_run:
  assumes "prng_works ext" "ctr_works ext" "g_crypto s = Some c" "ci_ivsize c \<le> 128"
    "ios_holds z ios" "z \<noteq> []" "length z < 2147483000"
    "iv = fst (ex_yarrow_read ext (ci_ivsize c) (env s))"
  obtains e out where "encrypt ext ios s = Inr (Some out, s\<lparr>env := e\<rparr>)" "ios_holds (sealed ext c iv z) out"
    "ios_read_ptr out = 0" "length iv = ci_ivsize c"
proof -
  obtain e where y: "ex_yarrow_read ext (ci_ivsize c) (env s) = (iv, e)"
    using assms(8) by (metis prod.collapse)
  have iv: "length iv = ci_ivsize c" using assms(1,8) by (simp add: prng_works_def)
  let ?ct = "ex_ctr ext (take (ci_ks c) (ci_hashkey c)) iv z"
  have ct: "length ?ct = length z" using assms(2) by (simp add: ctr_works_def)
  obtain o1 where o1: "ios_append (Some iv) (of_nat (length iv)) ios_new = Inr ((), o1)" "ios_holds iv o1"
    "ios_read_ptr o1 = 0"
    using ios_append_holds [OF ios_new_holds, of iv] iv assms(4) by auto
  obtain o2 where o2: "ios_append (Some ?ct) (of_nat (length ?ct)) o1 = Inr ((), o2)" "ios_holds (iv @ ?ct) o2"
    "ios_read_ptr o2 = 0"
    by (rule ios_append_holds [OF o1(2,3), of ?ct]) (use iv ct assms(4,7) in simp_all)
  have buf: "ios_buffer ios = Some z"
    using assms(5,6) by (simp add: ios_holds_def ios_buffer_data)
  have "encrypt ext ios s = Inr (Some o2, s\<lparr>env := e\<rparr>)"
    using assms(3,5) y iv o1(1) o2(1) buf ct
    by (simp add: encrypt_def yarrow_read_def ios_holds_size)
  then show thesis using o2 iv by (intro that) (simp_all add: sealed_def)
qed

lemma decrypt_run:
  assumes "ctr_works ext" "g_crypto s = Some c" "0 < ci_ivsize c" "ios_holds (iv @ ct) ios"
    "length iv = ci_ivsize c" "length (iv @ ct) < 2147483648"
  obtains out where "decrypt ext ios s = Inr (out, s)" "ios_read_ptr out = 0"
    "ios_holds (ex_ctr ext (take (ci_ks c) (ci_hashkey c)) (strncpy iv (ci_ivsize c)) ct) out"
proof -
  let ?pt = "ex_ctr ext (take (ci_ks c) (ci_hashkey c)) (strncpy iv (ci_ivsize c)) ct"
  have pt: "length ?pt = length ct" using assms(1) by (simp add: ctr_works_def)
  have ne: "iv @ ct \<noteq> []" using assms(3,5) by auto
  have buf: "ios_buffer ios = Some (iv @ ct)"
    using assms(4) ne by (simp add: ios_holds_def ios_buffer_data)
  have sz: "ios_buffer_size ios - of_nat (ci_ivsize c) = of_nat (length ?pt)"
    using assms(5) pt by (simp add: ios_holds_size [OF assms(4)])
  obtain out where out: "ios_append (Some ?pt) (of_nat (length ?pt)) ios_new = Inr ((), out)" "ios_holds ([] @ ?pt) out"
    "ios_read_ptr out = 0"
    by (rule ios_append_holds [OF ios_new_holds, of ?pt]) (use pt assms(6) in simp_all)
  have "decrypt ext ios s = Inr (out, s)"
    using assms(2,4,5) buf sz out(1) by (simp add: decrypt_def strncpy_append Let_def)
  then show thesis using out by (intro that) simp_all
qed

section \<open>Packing and unpacking\<close>

text \<open>What both directions of a transfer do with a buffer: compress, encrypt; decrypt, decompress.\<close>

definition pack :: "'e external \<Rightarrow> iosbuf \<Rightarrow> ('e peer, iosbuf option) prog" where
  "pack ext ios = andthen (lifted (do_compress ext ios)) (encrypt ext)"

definition unpack :: "'e external \<Rightarrow> iosbuf \<Rightarrow> u32 \<Rightarrow> ('e peer, iosbuf) prog" where
  "unpack ext ios len = andthen (decrypt ext ios) (\<lambda>ios1. lifted (do_decompress ext ios1 len))"

definition crypt_works :: "'e external \<Rightarrow> bool" where
  "crypt_works ext \<longleftrightarrow> zlib_works ext \<and> ctr_works ext \<and> prng_works ext"

lemma pack_run:
  assumes "crypt_works ext" "g_crypto s = Some c" "ci_ivsize c \<le> 128" "ios_holds d ios" "length d < 1073741824"
    "iv = fst (ex_yarrow_read ext (ci_ivsize c) (env s))" "ex_compress ext d (float_bound (length d)) = Some z"
  obtains e out where "pack ext ios s = Inr (Some out, s\<lparr>env := e\<rparr>)" "ios_holds (sealed ext c iv z) out"
    "ios_read_ptr out = 0" "length iv = ci_ivsize c" "z \<noteq> []" "length z \<le> length d + length d div 2 + 64"
    "\<forall>n. length d \<le> n \<longrightarrow> ex_uncompress ext z n = Some d"
proof -
  have w: "zlib_works ext" "ctr_works ext" "prng_works ext" using assms(1) by (simp_all add: crypt_works_def)
  obtain i where z: "do_compress ext ios = Inr i" "ios_holds z i" "ios_read_ptr i = 0" "z \<noteq> []"
    "length z \<le> length d + length d div 2 + 64" "\<forall>n. length d \<le> n \<longrightarrow> ex_uncompress ext z n = Some d"
    by (rule do_compress_run [OF w(1) assms(4,5,7)])
  have "length z < 2147483000" using z(5) assms(5) by simp
  then obtain e out where "encrypt ext i s = Inr (Some out, s\<lparr>env := e\<rparr>)" "ios_holds (sealed ext c iv z) out"
    "ios_read_ptr out = 0" "length iv = ci_ivsize c"
    by (rule encrypt_run [OF w(3,2) assms(2,3) z(2,4) _ assms(6)])
  then show thesis using z by (intro that [of out e]) (simp_all add: pack_def)
qed

lemma unpack_run:
  assumes "crypt_works ext" "g_crypto s = Some c" "0 < ci_ivsize c" "ci_ivsize c \<le> 128"
    "ios_holds (sealed ext c iv z) ios" "length iv = ci_ivsize c" "strncpy iv (ci_ivsize c) = iv"
    "ex_uncompress ext z (unat len) = Some d" "len \<noteq> 0" "length d < 2147483648" "length z < 2147483000"
  obtains out where "unpack ext ios len s = Inr (out, s)" "ios_holds d out" "ios_read_ptr out = 0"
proof -
  have w: "ctr_works ext" using assms(1) by (simp add: crypt_works_def)
  let ?ct = "ex_ctr ext (take (ci_ks c) (ci_hashkey c)) iv z"
  have h: "ios_holds (iv @ ?ct) ios" using assms(5) by (simp add: sealed_def)
  have l: "length (iv @ ?ct) < 2147483648"
    using w assms(4,6,11) by (simp add: ctr_works_def)
  obtain i where i: "decrypt ext ios s = Inr (i, s)"
    "ios_holds (ex_ctr ext (take (ci_ks c) (ci_hashkey c)) (strncpy iv (ci_ivsize c)) ?ct) i"
    by (rule decrypt_run [OF w assms(2,3) h assms(6) l])
  have "ios_holds z i" using i(2) w assms(7) by (simp add: ctr_works_def)
  then obtain out where "do_decompress ext i len = Inr out" "ios_holds d out" "ios_read_ptr out = 0"
    by (rule do_decompress_run [OF _ assms(8,9,10)])
  then show thesis using i by (intro that [of out]) (simp_all add: unpack_def)
qed

lemma strncpy_nul:
  assumes "length iv = n" "i < j" "j < n" "iv ! i = 0" "iv ! j \<noteq> 0"
  shows "strncpy iv n \<noteq> iv"
proof
  assume eq: "strncpy iv n = iv"
  let ?c = "c_string iv"
  have s: "strncpy iv n = ?c @ replicate (n - length ?c) 0" using assms(1) by (simp add: strncpy_def Let_def)
  have "length ?c \<le> i"
  proof (rule ccontr)
    assume "\<not> length ?c \<le> i"
    then have "?c ! i \<noteq> 0" "?c ! i = iv ! i"
      unfolding c_string_def using nth_mem [of i "takeWhile (\<lambda>b. b \<noteq> 0) iv"]
      by (auto dest: set_takeWhileD simp: takeWhile_nth)
    then show False using assms(4) by simp
  qed
  then have "strncpy iv n ! j = 0" using s assms(2,3) by (simp add: nth_append)
  then show False using eq assms(5) by simp
qed

lemma packed_is_restored:
  assumes "crypt_works ext" and "g_crypto s = Some c" and "0 < ci_ivsize c" and "ci_ivsize c \<le> 128"
    and "ios_holds d ios" and "d \<noteq> []" and "length d < 1073741824"
    and "0 \<notin> set (fst (ex_yarrow_read ext (ci_ivsize c) (env s)))"
    and "ex_compress ext d (float_bound (length d)) = Some z"
  shows "\<exists>out s' ios'. pack ext ios s = Inr (Some out, s')
    \<and> unpack ext out (of_nat (length d)) s' = Inr (ios', s') \<and> ios_holds d ios'"
proof -
  let ?iv = "fst (ex_yarrow_read ext (ci_ivsize c) (env s))"
  obtain e out where z: "pack ext ios s = Inr (Some out, s\<lparr>env := e\<rparr>)" "ios_holds (sealed ext c ?iv z) out"
    "length ?iv = ci_ivsize c" "length z \<le> length d + length d div 2 + 64"
    "\<forall>n. length d \<le> n \<longrightarrow> ex_uncompress ext z n = Some d"
    by (rule pack_run [OF assms(1,2,4,5,7) refl assms(9)])
  let ?len = "of_nat (length d) :: u32"
  have n: "unat ?len = length d" using assms(7) by (simp add: unat_of_nat_u32)
  then have nz: "?len \<noteq> 0" using assms(6) by (metis length_0_conv unat_0)
  have u: "ex_uncompress ext z (unat ?len) = Some d" using z(5) n by simp
  have g: "g_crypto (s\<lparr>env := e\<rparr>) = Some c" using assms(2) by simp
  have l: "length d < 2147483648" "length z < 2147483000" using assms(7) z(4) by simp_all
  obtain r where "unpack ext out ?len (s\<lparr>env := e\<rparr>) = Inr (r, s\<lparr>env := e\<rparr>)" "ios_holds d r"
    by (rule unpack_run [OF assms(1) g assms(3,4) z(2,3) strncpy_whole [OF assms(8) z(3)] u nz l])
  then show ?thesis using z(1) by blast
qed

lemma small_compresses:
  "crypt_works ext \<Longrightarrow> length d < 16777216 \<Longrightarrow> \<exists>z. ex_compress ext d (float_bound (length d)) = Some z"
  using float_bound_enough [of "length d"] unfolding crypt_works_def zlib_works_def by blast

section \<open>Properties\<close>


definition idle_peer :: "(byte list \<Rightarrow> byte list \<Rightarrow> pointer) peer" where
  "idle_peer = \<lparr>int_option_array = (\<lambda>_. 0), char_option_array = (\<lambda>_. None), home_variable = None,
     file_sys = \<lparr>fs_nodes = (\<lambda>_. None), fs_refuses = (\<lambda>_. False)\<rparr>, archive_dir_cache = None,
     database_ptrs = (\<lambda>db. Some (database_names db)), env = (\<lambda>_ _. None),
     ios_read_buf = ios_new, ios_write_buf = ios_new, chan_out = Some False, ignore_input = False,
     ignore_output = False, main_loop_running = True, work_list = [], more_work = 0,
     cover_block_length = 0, checksum_hash = hash_initial,
     g_crypto = Some \<lparr>ci_ivsize = 16, ci_ks = 32, ci_hashkey = replicate 32 9\<rparr>\<rparr>"

lemma map_db_crypt: "crypt_works map_db"
  by (auto simp: crypt_works_def zlib_works_def ctr_works_def prng_works_def map_db_def comp_def)


text \<open>A zero byte in the initialisation vector destroys the data: \<open>decrypt\<close> copies the vector with
  \<open>strncpy\<close>, which stops at the zero byte, and so decrypts what \<open>encrypt\<close> produced under a vector
  that is a different one.\<close>

theorem decrypt_wrong_vector:
  assumes "prng_works ext" and "ctr_works ext" and "g_crypto s = Some c" and "ci_ivsize c \<le> 128"
    and "ios_holds z ios" and "z \<noteq> []" and "length z < 2147483000"
    and "iv = fst (ex_yarrow_read ext (ci_ivsize c) (env s))"
    and "i < j" and "j < ci_ivsize c" and "iv ! i = 0" and "iv ! j \<noteq> 0"
  shows "\<exists>out s' ios' iv'. encrypt ext ios s = Inr (Some out, s') \<and> decrypt ext out s' = Inr (ios', s')
    \<and> ios_holds (ex_ctr ext (take (ci_ks c) (ci_hashkey c)) iv'
         (ex_ctr ext (take (ci_ks c) (ci_hashkey c)) iv z)) ios'
    \<and> length iv' = length iv \<and> iv' \<noteq> iv"
proof -
  obtain e out where e: "encrypt ext ios s = Inr (Some out, s\<lparr>env := e\<rparr>)" "ios_holds (sealed ext c iv z) out"
    "length iv = ci_ivsize c"
    by (rule encrypt_run [OF assms(1-8)])
  let ?k = "take (ci_ks c) (ci_hashkey c)"
  have h: "ios_holds (iv @ ex_ctr ext ?k iv z) out" using e(2) by (simp add: sealed_def)
  have g: "g_crypto (s\<lparr>env := e\<rparr>) = Some c" using assms(3) by simp
  have p: "0 < ci_ivsize c" using assms(10) by simp
  have l: "length (iv @ ex_ctr ext ?k iv z) < 2147483648"
    using assms(2,4,7) e(3) by (simp add: ctr_works_def)
  obtain r where r: "decrypt ext out (s\<lparr>env := e\<rparr>) = Inr (r, s\<lparr>env := e\<rparr>)"
    "ios_holds (ex_ctr ext ?k (strncpy iv (ci_ivsize c)) (ex_ctr ext ?k iv z)) r"
    by (rule decrypt_run [OF assms(2) g p h e(3) l])
  have "strncpy iv (ci_ivsize c) \<noteq> iv"
    by (rule strncpy_nul [OF e(3) assms(9,10,11,12)])
  moreover have "length (strncpy iv (ci_ivsize c)) = length iv"
    using e(3) c_string_length [of iv] by simp
  ultimately show ?thesis using e(1) r by blast
qed

definition nul_rng :: "(byte list \<Rightarrow> byte list \<Rightarrow> pointer) external" where
  "nul_rng = map_db\<lparr>ex_yarrow_read := (\<lambda>n e. (take n (0 # replicate n 1), e))\<rparr>"

theorem decrypt_wrong_vector_witness:
  "\<exists>out s'. encrypt nul_rng (ios_of [1, 2]) idle_peer = Inr (Some out, s')"
proof -
  have "prng_works nul_rng" "ctr_works nul_rng" "ios_holds [1, 2] (ios_of [1, 2])"
    "g_crypto idle_peer = Some \<lparr>ci_ivsize = 16, ci_ks = 32, ci_hashkey = replicate 32 9\<rparr>"
    by (auto simp: prng_works_def ctr_works_def nul_rng_def map_db_def ios_holds_def idle_peer_def comp_def min_def)
  from decrypt_wrong_vector [OF this(1,2,4) _ this(3), of "fst (ex_yarrow_read nul_rng 16 (env idle_peer))" 0 1]
  show ?thesis by (auto simp: nul_rng_def)
qed

end
