(* ===== verification/Messages.thy ===== *)
theory Messages
  imports Crypt "HOL-Library.Sublist"
begin

text \<open>
  The wire protocol of \<open>protocol.c\<close>: the messages (\<open>protocol.h\<close>), how \<open>send_*\<close> writes each of them
  and how \<open>receive_*\<close> parses it, and the frames they travel in.  What a receiver does with a
  parsed message is in the theories \<open>Server\<close> and \<open>Client\<close>.  Printing is not modelled.

  What is shown: every message but one is parsed as it was sent, and the packets that a receiver
  takes from a stream of frames are the packets that were sent.
\<close>

section \<open>Messages\<close>

datatype proto_command = cmd_Hello | cmd_HelloAck | cmd_Bye | cmd_PutBlock | cmd_PutBlockAck
  | cmd_GetBlock | cmd_GetBlockAck

primrec command_byte :: "proto_command \<Rightarrow> byte" where
  "command_byte cmd_Hello = 0"
| "command_byte cmd_HelloAck = 1"
| "command_byte cmd_Bye = 2"
| "command_byte cmd_PutBlock = 3"
| "command_byte cmd_PutBlockAck = 4"
| "command_byte cmd_GetBlock = 5"
| "command_byte cmd_GetBlockAck = 6"

abbreviation (input) phe_OK :: u16 where "phe_OK \<equiv> 0"
abbreviation (input) phe_Not_now :: u16 where "phe_Not_now \<equiv> 1"
abbreviation (input) phe_Disk_full :: u16 where "phe_Disk_full \<equiv> 2"
abbreviation (input) phe_Bad_pass :: u16 where "phe_Bad_pass \<equiv> 3"
abbreviation (input) phe_Unknown :: u16 where "phe_Unknown \<equiv> 4"
abbreviation (input) pbe_OK :: u16 where "pbe_OK \<equiv> 0"

record proto_hello =
  ph_version :: byte
  ph_archive_id :: u32
  ph_archive_pass :: u32
  ph_create_archive :: byte
  ph_message :: pointer

record proto_hello_ack =
  pha_version :: byte
  pha_error :: u16
  pha_archive_id :: u32
  pha_message :: pointer

record proto_bye =
  bye_version :: byte
  bye_error :: u16

record proto_put_block =
  pb_file_id :: u32
  pb_block_id :: u32
  pb_ios :: "iosbuf option"

record proto_put_block_ack =
  pba_file_id :: u32
  pba_block_id :: u32
  pba_archive_id :: u32

record proto_get_block =
  gb_file_id :: u32
  gb_block_id :: u32
  gb_archive_id :: u32

record proto_get_block_ack =
  gba_file_id :: u32
  gba_block_id :: u32
  gba_ios :: "iosbuf option"

section \<open>Writing\<close>

text \<open>A string argument must not be NULL.\<close>

definition append_string_ptr :: "pointer \<Rightarrow> (iosbuf, unit) prog" where
  "append_string_ptr p = (case p of None \<Rightarrow> fail Abort | Some str \<Rightarrow> ios_append_string str)"

definition put_hello :: "proto_hello \<Rightarrow> (iosbuf, unit) prog" where
  "put_hello h = andthen (ios_append (Some [command_byte cmd_Hello]) 1) (\<lambda>_.
     andthen (ios_append (Some [ph_version h]) 1) (\<lambda>_.
     andthen (ios_append_int32 (ph_archive_id h)) (\<lambda>_.
     andthen (ios_append_int32 (ph_archive_pass h)) (\<lambda>_.
     andthen (ios_append (Some [ph_create_archive h]) 1) (\<lambda>_.
     append_string_ptr (ph_message h))))))"

definition put_hello_ack :: "proto_hello_ack \<Rightarrow> (iosbuf, unit) prog" where
  "put_hello_ack ha = andthen (ios_append (Some [command_byte cmd_HelloAck]) 1) (\<lambda>_.
     andthen (ios_append (Some [pha_version ha]) 1) (\<lambda>_.
     andthen (ios_append_int16 (pha_error ha)) (\<lambda>_.
     andthen (ios_append_int32 (pha_archive_id ha)) (\<lambda>_.
     append_string_ptr (pha_message ha)))))"

definition put_bye :: "proto_bye \<Rightarrow> (iosbuf, unit) prog" where
  "put_bye b = andthen (ios_append (Some [command_byte cmd_Bye]) 1) (\<lambda>_.
     andthen (ios_append (Some [bye_version b]) 1) (\<lambda>_. ios_append_int16 (bye_error b)))"

text \<open>The data of a block message: its size and its bytes.\<close>

definition put_payload :: "iosbuf option \<Rightarrow> (iosbuf, unit) prog" where
  "put_payload p = (case p of None \<Rightarrow> fail Abort
     | Some ios \<Rightarrow> andthen (ios_append_int32 (ios_buffer_size ios)) (\<lambda>_. ios_append_ios ios))"

definition put_put_block :: "proto_put_block \<Rightarrow> (iosbuf, unit) prog" where
  "put_put_block pb = andthen (ios_append (Some [command_byte cmd_PutBlock]) 1) (\<lambda>_.
     andthen (ios_append_int32 (pb_file_id pb)) (\<lambda>_.
     andthen (ios_append_int32 (pb_block_id pb)) (\<lambda>_. put_payload (pb_ios pb))))"

definition put_put_ack :: "proto_put_block_ack \<Rightarrow> (iosbuf, unit) prog" where
  "put_put_ack pba = andthen (ios_append (Some [command_byte cmd_PutBlockAck]) 1) (\<lambda>_.
     andthen (ios_append_int32 (pba_file_id pba)) (\<lambda>_.
     andthen (ios_append_int32 (pba_block_id pba)) (\<lambda>_. ios_append_int32 (pba_archive_id pba))))"

definition put_get_block :: "proto_get_block \<Rightarrow> (iosbuf, unit) prog" where
  "put_get_block pg = andthen (ios_append (Some [command_byte cmd_GetBlock]) 1) (\<lambda>_.
     andthen (ios_append_int32 (gb_file_id pg)) (\<lambda>_.
     andthen (ios_append_int32 (gb_block_id pg)) (\<lambda>_. ios_append_int32 (gb_archive_id pg))))"

definition put_get_ack :: "proto_get_block_ack \<Rightarrow> (iosbuf, unit) prog" where
  "put_get_ack pga = andthen (ios_append (Some [command_byte cmd_GetBlockAck]) 1) (\<lambda>_.
     andthen (ios_append_int32 (gba_file_id pga)) (\<lambda>_.
     andthen (ios_append_int32 (gba_block_id pga)) (\<lambda>_. put_payload (gba_ios pga))))"

text \<open>Writing a message to a new buffer and queueing the buffer.\<close>

definition send_message :: "(iosbuf, unit) prog \<Rightarrow> ('e peer, unit) prog" where
  "send_message m = andthen (lifted (on_new m)) io_send_ios"

definition send_hello :: "proto_hello \<Rightarrow> ('e peer, unit) prog" where
  "send_hello h = send_message (put_hello h)"

definition send_hello_ack :: "proto_hello_ack \<Rightarrow> ('e peer, unit) prog" where
  "send_hello_ack ha = send_message (put_hello_ack ha)"

text \<open>After a goodbye nothing more is read or sent.\<close>

definition send_bye :: "proto_bye \<Rightarrow> ('e peer, unit) prog" where
  "send_bye b = andthen (lifted (on_new (put_bye b))) (\<lambda>ios.
     andthen io_no_more_input (\<lambda>_. andthen (io_send_ios ios) (\<lambda>_. io_no_more_output)))"

definition send_put_block :: "proto_put_block \<Rightarrow> ('e peer, unit) prog" where
  "send_put_block pb = send_message (put_put_block pb)"

definition send_put_ack :: "proto_put_block_ack \<Rightarrow> ('e peer, unit) prog" where
  "send_put_ack pba = send_message (put_put_ack pba)"

definition send_get_block :: "proto_get_block \<Rightarrow> ('e peer, unit) prog" where
  "send_get_block pg = andthen (require (gb_file_id pg \<noteq> 0)) (\<lambda>_.
     andthen (require (gb_archive_id pg \<noteq> 0)) (\<lambda>_. send_message (put_get_block pg)))"

definition send_get_ack :: "proto_get_block_ack \<Rightarrow> ('e peer, unit) prog" where
  "send_get_ack pga = send_message (put_get_ack pga)"

section \<open>Parsing\<close>

text \<open>\<open>buf = ios_read(ios, 1); g_assert(buf[0] == cmd)\<close>\<close>

definition expect_command :: "proto_command \<Rightarrow> (iosbuf, unit) prog" where
  "expect_command cmd = andthen ios_read_byte (\<lambda>b. require (b = command_byte cmd))"

definition get_hello :: "(iosbuf, proto_hello) prog" where
  "get_hello = andthen (expect_command cmd_Hello) (\<lambda>_.
     andthen ios_read_byte (\<lambda>version.
     andthen ios_read_int32 (\<lambda>archive_id.
     andthen ios_read_int32 (\<lambda>archive_pass.
     andthen ios_read_byte (\<lambda>create.
     andthen ios_read_str (\<lambda>message.
     ret \<lparr>ph_version = version, ph_archive_id = archive_id, ph_archive_pass = archive_pass,
          ph_create_archive = create, ph_message = message\<rparr>))))))"

text \<open>
  \<open>receive_hello_ack\<close> does not read the archive identifier that \<open>send_hello_ack\<close> writes, and the
  field of its local variable keeps what the stack held (\<open>garbage\<close>).
\<close>

definition get_hello_ack :: "u32 \<Rightarrow> (iosbuf, proto_hello_ack) prog" where
  "get_hello_ack garbage = andthen (expect_command cmd_HelloAck) (\<lambda>_.
     andthen ios_read_byte (\<lambda>version.
     andthen ios_read_int16 (\<lambda>error.
     andthen ios_read_str (\<lambda>message.
     ret \<lparr>pha_version = version, pha_error = error, pha_archive_id = garbage, pha_message = message\<rparr>))))"

definition get_bye :: "(iosbuf, proto_bye) prog" where
  "get_bye = andthen (expect_command cmd_Bye) (\<lambda>_. andthen ios_read_byte (\<lambda>version.
     andthen ios_read_int16 (\<lambda>error. ret \<lparr>bye_version = version, bye_error = error\<rparr>)))"

text \<open>\<open>ios_set_buffer(p, ios_read(ios, length), length)\<close>: a NULL pointer stops at an assertion.\<close>

definition get_payload :: "(iosbuf, iosbuf) prog" where
  "get_payload = andthen ios_read_int32 (\<lambda>len. andthen (ios_read len) (\<lambda>p ios.
     rbind (on_new (ios_set_buffer p len)) (\<lambda>data. Inr (data, ios))))"

definition get_put_block :: "(iosbuf, proto_put_block) prog" where
  "get_put_block = andthen (expect_command cmd_PutBlock) (\<lambda>_. andthen ios_read_int32 (\<lambda>file_id.
     andthen ios_read_int32 (\<lambda>block_id. andthen get_payload (\<lambda>data.
     ret \<lparr>pb_file_id = file_id, pb_block_id = block_id, pb_ios = Some data\<rparr>))))"

text \<open>
  The assertion of \<open>receive_put_ack\<close> is an assignment, \<open>g_assert(( buf[0] = cmd_PutBlockAck ))\<close>,
  which holds whatever the byte is.
\<close>

definition get_put_ack :: "(iosbuf, proto_put_block_ack) prog" where
  "get_put_ack = andthen ios_read_byte (\<lambda>_. andthen ios_read_int32 (\<lambda>file_id.
     andthen ios_read_int32 (\<lambda>block_id. andthen ios_read_int32 (\<lambda>archive_id.
     ret \<lparr>pba_file_id = file_id, pba_block_id = block_id, pba_archive_id = archive_id\<rparr>))))"

definition get_get_block :: "(iosbuf, proto_get_block) prog" where
  "get_get_block = andthen (expect_command cmd_GetBlock) (\<lambda>_. andthen ios_read_int32 (\<lambda>file_id.
     andthen ios_read_int32 (\<lambda>block_id. andthen ios_read_int32 (\<lambda>archive_id.
     ret \<lparr>gb_file_id = file_id, gb_block_id = block_id, gb_archive_id = archive_id\<rparr>))))"

definition get_get_ack :: "(iosbuf, proto_get_block_ack) prog" where
  "get_get_ack = andthen (expect_command cmd_GetBlockAck) (\<lambda>_. andthen ios_read_int32 (\<lambda>file_id.
     andthen ios_read_int32 (\<lambda>block_id. andthen get_payload (\<lambda>data.
     ret \<lparr>gba_file_id = file_id, gba_block_id = block_id, gba_ios = Some data\<rparr>))))"

section \<open>Frames\<close>

text \<open>
  The first half of \<open>read_and_dispatch_one_command\<close>: \<open>None\<close> when the buffer does not hold a
  whole packet, else the packet, which is taken off the buffer.  \<open>packet_len\<close> is an \<open>int\<close>, so a
  length of \<open>2\<^sup>3\<^sup>1\<close> or more stops at the assertion of \<open>ios_append\<close>.
\<close>

definition next_packet :: "(iosbuf, iosbuf option) prog" where
  "next_packet ios = (if ios_buffer_size ios < 5 then Inr (None, ios)
     else rbind (ios_int32_at ios 0) (\<lambda>len.
       if len > ios_buffer_size ios - 4 then Inr (None, ios)
       else andthen ios_read_int32 (\<lambda>packet_len.
            andthen (require (packet_len \<noteq> 0)) (\<lambda>_.
            andthen (ios_read packet_len) (\<lambda>p ios.
            rbind (on_new (ios_set_buffer p packet_len)) (\<lambda>packet. Inr (Some packet, ios))))) ios))"

text \<open>\<open>cmd = (int)(*(char *)ios_at(packet, 0))\<close>\<close>

definition packet_command :: "iosbuf \<Rightarrow> byte result" where
  "packet_command packet = (case ios_at packet 0 of Some (b # _) \<Rightarrow> Inr b | _ \<Rightarrow> Inl Segv)"

section \<open>Messages are parsed as they were sent\<close>

lemma expect_command_reads [ios_specs]: "reads (expect_command cmd) [command_byte cmd] ()"
  unfolding expect_command_def
  using reads_andthen [OF reads_byte, of "\<lambda>b. require (b = command_byte cmd)" "command_byte cmd" "[]" "()"]
  by (simp add: reads_def require_def)

definition string_ok :: "byte list \<Rightarrow> bool" where
  "string_ok m \<longleftrightarrow> m \<noteq> [] \<and> 0 \<notin> set m \<and> length m < 2147480000"

definition hello_bytes :: "proto_hello \<Rightarrow> byte list" where
  "hello_bytes h = [command_byte cmd_Hello] @ [ph_version h] @ be32 (ph_archive_id h) @ be32 (ph_archive_pass h)
     @ [ph_create_archive h] @ be32 (of_nat (length (the (ph_message h)))) @ the (ph_message h)"

definition hello_ok :: "proto_hello \<Rightarrow> bool" where
  "hello_ok h \<longleftrightarrow> (\<exists>m. ph_message h = Some m \<and> string_ok m)"

interpretation hello_wire: wire_format put_hello get_hello hello_bytes hello_ok
proof unfold_locales
  fix h assume "hello_ok h"
  then obtain m where m: "ph_message h = Some m" "string_ok m" by (auto simp: hello_ok_def)
  have s: "reads ios_read_str (be32 (of_nat (length m)) @ m) (Some m)"
    using m(2) by (intro reads_str) (simp_all add: string_ok_def)
  show "writes (put_hello h) (hello_bytes h)"
    unfolding put_hello_def hello_bytes_def m(1) append_string_ptr_def option.case option.sel
    by (intro ios_specs)
  have "reads get_hello ([command_byte cmd_Hello] @ [ph_version h] @ be32 (ph_archive_id h)
      @ be32 (ph_archive_pass h) @ [ph_create_archive h] @ (be32 (of_nat (length m)) @ m) @ []) h"
    unfolding get_hello_def
    by (rule reads_andthen [OF expect_command_reads] reads_andthen [OF reads_byte]
          reads_andthen [OF reads_int32] reads_andthen [OF s])+
       (simp add: reads_def m(1) flip: m(1))
  then show "reads get_hello (hello_bytes h) h" by (simp add: hello_bytes_def m(1))
qed

interpretation bye_wire: wire_format put_bye get_bye
  "\<lambda>b. [command_byte cmd_Bye] @ [bye_version b] @ be16 (bye_error b)" "\<lambda>_. True"
proof unfold_locales
  fix b :: proto_bye
  show "writes (put_bye b) ([command_byte cmd_Bye] @ [bye_version b] @ be16 (bye_error b))"
    unfolding put_bye_def by (intro ios_specs)
  have "reads get_bye ([command_byte cmd_Bye] @ [bye_version b] @ be16 (bye_error b) @ []) b"
    unfolding get_bye_def
    by (rule reads_andthen [OF expect_command_reads] reads_andthen [OF reads_byte]
          reads_andthen [OF reads_int16])+ (simp add: reads_def)
  then show "reads get_bye ([command_byte cmd_Bye] @ [bye_version b] @ be16 (bye_error b)) b" by simp
qed

interpretation put_ack_wire: wire_format put_put_ack get_put_ack
  "\<lambda>a. [command_byte cmd_PutBlockAck] @ be32 (pba_file_id a) @ be32 (pba_block_id a) @ be32 (pba_archive_id a)"
  "\<lambda>_. True"
proof unfold_locales
  fix a :: proto_put_block_ack
  show "writes (put_put_ack a) ([command_byte cmd_PutBlockAck] @ be32 (pba_file_id a)
      @ be32 (pba_block_id a) @ be32 (pba_archive_id a))"
    unfolding put_put_ack_def by (intro ios_specs)
  have "reads get_put_ack ([command_byte cmd_PutBlockAck] @ be32 (pba_file_id a)
      @ be32 (pba_block_id a) @ be32 (pba_archive_id a) @ []) a"
    unfolding get_put_ack_def
    by (rule reads_andthen [OF reads_byte] reads_andthen [OF reads_int32])+ (simp add: reads_def)
  then show "reads get_put_ack ([command_byte cmd_PutBlockAck] @ be32 (pba_file_id a)
      @ be32 (pba_block_id a) @ be32 (pba_archive_id a)) a" by simp
qed

interpretation get_block_wire: wire_format put_get_block get_get_block
  "\<lambda>g. [command_byte cmd_GetBlock] @ be32 (gb_file_id g) @ be32 (gb_block_id g) @ be32 (gb_archive_id g)"
  "\<lambda>_. True"
proof unfold_locales
  fix g :: proto_get_block
  show "writes (put_get_block g) ([command_byte cmd_GetBlock] @ be32 (gb_file_id g)
      @ be32 (gb_block_id g) @ be32 (gb_archive_id g))"
    unfolding put_get_block_def by (intro ios_specs)
  have "reads get_get_block ([command_byte cmd_GetBlock] @ be32 (gb_file_id g)
      @ be32 (gb_block_id g) @ be32 (gb_archive_id g) @ []) g"
    unfolding get_get_block_def
    by (rule reads_andthen [OF expect_command_reads] reads_andthen [OF reads_int32])+ (simp add: reads_def)
  then show "reads get_get_block ([command_byte cmd_GetBlock] @ be32 (gb_file_id g)
      @ be32 (gb_block_id g) @ be32 (gb_archive_id g)) g" by simp
qed

section \<open>Payloads\<close>

text \<open>The buffer that a receiver makes of some bytes.\<close>

definition buffer_of :: "byte list \<Rightarrow> iosbuf" where
  "buffer_of d = projr (on_new (ios_set_buffer (Some d) (of_nat (length d))))"

lemma buffer_of_run:
  assumes "length d < 2147483648"
  shows "on_new (ios_set_buffer (Some d) (of_nat (length d))) = Inr (buffer_of d)"
    and "ios_holds d (buffer_of d)" and "ios_read_ptr (buffer_of d) = 0"
proof -
  obtain ios where "on_new (ios_set_buffer (Some d) (of_nat (length d))) = Inr ios" "ios_holds d ios"
    "ios_read_ptr ios = 0" by (rule on_new_set_buffer [OF assms])
  then show "on_new (ios_set_buffer (Some d) (of_nat (length d))) = Inr (buffer_of d)"
    "ios_holds d (buffer_of d)" "ios_read_ptr (buffer_of d) = 0" by (simp_all add: buffer_of_def)
qed

lemma ios_set_buffer_take:
  assumes "length d < 2147483648"
  shows "ios_set_buffer (Some (d @ r)) (of_nat (length d)) ios = ios_set_buffer (Some d) (of_nat (length d)) ios"
proof -
  have "unat (of_nat (length d) :: u32) = length d" using assms by (simp add: unat_of_nat_u32)
  then show ?thesis
    by (simp add: ios_set_buffer_def ios_append_def andthen_def split: sum.split option.split)
qed

lemma writes_payload:
  assumes "ios_holds d ios" "ios_read_ptr ios = 0" "length d < 2147483648"
  shows "writes (put_payload (Some ios)) (be32 (of_nat (length d)) @ d)"
  unfolding put_payload_def option.case ios_holds_size [OF assms(1)]
  by (intro writes_andthen writes_int32 ios_of_append_all [OF assms])

lemma reads_payload:
  assumes "length d < 2147483648"
  shows "reads get_payload (be32 (of_nat (length d)) @ d) (buffer_of d)"
proof -
  let ?n = "of_nat (length d) :: u32"
  have n: "unat ?n = length d" using assms by (simp add: unat_of_nat_u32)
  have "reads (\<lambda>i. andthen (ios_read ?n) (\<lambda>p ios.
     rbind (on_new (ios_set_buffer p ?n)) (\<lambda>data. Inr (data, ios))) i) d (buffer_of d)"
    unfolding reads_def
  proof (intro allI impI, elim conjE)
    fix i r assume a: "ios_ok i" "ios_data i = d @ r"
    obtain i' where i': "ios_read ?n i = Inr (Some (d @ r), i')" "ios_ok i'" "ios_data i' = r"
      using ios_read_spec [OF a n] by blast
    have "on_new (ios_set_buffer (Some (d @ r)) ?n) = Inr (buffer_of d)"
      using buffer_of_run(1) [OF assms] ios_set_buffer_take [OF assms] by (simp add: on_new_def)
    then show "\<exists>ios'. andthen (ios_read ?n) (\<lambda>p ios.
        rbind (on_new (ios_set_buffer p ?n)) (\<lambda>data. Inr (data, ios))) i = Inr (buffer_of d, ios')
        \<and> ios_ok ios' \<and> ios_data ios' = r"
      using i' by simp
  qed
  then show ?thesis unfolding get_payload_def by (intro reads_andthen [OF reads_int32]) simp
qed

lemma put_block_parsed:
  assumes "length d < 2147483648"
  shows "reads get_put_block ([command_byte cmd_PutBlock] @ be32 f @ be32 b @ be32 (of_nat (length d)) @ d)
    \<lparr>pb_file_id = f, pb_block_id = b, pb_ios = Some (buffer_of d)\<rparr>"
proof -
  have "reads get_put_block ([command_byte cmd_PutBlock] @ be32 f @ be32 b @ (be32 (of_nat (length d)) @ d) @ [])
    \<lparr>pb_file_id = f, pb_block_id = b, pb_ios = Some (buffer_of d)\<rparr>"
    unfolding get_put_block_def
    by (rule reads_andthen [OF expect_command_reads] reads_andthen [OF reads_int32]
          reads_andthen [OF reads_payload [OF assms]])+ (simp add: reads_def)
  then show ?thesis by simp
qed

lemma get_ack_parsed:
  assumes "length d < 2147483648"
  shows "reads get_get_ack ([command_byte cmd_GetBlockAck] @ be32 f @ be32 b @ be32 (of_nat (length d)) @ d)
    \<lparr>gba_file_id = f, gba_block_id = b, gba_ios = Some (buffer_of d)\<rparr>"
proof -
  have "reads get_get_ack ([command_byte cmd_GetBlockAck] @ be32 f @ be32 b @ (be32 (of_nat (length d)) @ d) @ [])
    \<lparr>gba_file_id = f, gba_block_id = b, gba_ios = Some (buffer_of d)\<rparr>"
    unfolding get_get_ack_def
    by (rule reads_andthen [OF expect_command_reads] reads_andthen [OF reads_int32]
          reads_andthen [OF reads_payload [OF assms]])+ (simp add: reads_def)
  then show ?thesis by simp
qed

section \<open>Frames are received as they were sent\<close>

definition frame :: "byte list \<Rightarrow> byte list" where
  "frame d = be32 (of_nat (length d)) @ d"

lemma length_frame [simp]: "length (frame d) = length d + 4"
  by (simp add: frame_def)

lemma put_frame_writes:
  assumes "ios_holds d ios" "length d < 2147483648"
  shows "writes (put_frame ios) (frame d)"
proof -
  have "writes (ios_append (ios_buffer ios) (ios_buffer_size ios)) d"
  proof (cases "d = []")
    case True
    then have "ios_append (ios_buffer ios) (ios_buffer_size ios) = ret ()"
      using ios_holds_size [OF assms(1)] by (simp add: ios_append_def)
    then show ?thesis using writes_ret True by simp
  next
    case False
    then have "ios_buffer ios = Some d" using assms(1) by (simp add: ios_holds_def ios_buffer_data)
    then show ?thesis using writes_append [of "length d" d d] ios_holds_size [OF assms(1)] by simp
  qed
  then show ?thesis
    unfolding put_frame_def frame_def ios_holds_size [OF assms(1)] by (intro writes_andthen writes_int32)
qed

lemma ios_int32_at_0:
  assumes "ios_ok ios" "4 \<le> length (ios_data ios)"
  shows "ios_int32_at ios 0 = Inr (un_be32 (ios_data ios))"
proof -
  have "ios_data ios \<noteq> []" using assms(2) by auto
  then show ?thesis using assms by (simp add: ios_int32_at_def ios_buffer_data)
qed

lemma size_minus_4:
  assumes "ios_ok ios" "5 \<le> length (ios_data ios)"
  shows "\<not> ios_buffer_size ios < 5" "unat (ios_buffer_size ios - 4) = length (ios_data ios) - 4"
proof -
  note sz = ios_buffer_size_data [OF assms(1)]
  show "\<not> ios_buffer_size ios < 5" using sz assms(2) by (simp add: word_less_nat_alt)
  have "4 \<le> ios_buffer_size ios" using sz assms(2) by (simp add: word_le_nat_alt)
  then show "unat (ios_buffer_size ios - 4) = length (ios_data ios) - 4"
    using sz by (simp add: unat_sub)
qed

lemma next_packet_frame:
  assumes "ios_ok ios" "ios_data ios = frame d @ rest" "d \<noteq> []" "length d < 2147483648"
  obtains ios' where "next_packet ios = Inr (Some (buffer_of d), ios')" "ios_ok ios'" "ios_data ios' = rest"
proof -
  let ?n = "of_nat (length d) :: u32"
  have n: "unat ?n = length d" using assms(4) by (simp add: unat_of_nat_u32)
  have nz: "?n \<noteq> 0" using n assms(3) by (metis length_0_conv unat_0)
  have l: "5 \<le> length (ios_data ios)"
    using assms(2,3) by (cases d) simp_all
  note sz = size_minus_4 [OF assms(1) l]
  have at: "ios_int32_at ios 0 = Inr ?n"
    using ios_int32_at_0 [OF assms(1)] l assms(2) by (simp add: frame_def)
  have fits: "\<not> ?n > ios_buffer_size ios - 4"
    using sz(2) n assms(2) by (simp add: word_less_nat_alt frame_def)
  have data: "ios_data ios = be32 ?n @ d @ rest" using assms(2) by (simp add: frame_def)
  obtain i1 where i1: "ios_read_int32 ios = Inr (?n, i1)" "ios_ok i1" "ios_data i1 = d @ rest"
    by (rule readsE [OF reads_int32 assms(1) data])
  obtain i2 where i2: "ios_read ?n i1 = Inr (Some (d @ rest), i2)" "ios_ok i2" "ios_data i2 = rest"
    using ios_read_spec [OF i1(2,3) n] by blast
  have "on_new (ios_set_buffer (Some (d @ rest)) ?n) = Inr (buffer_of d)"
    using buffer_of_run(1) [OF assms(4)] ios_set_buffer_take [OF assms(4)] by (simp add: on_new_def)
  then have "next_packet ios = Inr (Some (buffer_of d), i2)"
    using sz(1) at fits i1(1) i2(1) nz by (simp add: next_packet_def)
  then show thesis using i2(2,3) by (rule that)
qed

lemma next_packet_partial:
  assumes "ios_ok ios" "prefix (ios_data ios) (frame d)" "ios_data ios \<noteq> frame d" "length d < 2147483648"
  shows "next_packet ios = Inr (None, ios)"
proof (cases "length (ios_data ios) < 5")
  case True
  then have "ios_buffer_size ios < 5"
    using ios_buffer_size_data [OF assms(1)] by (simp add: word_less_nat_alt)
  then show ?thesis by (simp add: next_packet_def)
next
  case False
  then have l: "5 \<le> length (ios_data ios)" by simp
  note sz = size_minus_4 [OF assms(1) l]
  let ?n = "of_nat (length d) :: u32"
  have n: "unat ?n = length d" using assms(4) by (simp add: unat_of_nat_u32)
  obtain r where r: "frame d = ios_data ios @ r" using assms(2) by (auto simp: prefix_def)
  then have "r \<noteq> []" using assms(3) by auto
  moreover have "length (ios_data ios) + length r = length d + 4" using r length_frame [of d] by simp
  ultimately have short: "length (ios_data ios) - 4 < length d" using l by (cases r) auto
  have "take 4 (ios_data ios) = take 4 (be32 ?n @ d)"
    using r l by (simp add: frame_def)
  then have "ios_data ios = be32 ?n @ drop 4 (ios_data ios)"
    by (metis append_take_drop_id append_eq_conv_conj length_be32)
  then have "un_be32 (ios_data ios) = ?n" by (metis un_be32_be32)
  then have "ios_int32_at ios 0 = Inr ?n" using ios_int32_at_0 [OF assms(1)] l by simp
  moreover have "?n > ios_buffer_size ios - 4"
    using sz(2) n short by (simp add: word_less_nat_alt)
  ultimately show ?thesis using sz(1) by (simp add: next_packet_def)
qed

text \<open>Taking packets off a buffer until there is none.\<close>

primrec take_packets :: "nat \<Rightarrow> (iosbuf, iosbuf option list) prog" where
  "take_packets 0 = ret []"
| "take_packets (Suc n) = andthen next_packet (\<lambda>p. andthen (take_packets n) (\<lambda>ps. ret (p # ps)))"

lemma take_packets_frames:
  assumes "\<forall>d\<in>set ds. d \<noteq> [] \<and> length d < 2147483648" "ios_ok ios"
    "ios_data ios = concat (map frame ds) @ rest"
  shows "\<exists>ios'. take_packets (length ds) ios = Inr (map (\<lambda>d. Some (buffer_of d)) ds, ios')
    \<and> ios_ok ios' \<and> ios_data ios' = rest"
  using assms
proof (induction ds arbitrary: ios)
  case Nil
  then show ?case by simp
next
  case (Cons d ds)
  obtain i where i: "next_packet ios = Inr (Some (buffer_of d), i)" "ios_ok i"
    "ios_data i = concat (map frame ds) @ rest"
    by (rule next_packet_frame [of ios d "concat (map frame ds) @ rest"]) (use Cons.prems in auto)
  from Cons.IH [OF _ i(2,3)] Cons.prems(1) i(1) show ?case by auto
qed

lemma frames_written:
  assumes "list_all2 ios_holds ds bufs" "\<forall>d\<in>set ds. length d < 2147483648"
  shows "writes (put_list put_frame bufs) (concat (map frame ds))"
  using assms
proof (induction rule: list_all2_induct)
  case Nil
  then show ?case by (simp add: writes_def)
next
  case (Cons d ds b bufs)
  then show ?case by (auto intro!: writes_andthen put_frame_writes)
qed

section \<open>Properties\<close>



text \<open>A greeting is parsed as it was sent, whatever its identifiers and flags: the login of a client
  reaches the server unchanged when its message is a nonempty string.\<close>

theorem hello_roundtrip:
  assumes "ph_message h = Some m" and "m \<noteq> []" and "0 \<notin> set m" and "length m < 2147480000"
  shows "\<exists>ios ios'. on_new (put_hello h) = Inr ios \<and> get_hello ios = Inr (h, ios') \<and> ios_data ios' = []"
proof -
  have "hello_ok h" using assms by (simp add: hello_ok_def string_ok_def)
  moreover have "length (hello_bytes h) < 2147483648" using assms(1,4) by (simp add: hello_bytes_def)
  ultimately show ?thesis using hello_wire.roundtrip [of h] by (auto simp: on_new_def)
qed

definition sample_hello :: proto_hello where
  "sample_hello = \<lparr>ph_version = 0, ph_archive_id = 7, ph_archive_pass = 11, ph_create_archive = 0,
     ph_message = Some (cstr ''hi'')\<rparr>"

theorem hello_roundtrip_witness:
  "\<exists>ios ios'. on_new (put_hello sample_hello) = Inr ios \<and> get_hello ios = Inr (sample_hello, ios') \<and> ios_data ios' = []"
  by (rule hello_roundtrip [of _ "cstr ''hi''"]) (simp_all add: sample_hello_def cstr_def)

text \<open>The answer to a greeting is not parsed as it was sent: \<open>receive_hello_ack\<close> takes the archive
  identifier for the length of the message, so that for a message shorter than \<open>2\<^sup>2\<^sup>4\<close> bytes it gets
  no message or an empty one, and an identifier that was never read.\<close>

theorem hello_ack_misread:
  assumes "pha_message ha = Some m" and "m \<noteq> []" and "length m < 16777216"
  shows "\<exists>ios msg ios'. on_new (put_hello_ack ha) = Inr ios
    \<and> get_hello_ack garbage ios = Inr (\<lparr>pha_version = pha_version ha, pha_error = pha_error ha,
         pha_archive_id = garbage, pha_message = msg\<rparr>, ios') \<and> (msg = None \<or> msg = Some [])"
proof -
  let ?a = "pha_archive_id ha"
  let ?tail = "be32 (of_nat (length m)) @ m"
  have w: "writes (put_hello_ack ha) ([command_byte cmd_HelloAck] @ [pha_version ha] @ be16 (pha_error ha)
      @ be32 ?a @ ?tail)"
    unfolding put_hello_ack_def append_string_ptr_def assms(1) option.case by (intro ios_specs)
  have l: "length ([command_byte cmd_HelloAck] @ [pha_version ha] @ be16 (pha_error ha) @ be32 ?a @ ?tail)
      < 2147483648" using assms(3) by simp
  obtain ios where ios: "on_new (put_hello_ack ha) = Inr ios" "ios_holds ([command_byte cmd_HelloAck]
      @ [pha_version ha] @ be16 (pha_error ha) @ be32 ?a @ ?tail) ios"
    by (rule on_new_writes [OF w l])
  have ok: "ios_ok ios" "ios_data ios = [command_byte cmd_HelloAck] @ [pha_version ha] @ be16 (pha_error ha)
      @ be32 ?a @ ?tail" using ios(2) by (simp_all add: ios_holds_def)
  obtain i1 where i1: "expect_command cmd_HelloAck ios = Inr ((), i1)" "ios_ok i1"
    "ios_data i1 = [pha_version ha] @ be16 (pha_error ha) @ be32 ?a @ ?tail"
    by (rule readsE [OF expect_command_reads ok])
  obtain i2 where i2: "ios_read_byte i1 = Inr (pha_version ha, i2)" "ios_ok i2"
    "ios_data i2 = be16 (pha_error ha) @ be32 ?a @ ?tail" by (rule readsE [OF reads_byte i1(2,3)])
  obtain i3 where i3: "ios_read_int16 i2 = Inr (pha_error ha, i3)" "ios_ok i3"
    "ios_data i3 = be32 ?a @ ?tail" by (rule readsE [OF reads_int16 i2(2,3)])
  obtain i4 where i4: "ios_read_int32 i3 = Inr (?a, i4)" "ios_ok i4" "ios_data i4 = ?tail"
    by (rule readsE [OF reads_int32 i3(2,3)])
  have hd0: "\<exists>r. ?tail = 0 # r"
  proof -
    have "unat (of_nat (length m) :: u32) < 16777216" using assms(3) by (simp add: unat_of_nat_u32)
    then have "drop_bit 24 (of_nat (length m) :: u32) = 0"
      by (simp add: word_unat_eq_iff unat_drop_bit_eq drop_bit_eq_div unat_div)
    then have "(ucast (drop_bit 24 (of_nat (length m) :: u32)) :: byte) = 0" by simp
    then show ?thesis by (simp add: be32_def)
  qed
  have "\<exists>msg ios'. ios_read_str i3 = Inr (msg, ios') \<and> (msg = None \<or> msg = Some [])"
  proof (cases "?a = 0")
    case True
    then show ?thesis using i4(1) by (auto simp: ios_read_str_def)
  next
    case a: False
    show ?thesis
    proof (cases "ios_read_ptr i4 + ?a > ios_len i4")
      case True
      then show ?thesis using i4(1) a by (simp add: ios_read_str_def ios_read_def g_strndup_def)
    next
      case False
      obtain r where r: "?tail = 0 # r" using hd0 by blast
      have "drop (unat (ios_read_ptr i4)) (ios_bytes i4) = 0 # r" using i4(3) r by (simp add: ios_data_def)
      moreover have "c_string (take (unat ?a) (0 # r)) = []"
        using a by (cases "unat ?a") (simp_all add: c_string_def)
      ultimately show ?thesis using i4(1) a False
        by (simp add: ios_read_str_def ios_read_def g_strndup_def)
    qed
  qed
  then obtain msg ios' where "ios_read_str i3 = Inr (msg, ios')" "msg = None \<or> msg = Some []" by blast
  then show ?thesis using ios(1) i1(1) i2(1) i3(1)
    by (intro exI [of _ ios] exI [of _ msg] exI [of _ ios']) (simp add: get_hello_ack_def)
qed

theorem hello_ack_misread_witness:
  "\<exists>ios msg ios'. on_new (put_hello_ack \<lparr>pha_version = 0, pha_error = phe_OK, pha_archive_id = 7,
        pha_message = Some (cstr ''Server version 0.0 here.'')\<rparr>) = Inr ios
    \<and> get_hello_ack 99 ios = Inr (\<lparr>pha_version = 0, pha_error = phe_OK,
         pha_archive_id = 99, pha_message = msg\<rparr>, ios') \<and> (msg = None \<or> msg = Some [])"
  using hello_ack_misread [of "\<lparr>pha_version = 0, pha_error = phe_OK, pha_archive_id = 7,
        pha_message = Some (cstr ''Server version 0.0 here.'')\<rparr>" "cstr ''Server version 0.0 here.''" 99]
  by (simp add: cstr_def)

end
