(* ===== verification/Tickets.thy ===== *)
theory Tickets
  imports Messages
begin

text \<open>
  The work of a ticket: \<open>requests.c\<close> (block lists), the sending half of \<open>workticket.c\<close> and the
  parts of \<open>covering.c\<close> that use the databases.  A loop over a ticket works on a copy of it, which
  is stored back at the end: nothing that the loop calls looks at the work list.

  What is shown: the sending and the requesting loop end, because each turn takes the next block of
  the list.  What a ticket goes through is in \<open>Transfers\<close> and \<open>Restore\<close>.
\<close>

section \<open>Covering a file\<close>

definition fault_of_loop :: "'a option \<Rightarrow> 'a result" where
  "fault_of_loop r = (case r of None \<Rightarrow> Inl Hang | Some x \<Rightarrow> Inr x)"

definition pref_block_length :: "'e external \<Rightarrow> ('e peer, u32) prog" where
  "pref_block_length ext = pref_get_int_value_silent_default ext PREF_BLOCK_LENGTH DEFAULT_BLOCK_LENGTH"

text \<open>The block length is read from the preferences once per process (a static variable).\<close>

definition cover_static_length :: "'e external \<Rightarrow> ('e peer, u32) prog" where
  "cover_static_length ext s = (if cover_block_length s \<noteq> 0 then Inr (cover_block_length s, s)
     else andthen (pref_block_length ext) (\<lambda>bl. andthen (update (\<lambda>s. s\<lparr>cover_block_length := bl\<rparr>)) (\<lambda>_. ret bl)) s)"

text \<open>
  The first part marks the old blocks that are in the file.  The hash table is indexed with the
  block length truncated to 16 bits.
\<close>

definition cover_reuse :: "'e external \<Rightarrow> cfile \<Rightarrow> dbblock list \<Rightarrow> ('e peer, cfile \<times> dbblock list) prog" where
  "cover_reuse ext fp blocks = (if blocks = [] then ret (fp, blocks)
     else andthen (pref_block_length ext) (\<lambda>bl s.
          rbind (WCsum_make_hash (ucast bl) (fp, checksum_hash s)) (\<lambda>(fp, h).
          rbind (cover_hash (ex_sha1 ext) h blocks fp) (\<lambda>(blocks, fp).
          rbind (hash_destroy h) (\<lambda>(_, h). Inr ((fp, blocks), s\<lparr>checksum_hash := h\<rparr>))))))"

definition cover_update_remote :: "'e external \<Rightarrow> cfile \<Rightarrow> dbsummary \<Rightarrow> dbblock list
    \<Rightarrow> ('e peer, cfile \<times> dbblock list) prog" where
  "cover_update_remote ext fp summary blocks = andthen (cover_reuse ext fp blocks) (\<lambda>(fp, blocks).
     andthen (cover_static_length ext) (\<lambda>bl.
     andthen (lifted (fault_of_loop (cover_complete_cover (ex_sort ext) bl (file_length summary) blocks))) (\<lambda>blocks.
     ret (fp, blocks))))"

definition cover_save_block :: "'e external \<Rightarrow> dbblock \<Rightarrow> ('e peer, dbblock) prog" where
  "cover_save_block ext dbb = (if local_id dbb \<noteq> 0 then ret dbb
     else andthen (db_get_next_index ext kBlocks) (\<lambda>ident. let dbb = dbb\<lparr>local_id := ident\<rparr> in
          andthen (if remote_id dbb \<noteq> 0 then db_block_add ext dbb else ret ()) (\<lambda>_. ret dbb)))"

primrec cover_save_local :: "'e external \<Rightarrow> dbblock list \<Rightarrow> ('e peer, dbblock list) prog" where
  "cover_save_local ext [] = ret []"
| "cover_save_local ext (dbb # dbbs) = andthen (cover_save_block ext dbb) (\<lambda>b.
     andthen (cover_save_local ext dbbs) (\<lambda>bs. ret (b # bs)))"

section \<open>Block lists\<close>

definition request_block_list :: "ticket \<Rightarrow> ('e peer, unit) prog" where
  "request_block_list wt = (case (wt_dbf wt, wt_summary wt) of
       (Some dbf, Some summary) \<Rightarrow> send_get_block \<lparr>gb_file_id = dbf_file_id dbf, gb_block_id = 0,
          gb_archive_id = block_list_remote_id summary\<rparr>
     | _ \<Rightarrow> fail Segv)"

definition put_block_entry :: "dbblock \<Rightarrow> (iosbuf, unit) prog" where
  "put_block_entry dbb = andthen (ios_append_int32 (local_id dbb)) (\<lambda>_. db_block_to_stream_no_data dbb)"

definition get_block_entry :: "(iosbuf, dbblock) prog" where
  "get_block_entry = andthen ios_read_int32 db_block_from_stream_no_data"

definition block_list_to_stream :: "dbblock list \<Rightarrow> (iosbuf, unit) prog" where
  "block_list_to_stream bl = andthen (ios_append_int32 (of_nat (length bl))) (\<lambda>_. put_list put_block_entry bl)"

definition block_list_from_stream :: "(iosbuf, dbblock list) prog" where
  "block_list_from_stream = andthen ios_read_int32 (\<lambda>len. get_list get_block_entry (unat len))"

text \<open>The summary is updated with the checksum and the length of the list.\<close>

definition send_block_list :: "'e external \<Rightarrow> dbsummary \<Rightarrow> dbblock list \<Rightarrow> ('e peer, dbsummary) prog" where
  "send_block_list ext summary bl = andthen (lifted (on_new (block_list_to_stream bl))) (\<lambda>ios.
     let summary = summary\<lparr>block_list_sha1 := ex_sha1 ext (dbt ios), block_list_length := ios_buffer_size ios\<rparr> in
     andthen (lifted (on_new (ios_set_buffer (ios_buffer ios) (ios_buffer_size ios)))) (\<lambda>ios1.
     andthen (pack ext ios1) (\<lambda>p.
     andthen (send_put_block \<lparr>pb_file_id = sm_file_id summary, pb_block_id = 0, pb_ios = p\<rparr>) (\<lambda>_.
     ret summary))))"

section \<open>Sending blocks\<close>

abbreviation (input) desired_queue_size :: u32 where "desired_queue_size \<equiv> 8192"

definition wt_send_block :: "'e external \<Rightarrow> ticket \<Rightarrow> nat \<Rightarrow> dbblock \<Rightarrow> ('e peer, ticket) prog" where
  "wt_send_block ext wt i dbb = (case (wt_dbf wt, wt_fp wt) of
       (Some dbf, Some (Reading fp)) \<Rightarrow>
         andthen (lifted (cover_fill_block (ex_sha1 ext) (ex_garbage ext) dbb fp)) (\<lambda>(dbb, fp).
         andthen (lifted (on_new (ios_set_buffer (bl_data dbb) (ucast (bl_length dbb))))) (\<lambda>ios1.
         andthen (pack ext ios1) (\<lambda>p.
         andthen (send_put_block \<lparr>pb_file_id = dbf_file_id dbf, pb_block_id = local_id dbb, pb_ios = p\<rparr>) (\<lambda>_.
         ret (wt\<lparr>wt_fp := Some (Reading fp), num_blocks_moved := num_blocks_moved wt + 1,
            wt_block_list := map_option (\<lambda>bl. bl[i := dbb\<lparr>bl_data := None\<rparr>]) (wt_block_list wt)\<rparr>)))))
     | (None, _) \<Rightarrow> fail Abort
     | (_, None) \<Rightarrow> fail Abort
     | (_, Some (Writing _ _)) \<Rightarrow> fail Undef)"

definition wt_more_blocks :: "ticket \<Rightarrow> 'e peer \<Rightarrow> bool" where
  "wt_more_blocks wt s \<longleftrightarrow> ios_buffer_size (ios_write_buf s) < desired_queue_size
     \<and> (case wt_block_list wt of None \<Rightarrow> False | Some bl \<Rightarrow> next_block_to_queue wt < of_nat (length bl))"

definition wt_send_next :: "'e external \<Rightarrow> ticket \<Rightarrow> ('e peer, ticket) prog" where
  "wt_send_next ext wt = (case wt_block_list wt of None \<Rightarrow> fail Segv
     | Some bl \<Rightarrow> let i = unat (next_block_to_queue wt); dbb = bl ! i;
          wt = wt\<lparr>next_block_to_queue := next_block_to_queue wt + 1\<rparr> in
        if in_new_cover dbb \<and> remote_id dbb = 0 then wt_send_block ext wt i dbb else ret wt)"

lemma wt_send_block_fields:
  assumes "wt_send_block ext wt i dbb s = Inr (wt', s')"
  shows "next_block_to_queue wt' = next_block_to_queue wt
    \<and> map_option length (wt_block_list wt') = map_option length (wt_block_list wt)"
  using assms by (auto simp: wt_send_block_def option.map_comp comp_def
      split: option.splits stream.splits elim!: andthen_InrE)

lemma wt_send_next_fields:
  assumes "wt_send_next ext wt s = Inr (wt', s')"
  shows "next_block_to_queue wt' = next_block_to_queue wt + 1
    \<and> map_option length (wt_block_list wt') = map_option length (wt_block_list wt)"
  using assms by (auto simp: wt_send_next_def Let_def dest!: wt_send_block_fields
      split: option.splits if_splits)

definition remaining :: "ticket \<Rightarrow> nat" where
  "remaining wt = (case wt_block_list wt of None \<Rightarrow> 0
     | Some bl \<Rightarrow> unat (of_nat (length bl) :: u32) - unat (next_block_to_queue wt))"

lemma remaining_step:
  assumes "wt_more_blocks wt s" "next_block_to_queue wt' = next_block_to_queue wt + 1"
    "map_option length (wt_block_list wt') = map_option length (wt_block_list wt)"
  shows "remaining wt' < remaining wt"
proof -
  obtain bl where bl: "wt_block_list wt = Some bl" "next_block_to_queue wt < of_nat (length bl)"
    using assms(1) by (auto simp: wt_more_blocks_def split: option.splits)
  obtain bl' where bl': "wt_block_list wt' = Some bl'" "length bl' = length bl"
    using assms(3) bl(1) by (cases "wt_block_list wt'") auto
  have lt: "unat (next_block_to_queue wt) < unat (of_nat (length bl) :: u32)"
    using bl(2) by (simp add: word_less_nat_alt)
  then have "unat (next_block_to_queue wt) + 1 < 4294967296"
    using unat_u32_less [of "of_nat (length bl) :: u32"] by linarith
  then have "unat (next_block_to_queue wt') = unat (next_block_to_queue wt) + 1"
    using unat_add_nowrap [of "next_block_to_queue wt" 1] assms(2) by simp
  then show ?thesis using bl(1) bl' lt by (simp add: remaining_def)
qed

function wt_send_loop :: "'e external \<Rightarrow> ticket \<Rightarrow> ('e peer, ticket) prog" where
  "wt_send_loop ext wt s = (if wt_more_blocks wt s
     then case wt_send_next ext wt s of Inl e \<Rightarrow> Inl e | Inr (wt', s') \<Rightarrow> wt_send_loop ext wt' s'
     else Inr (wt, s))"
  by pat_completeness auto
termination
  by (relation "measure (\<lambda>(ext, wt, s). remaining wt)")
     (auto dest: wt_send_next_fields intro: remaining_step)

declare wt_send_loop.simps [simp del]

text \<open>What both loops do in the end: when the last block was reached, wait for the confirmations.\<close>

definition wt_all_queued :: "ticket \<Rightarrow> ticket" where
  "wt_all_queued wt = (case wt_block_list wt of None \<Rightarrow> wt
     | Some bl \<Rightarrow> if next_block_to_queue wt \<ge> of_nat (length bl)
                  then wt\<lparr>wt_state := wt_AwaitingBlockConfirms\<rparr> else wt)"

definition wt_send_blocks :: "'e external \<Rightarrow> nat \<Rightarrow> ('e peer, unit) prog" where
  "wt_send_blocks ext i s = andthen (require (wt_dbf (ticket_at i s) \<noteq> None)) (\<lambda>_.
     andthen (require (wt_block_list (ticket_at i s) \<noteq> None)) (\<lambda>_.
     andthen (wt_send_loop ext (ticket_at i s)) (\<lambda>wt. set_ticket i (wt_all_queued wt)))) s"

section \<open>Requesting blocks\<close>

definition wt_request_next :: "ticket \<Rightarrow> ('e peer, ticket) prog" where
  "wt_request_next wt = (case (wt_block_list wt, wt_dbf wt) of
       (Some bl, Some dbf) \<Rightarrow> let dbb = bl ! unat (next_block_to_queue wt) in
         andthen (send_get_block \<lparr>gb_file_id = dbf_file_id dbf, gb_block_id = local_id dbb,
            gb_archive_id = remote_id dbb\<rparr>) (\<lambda>_.
         ret (wt\<lparr>next_block_to_queue := next_block_to_queue wt + 1\<rparr>))
     | _ \<Rightarrow> fail Abort)"

lemma wt_request_next_fields:
  assumes "wt_request_next wt s = Inr (wt', s')"
  shows "wt' = wt\<lparr>next_block_to_queue := next_block_to_queue wt + 1\<rparr>"
  using assms by (auto simp: wt_request_next_def Let_def split: option.splits elim!: andthen_InrE)

function wt_request_loop :: "ticket \<Rightarrow> ('e peer, ticket) prog" where
  "wt_request_loop wt s = (if wt_more_blocks wt s
     then case wt_request_next wt s of Inl e \<Rightarrow> Inl e | Inr (wt', s') \<Rightarrow> wt_request_loop wt' s'
     else Inr (wt, s))"
  by pat_completeness auto
termination
  by (relation "measure (\<lambda>(wt, s). remaining wt)")
     (auto dest!: wt_request_next_fields intro!: remaining_step)

declare wt_request_loop.simps [simp del]

definition wt_send_block_requests :: "nat \<Rightarrow> ('e peer, unit) prog" where
  "wt_send_block_requests i s = andthen (require (wt_action (ticket_at i s) = wt_Extract)) (\<lambda>_.
     andthen (require (wt_dbf (ticket_at i s) \<noteq> None)) (\<lambda>_.
     andthen (require (wt_block_list (ticket_at i s) \<noteq> None)) (\<lambda>_.
     andthen (wt_request_loop (ticket_at i s)) (\<lambda>wt. set_ticket i (wt_all_queued wt))))) s"

section \<open>The work list\<close>

text \<open>A ticket that is new or waiting has nothing to do.\<close>

definition wt_do_work :: "'e external \<Rightarrow> nat \<Rightarrow> ('e peer, unit) prog" where
  "wt_do_work ext i s = (if ios_buffer_size (ios_write_buf s) > desired_queue_size then Inr ((), s)
     else case wt_state (ticket_at i s) of
         wt_SendingBlocks \<Rightarrow> wt_send_blocks ext i s
       | wt_SendingBlockRequests \<Rightarrow> wt_send_block_requests i s
       | _ \<Rightarrow> Inr ((), s))"

primrec wt_work_on :: "'e external \<Rightarrow> nat list \<Rightarrow> ('e peer, unit) prog" where
  "wt_work_on ext [] = ret ()"
| "wt_work_on ext (i # is) = andthen (wt_do_work ext i) (\<lambda>_. wt_work_on ext is)"

definition wt_process_queue :: "'e external \<Rightarrow> ('e peer, unit) prog" where
  "wt_process_queue ext s = wt_work_on ext [0..<length (work_list s)] s"

end
