(* ===== verification/Server.thy ===== *)
theory Server
  imports Tickets
begin

text \<open>
  The server's half of \<open>protocol.c\<close>: what \<open>receive_hello\<close>, \<open>receive_put_block\<close> and
  \<open>receive_get_block\<close> do with a message.  The branch of \<open>accept_hello\<close> that creates an archive is
  not C in the source (it reads \<open>create server db; store ph->archive_pass;\<close>), so it is the parameter
  \<open>creates\<close>.

  What is shown: the server is a store of blocks: it answers every block it is given with a new
  identifier, and a request for that identifier with the same bytes.
\<close>

definition accept_put_block :: "'e external \<Rightarrow> proto_put_block \<Rightarrow> ('e peer, int) prog" where
  "accept_put_block ext pb =
     andthen (db_archive_add ext \<lparr>ar_archive_id = 0, ar_version = 0, ar_ios = pb_ios pb\<rparr>) (\<lambda>a.
     andthen (send_put_ack \<lparr>pba_file_id = pb_file_id pb, pba_block_id = pb_block_id pb,
        pba_archive_id = ar_archive_id a\<rparr>) (\<lambda>_. ret 0))"

definition receive_put_block :: "'e external \<Rightarrow> iosbuf \<Rightarrow> ('e peer, int) prog" where
  "receive_put_block ext ios = andthen (from_ios get_put_block ios) (\<lambda>pb.
     andthen (accept_put_block ext pb) (\<lambda>_. ret 0))"

definition send_bad_get_ack :: "proto_get_block \<Rightarrow> ('e peer, unit) prog" where
  "send_bad_get_ack gb = send_get_ack \<lparr>gba_file_id = gb_file_id gb, gba_block_id = gb_block_id gb,
     gba_ios = Some ios_new\<rparr>"

definition accept_get_block :: "'e external \<Rightarrow> proto_get_block \<Rightarrow> ('e peer, int) prog" where
  "accept_get_block ext gb =
     (if gb_archive_id gb = 0 then andthen (send_bad_get_ack gb) (\<lambda>_. ret 0)
      else andthen (db_archive_fetch ext (gb_archive_id gb)) (\<lambda>a. case a of
          None \<Rightarrow> andthen (send_bad_get_ack gb) (\<lambda>_. ret 0)
        | Some a \<Rightarrow> andthen (send_get_ack \<lparr>gba_file_id = gb_file_id gb, gba_block_id = gb_block_id gb,
              gba_ios = ar_ios a\<rparr>) (\<lambda>_. ret 0)))"

definition receive_get_block :: "'e external \<Rightarrow> iosbuf \<Rightarrow> ('e peer, int) prog" where
  "receive_get_block ext ios = andthen (from_ios get_get_block ios) (\<lambda>gb.
     andthen (accept_get_block ext gb) (\<lambda>_. ret 0))"

definition plain_bye :: proto_bye where
  "plain_bye = \<lparr>bye_version = 0, bye_error = pbe_OK\<rparr>"

definition accept_hello :: "'e external \<Rightarrow> ('e peer, unit) prog \<Rightarrow> proto_hello \<Rightarrow> ('e peer, int) prog" where
  "accept_hello ext creates ph = andthen (require (ph_message ph \<noteq> None)) (\<lambda>_.
     let pha = \<lparr>pha_version = 0, pha_error = phe_OK, pha_archive_id = ph_archive_id ph,
           pha_message = Some (cstr ''Server version 0.0 here.'')\<rparr> in
     if ph_archive_id ph \<noteq> 0 then
       andthen (db_open_server_dbs ext (ph_archive_id ph) (ph_archive_pass ph)) (\<lambda>r.
       if r \<noteq> 0 then andthen (send_hello_ack (pha\<lparr>pha_error := phe_Bad_pass\<rparr>)) (\<lambda>_.
            andthen (send_bye plain_bye) (\<lambda>_. andthen quit_main_loop (\<lambda>_. ret 0)))
       else andthen (send_hello_ack pha) (\<lambda>_. ret 0))
     else if ph_create_archive ph \<noteq> 0 then andthen creates (\<lambda>_. ret 0)
     else andthen (send_hello_ack pha) (\<lambda>_. andthen (send_bye plain_bye) (\<lambda>_.
          andthen quit_main_loop (\<lambda>_. ret 0))))"

definition receive_hello :: "'e external \<Rightarrow> ('e peer, unit) prog \<Rightarrow> iosbuf \<Rightarrow> ('e peer, int) prog" where
  "receive_hello ext creates ios = andthen (from_ios get_hello ios) (accept_hello ext creates)"

text \<open>\<open>receive_bye\<close>, on both sides: the server answers with a goodbye of its own.\<close>

definition receive_bye :: "iosbuf \<Rightarrow> ('e peer, int) prog" where
  "receive_bye ios = andthen (from_ios get_bye ios) (\<lambda>_.
     andthen (\<lambda>s. if int_option kOption_server s \<noteq> 0 then send_bye plain_bye s else Inr ((), s)) (\<lambda>_.
     andthen quit_main_loop (\<lambda>_. ret 0)))"

section \<open>Sending\<close>

text \<open>What is known of a peer that can send \<open>n\<close> bytes.\<close>

definition can_send :: "'e peer \<Rightarrow> nat \<Rightarrow> bool" where
  "can_send s n \<longleftrightarrow> chan_out s \<noteq> None \<and> \<not> ignore_output s \<and> ios_ok (ios_write_buf s)
     \<and> unat (ios_len (ios_write_buf s)) + n < 2147483648"

text \<open>The effect of sending: the frame is queued and the output handler is registered.\<close>

definition queued :: "'e peer \<Rightarrow> byte list \<Rightarrow> 'e peer \<Rightarrow> bool" where
  "queued s bs s' \<longleftrightarrow> (\<exists>ios. s' = s\<lparr>chan_out := Some True, ios_write_buf := ios\<rparr> \<and> ios_ok ios
     \<and> ios_data ios = ios_data (ios_write_buf s) @ bs
     \<and> unat (ios_len ios) \<le> unat (ios_len (ios_write_buf s)) + length bs)"

lemma io_send_ios_run:
  assumes "ios_holds d ios" "can_send s (length d + 4)"
  obtains s' where "io_send_ios ios s = Inr ((), s')" "queued s (frame d) s'"
proof -
  have l: "length d < 2147483648" "ios_room (ios_write_buf s) (length (frame d))" "ios_ok (ios_write_buf s)"
    using assms(2) by (simp_all add: can_send_def ios_room_def)
  obtain w where w: "put_frame ios (ios_write_buf s) = Inr ((), w)" "ios_ok w"
    "ios_data w = ios_data (ios_write_buf s) @ frame d"
    "unat (ios_len w) \<le> unat (ios_len (ios_write_buf s)) + length (frame d)"
    by (rule writesE [OF put_frame_writes [OF assms(1) l(1)] l(3,2)])
  obtain b where "chan_out s = Some b" "\<not> ignore_output s" using assms(2) by (auto simp: can_send_def)
  then have "io_send_ios ios s = Inr ((), s\<lparr>chan_out := Some True, ios_write_buf := w\<rparr>)"
    using w(1) by (simp add: io_send_ios_def io_write_buf_def io_write_reg_def on_write_buf_def)
  then show thesis using w by (intro that) (auto simp: queued_def)
qed

lemma send_message_run:
  assumes "writes m bs" "can_send s (length bs + 4)"
  obtains s' where "send_message m s = Inr ((), s')" "queued s (frame bs) s'"
proof -
  have l: "length bs < 2147483648" using assms(2) by (simp add: can_send_def)
  obtain ios where ios: "on_new m = Inr ios" "ios_holds bs ios" by (rule on_new_writes [OF assms(1) l])
  obtain s' where "io_send_ios ios s = Inr ((), s')" "queued s (frame bs) s'"
    by (rule io_send_ios_run [OF ios(2) assms(2)])
  then show thesis using ios(1) by (intro that [of s']) (simp_all add: send_message_def)
qed

section \<open>The server as a store of blocks\<close>

definition put_block_bytes :: "u32 \<Rightarrow> u32 \<Rightarrow> byte list \<Rightarrow> byte list" where
  "put_block_bytes f b d = [command_byte cmd_PutBlock] @ be32 f @ be32 b @ be32 (of_nat (length d)) @ d"

definition get_block_bytes :: "u32 \<Rightarrow> u32 \<Rightarrow> u32 \<Rightarrow> byte list" where
  "get_block_bytes f b ident = [command_byte cmd_GetBlock] @ be32 f @ be32 b @ be32 ident"

definition put_ack_bytes :: "u32 \<Rightarrow> u32 \<Rightarrow> u32 \<Rightarrow> byte list" where
  "put_ack_bytes f b ident = [command_byte cmd_PutBlockAck] @ be32 f @ be32 b @ be32 ident"

definition get_ack_bytes :: "u32 \<Rightarrow> u32 \<Rightarrow> byte list \<Rightarrow> byte list" where
  "get_ack_bytes f b d = [command_byte cmd_GetBlockAck] @ be32 f @ be32 b @ be32 (of_nat (length d)) @ d"

text \<open>The abstract server: the last identifier it gave away and the blocks by identifier.\<close>

type_synonym block_store = "u32 \<times> (u32 \<Rightarrow> byte list option)"

datatype request = Put u32 u32 "byte list" | Get u32 u32 u32

definition stored_block :: "block_store \<Rightarrow> u32 \<Rightarrow> byte list" where
  "stored_block st ident = (case snd st ident of None \<Rightarrow> [] | Some d \<Rightarrow> d)"

fun store_step :: "request \<Rightarrow> block_store \<Rightarrow> byte list \<times> block_store" where
  "store_step (Put f b d) (c, m) = (put_ack_bytes f b (c + 1), (c + 1, m(c + 1 \<mapsto> d)))"
| "store_step (Get f b ident) st = (get_ack_bytes f b (stored_block st ident), st)"

fun store_run :: "request list \<Rightarrow> block_store \<Rightarrow> byte list list \<times> block_store" where
  "store_run [] st = ([], st)"
| "store_run (r # rs) st = (case store_step r st of (a, st) \<Rightarrow>
     case store_run rs st of (as, st) \<Rightarrow> (a # as, st))"

fun request_bytes :: "request \<Rightarrow> byte list" where
  "request_bytes (Put f b d) = put_block_bytes f b d"
| "request_bytes (Get f b ident) = get_block_bytes f b ident"

fun request_ok :: "request \<Rightarrow> bool" where
  "request_ok (Put f b d) = (d \<noteq> [] \<and> length d < 65536)"
| "request_ok (Get f b ident) = True"

text \<open>The program on the packets of such requests.\<close>

fun serve_request :: "'e external \<Rightarrow> request \<Rightarrow> ('e peer, int) prog" where
  "serve_request ext (Put f b d) = receive_put_block ext (buffer_of (put_block_bytes f b d))"
| "serve_request ext (Get f b ident) = receive_get_block ext (buffer_of (get_block_bytes f b ident))"

primrec serve :: "'e external \<Rightarrow> request list \<Rightarrow> ('e peer, unit) prog" where
  "serve ext [] = ret ()"
| "serve ext (r # rs) = andthen (serve_request ext r) (\<lambda>_. serve ext rs)"

text \<open>The representation of an abstract store in a process.\<close>

definition serves :: "'e external \<Rightarrow> 'e db_contents \<Rightarrow> block_store \<Rightarrow> 'e peer \<Rightarrow> bool" where
  "serves ext A st s \<longleftrightarrow> store_ready ext A kArchive s \<and> counts A s kArchive (fst st) \<and> snd st 0 = None
     \<and> (\<forall>ident. db_view A kArchive s (be32 ident) = map_option (archive_bytes 0) (snd st ident))
     \<and> (\<forall>ident d. snd st ident = Some d \<longrightarrow> d \<noteq> [] \<and> length d < 65536)"

lemma serves_cong:
  assumes "serves ext A st s" "env s' = env s" "database_ptrs s' = database_ptrs s"
    "int_option_array s' = int_option_array s"
  shows "serves ext A st s'"
proof -
  have i: "index_db s' = index_db s" using assms(4) by (simp add: index_db_def int_option_def)
  have v: "db_view A db s' = db_view A db s" for db using assms(2,3) by (auto simp: db_view_def fun_eq_iff split: option.split)
  have r: "db_ready ext A db s' = db_ready ext A db s" for db using assms(3) by (simp add: db_ready_def v)
  show ?thesis using assms(1,3) by (simp add: serves_def store_ready_def counts_def i v r)
qed

lemma queued_serves:
  assumes "serves ext A st s" "queued s bs s'"
  shows "serves ext A st s'"
  by (rule serves_cong [OF assms(1)]) (use assms(2) in \<open>auto simp: queued_def\<close>)

lemma queued_can_send:
  assumes "queued s bs s'" "can_send s (length bs + n)"
  shows "can_send s' n" "ios_data (ios_write_buf s') = ios_data (ios_write_buf s) @ bs"
  using assms by (auto simp: queued_def can_send_def)

lemma length_message_bytes [simp]:
  "length (put_ack_bytes f b i) = 13" "length (get_ack_bytes f b d) = 13 + length d"
  "length (put_block_bytes f b d) = 13 + length d" "length (get_block_bytes f b i) = 13"
  by (simp_all add: put_ack_bytes_def get_ack_bytes_def put_block_bytes_def get_block_bytes_def)

lemma get_ack_writes:
  assumes "ios_holds d ios" "ios_read_ptr ios = 0" "length d < 2147483648"
  shows "writes (put_get_ack \<lparr>gba_file_id = f, gba_block_id = b, gba_ios = Some ios\<rparr>) (get_ack_bytes f b d)"
  unfolding put_get_ack_def get_ack_bytes_def get_block_bytes_def
  by (simp only: proto_get_block_ack.select_convs)
     (intro writes_andthen writes_byte1 writes_int32 writes_payload [OF assms])

lemma serve_put:
  assumes "serves ext A (c, m) s" "c + 1 \<noteq> 0" "d \<noteq> []" "length d < 65536" "can_send s 17"
  obtains s' where "receive_put_block ext (buffer_of (put_block_bytes f b d)) s = Inr (0, s')"
    "serves ext A (c + 1, m(c + 1 \<mapsto> d)) s'"
    "\<exists>s1. queued s1 (frame (put_ack_bytes f b (c + 1))) s' \<and> ios_write_buf s1 = ios_write_buf s \<and> can_send s1 17"
proof -
  let ?bs = "put_block_bytes f b d"
  have lb: "length ?bs < 2147483648" "length d < 2147483648" "length d < 2147483000" using assms(4) by simp_all
  have p: "from_ios get_put_block (buffer_of ?bs) s =
      Inr (\<lparr>pb_file_id = f, pb_block_id = b, pb_ios = Some (buffer_of d)\<rparr>, s)"
    by (rule from_ios_reads [OF buffer_of_run(2) [OF lb(1)] put_block_parsed [OF lb(2), folded put_block_bytes_def]])
  obtain e where e: "db_archive_add ext \<lparr>ar_archive_id = 0, ar_version = 0, ar_ios = Some (buffer_of d)\<rparr> s =
      Inr (\<lparr>ar_archive_id = c + 1, ar_version = 0, ar_ios = Some (buffer_of d)\<rparr>, s\<lparr>env := e\<rparr>)"
    "store_ready ext A kArchive (s\<lparr>env := e\<rparr>)" "counts A (s\<lparr>env := e\<rparr>) kArchive (c + 1)"
    "db_view A kArchive (s\<lparr>env := e\<rparr>) = (db_view A kArchive s)(be32 (c + 1) \<mapsto> archive_bytes 0 d)"
    using db_archive_add_run [of ext A s c d "buffer_of d"] assms(1,2) buffer_of_run(2,3) [OF lb(2)] lb(3)
    by (auto simp: serves_def)
  let ?s1 = "s\<lparr>env := e\<rparr>"
  have sv: "serves ext A (c + 1, m(c + 1 \<mapsto> d)) ?s1"
    using assms(1-4) e by (auto simp: serves_def)
  have cs: "can_send ?s1 17" using assms(5) by (simp add: can_send_def)
  have w: "writes (put_put_ack \<lparr>pba_file_id = f, pba_block_id = b, pba_archive_id = c + 1\<rparr>) (put_ack_bytes f b (c + 1))"
    using put_ack_wire.put_writes [of "\<lparr>pba_file_id = f, pba_block_id = b, pba_archive_id = c + 1\<rparr>"]
    by (simp add: put_ack_bytes_def)
  obtain s' where s': "send_message (put_put_ack \<lparr>pba_file_id = f, pba_block_id = b, pba_archive_id = c + 1\<rparr>) ?s1
      = Inr ((), s')" "queued ?s1 (frame (put_ack_bytes f b (c + 1))) s'"
    by (rule send_message_run [OF w, of ?s1]) (use cs in simp_all)
  have run: "receive_put_block ext (buffer_of ?bs) s = Inr (0, s')"
    using p e(1) s'(1) by (simp add: receive_put_block_def accept_put_block_def send_put_ack_def)
  have ex: "\<exists>s1. queued s1 (frame (put_ack_bytes f b (c + 1))) s' \<and> ios_write_buf s1 = ios_write_buf s \<and> can_send s1 17"
    by (rule exI [of _ ?s1]) (simp add: s'(2) cs)
  show thesis by (rule that [OF run queued_serves [OF sv s'(2)] ex])
qed

lemma serve_get:
  assumes "serves ext A st s" "can_send s (17 + length (stored_block st ident))"
  obtains s' where "receive_get_block ext (buffer_of (get_block_bytes f b ident)) s = Inr (0, s')"
    "serves ext A st s'" "queued s (frame (get_ack_bytes f b (stored_block st ident))) s'"
proof -
  let ?bs = "get_block_bytes f b ident" and ?gb = "\<lparr>gb_file_id = f, gb_block_id = b, gb_archive_id = ident\<rparr>"
  let ?d = "stored_block st ident"
  have lb: "length ?bs < 2147483648" by simp
  have p: "from_ios get_get_block (buffer_of ?bs) s = Inr (?gb, s)"
    using from_ios_reads [OF buffer_of_run(2) [OF lb]] get_block_wire.get_reads [of ?gb]
    by (simp add: get_block_bytes_def)
  have ld: "length ?d < 2147483648" using assms(2) by (simp add: can_send_def)
  have "\<exists>data. ios_holds ?d data \<and> ios_read_ptr data = 0 \<and> accept_get_block ext ?gb s =
      andthen (send_get_ack \<lparr>gba_file_id = f, gba_block_id = b, gba_ios = Some data\<rparr>) (\<lambda>_. ret 0) s"
  proof (cases "snd st ident")
    case None
    then have d: "?d = []" by (simp add: stored_block_def)
    have "db_archive_fetch ext ident s = Inr (None, s)"
    proof -
      have r: "db_ready ext A kArchive s" "db_view A kArchive s (be32 ident) = None"
        using assms(1) None by (simp_all add: serves_def store_ready_def)
      obtain k where k: "int_key ident = Inr k" "ios_holds (be32 ident) k" by (rule int_key_run)
      have "db_get ext kArchive k ios_new s = Inr (ios_new, s)" by (rule db_get_missing [OF r(1) k(2) r(2)])
      then show ?thesis using k
        by (simp add: db_archive_fetch_def db_archive_from_stream_def from_ios_def ios_buffer_data)
    qed
    then show ?thesis using d by (intro exI [of _ ios_new]) (simp add: accept_get_block_def send_bad_get_ack_def)
  next
    case (Some d)
    have st: "db_ready ext A kArchive s" "db_view A kArchive s (be32 ident) = Some (archive_bytes 0 d)"
      "d \<noteq> []" "length d < 65536" "ident \<noteq> 0"
      using assms(1) Some by (auto simp: serves_def store_ready_def)
    obtain data where "db_archive_fetch ext ident s =
        Inr (Some \<lparr>ar_archive_id = ident, ar_version = 0, ar_ios = Some data\<rparr>, s)" "ios_holds d data"
      "ios_read_ptr data = 0" by (rule db_archive_fetch_run [OF st(1-4)])
    then show ?thesis using st(5) Some
      by (intro exI [of _ data]) (simp add: accept_get_block_def stored_block_def)
  qed
  then obtain data where data: "ios_holds ?d data" "ios_read_ptr data = 0" "accept_get_block ext ?gb s =
      andthen (send_get_ack \<lparr>gba_file_id = f, gba_block_id = b, gba_ios = Some data\<rparr>) (\<lambda>_. ret 0) s" by blast
  obtain s' where s': "send_message (put_get_ack \<lparr>gba_file_id = f, gba_block_id = b, gba_ios = Some data\<rparr>) s
      = Inr ((), s')" "queued s (frame (get_ack_bytes f b ?d)) s'"
    by (rule send_message_run [OF get_ack_writes [OF data(1,2) ld], of s]) (use assms(2) in \<open>simp_all add: add.commute\<close>)
  have "receive_get_block ext (buffer_of ?bs) s = Inr (0, s')"
    using p data(3) s'(1) by (simp add: receive_get_block_def send_get_ack_def)
  then show thesis using queued_serves [OF assms(1) s'(2)] s'(2) by (rule that)
qed


lemma serve_step:
  assumes "serves ext A st s" "request_ok r" "store_step r st = (a, st')" "fst st \<noteq> 0xFFFFFFFF"
    "can_send s (length a + 4 + n)"
  obtains s' where "serve_request ext r s = Inr (0, s')" "serves ext A st' s'" "can_send s' n"
    "ios_data (ios_write_buf s') = ios_data (ios_write_buf s) @ frame a"
proof (cases r)
  case (Put f b d)
  obtain c m where st: "st = (c, m)" by (cases st)
  have c1: "c + 1 \<noteq> 0"
  proof
    assume "c + 1 = 0"
    then have "c = - 1" by (simp add: eq_neg_iff_add_eq_0)
    then show False using assms(4) st by simp
  qed
  have a: "a = put_ack_bytes f b (c + 1)" "st' = (c + 1, m(c + 1 \<mapsto> d))" using assms(3) Put st by auto
  have cs: "can_send s 17" using assms(5) a by (simp add: can_send_def)
  obtain s' s1 where s': "receive_put_block ext (buffer_of (put_block_bytes f b d)) s = Inr (0, s')"
    "serves ext A (c + 1, m(c + 1 \<mapsto> d)) s'" "queued s1 (frame a) s'" "ios_write_buf s1 = ios_write_buf s"
    "can_send s1 17"
  proof (rule serve_put [of ext A c m s d f b])
    show "serves ext A (c, m) s" "c + 1 \<noteq> 0" "d \<noteq> []" "length d < 65536" "can_send s 17"
      using assms(1,2) Put st c1 cs by simp_all
  qed (auto simp: a(1))
  have "can_send s1 (length (frame a) + n)"
    using assms(5) s'(4,5) a by (simp add: can_send_def)
  then show thesis
    using queued_can_send [OF s'(3)] s' Put a(2) by (intro that [of s']) simp_all
next
  case (Get f b ident)
  have a: "a = get_ack_bytes f b (stored_block st ident)" "st' = st" using assms(3) Get by (cases st; simp)+
  have cs: "can_send s (17 + length (stored_block st ident))" using assms(5) a by (simp add: can_send_def)
  obtain s' where s': "receive_get_block ext (buffer_of (get_block_bytes f b ident)) s = Inr (0, s')"
    "serves ext A st s'" "queued s (frame a) s'"
    using serve_get [OF assms(1) cs, of f b] a(1) by auto
  have "can_send s (length (frame a) + n)" using assms(5) by (simp add: add.assoc)
  then show thesis
    using queued_can_send [OF s'(3)] s' Get a(2) by (intro that [of s']) simp_all
qed

lemma serve_refines:
  assumes "serves ext A st s" "list_all request_ok rs" "store_run rs st = (as, st')"
    "unat (fst st) + length rs < 4294967295" "can_send s (length (concat (map frame as)))"
  shows "\<exists>s'. serve ext rs s = Inr ((), s') \<and> serves ext A st' s'
    \<and> ios_data (ios_write_buf s') = ios_data (ios_write_buf s) @ concat (map frame as)"
  using assms
proof (induction rs arbitrary: st s as)
  case Nil
  then show ?case by simp
next
  case (Cons r rs)
  obtain a st1 where r1: "store_step r st = (a, st1)" by (cases "store_step r st") auto
  obtain as' where r2: "store_run rs st1 = (as', st')" "as = a # as'"
    using Cons.prems(3) r1 by (auto split: prod.splits)
  have c: "fst st \<noteq> 0xFFFFFFFF" using Cons.prems(4) by auto
  have cs: "can_send s (length a + 4 + length (concat (map frame as')))"
    using Cons.prems(5) r2(2) by (simp add: add.assoc)
  obtain s1 where s1: "serve_request ext r s = Inr (0, s1)" "serves ext A st1 s1"
    "can_send s1 (length (concat (map frame as')))" "ios_data (ios_write_buf s1) = ios_data (ios_write_buf s) @ frame a"
    using serve_step [OF Cons.prems(1) _ r1 c cs] Cons.prems(2) by auto
  have "unat (fst st1) \<le> unat (fst st) + 1"
    using r1 by (cases r; cases st) (auto simp: unat_word_ariths intro: mod_less_eq_dividend)
  then have "unat (fst st1) + length rs < 4294967295" using Cons.prems(4) by simp
  from Cons.IH [OF s1(2) _ r2(1) this s1(3)] Cons.prems(2) obtain s' where
    "serve ext rs s1 = Inr ((), s')" "serves ext A st' s'"
    "ios_data (ios_write_buf s') = ios_data (ios_write_buf s1) @ concat (map frame as')" by auto
  then show ?case using s1 r2(2) by auto
qed

section \<open>Properties\<close>

text \<open>C2. The server implements a store of blocks: started on any store that its database represents,
  it answers every sequence of well-formed requests with exactly the messages of the abstract store,
  in order: a block is acknowledged with the next identifier, a request for an identifier returns
  the bytes that were stored under it, and a request for one that was never given returns no data.
  Afterwards its database represents the abstract store's new state.\<close>

theorem server_refines_store:
  assumes "serves ext A st s" and "list_all request_ok rs" and "store_run rs st = (answers, st')"
    and "unat (fst st) + length rs < 4294967295" and "can_send s (length (concat (map frame answers)))"
  shows "\<exists>s'. serve ext rs s = Inr ((), s') \<and> serves ext A st' s'
    \<and> ios_data (ios_write_buf s') = ios_data (ios_write_buf s) @ concat (map frame answers)"
  by (rule serve_refines [OF assms])

lemma idle_peer_serves: "serves map_db (\<lambda>e. e) (0, \<lambda>_. None) idle_peer"
  by (simp add: serves_def store_ready_def db_ready_def map_db_works idle_peer_def db_view_def counts_def
      index_db_def int_option_def database_names_def cstr_def)

theorem server_refines_store_witness:
  "\<exists>s'. serve map_db [Put 7 1 [5, 6], Get 7 1 1, Get 7 2 9] idle_peer = Inr ((), s')
    \<and> ios_data (ios_write_buf s') = frame (put_ack_bytes 7 1 1) @ frame (get_ack_bytes 7 1 [5, 6])
        @ frame (get_ack_bytes 7 2 [])"
  using server_refines_store [OF idle_peer_serves, of "[Put 7 1 [5, 6], Get 7 1 1, Get 7 2 9]"
      "[put_ack_bytes 7 1 1, get_ack_bytes 7 1 [5, 6], get_ack_bytes 7 2 []]"]
  by (auto simp: stored_block_def can_send_def idle_peer_def)

lemma andthen_Inl_right: "(\<And>x t. m s = Inr (x, t) \<Longrightarrow> \<exists>e. f x t = Inl e) \<Longrightarrow> \<exists>e. andthen m f s = Inl e"
  by (cases "m s") auto

lemma do_mkdir_ptrs: "do_mkdir p s = Inr (r, s') \<Longrightarrow> database_ptrs s' = database_ptrs s"
  by (auto simp: do_mkdir_def mkdir_def Let_def andthen_def split: if_splits mkdir_ret.splits)

lemma assert_mkdir_ptrs: "assert_mkdir p s = Inr (r, s') \<Longrightarrow> database_ptrs s' = database_ptrs s"
  by (auto simp: assert_mkdir_def require_def split: if_splits prod.splits dest!: do_mkdir_ptrs elim!: andthen_InrE)

lemma archive_dir_name_ptrs: "archive_dir_name s = Inr (r, s') \<Longrightarrow> database_ptrs s' = database_ptrs s"
  by (auto simp: archive_dir_name_def Let_def split: option.splits dest!: assert_mkdir_ptrs elim!: andthen_InrE)

lemma db_name_ptrs: "db_name s = Inr (r, s') \<Longrightarrow> database_ptrs s' = database_ptrs s"
  by (auto simp: db_name_def server_db_name_def client_db_name_def generic_db_name_def split: if_splits
      dest!: assert_mkdir_ptrs archive_dir_name_ptrs elim!: andthen_InrE)

lemma db_open_ptrs:
  "db_open ext db s = Inr (r, s') \<Longrightarrow> db' \<noteq> db \<Longrightarrow> database_ptrs s' db' = database_ptrs s db'"
  by (auto simp: db_open_def open_db_def Let_def split: if_splits prod.splits
      dest!: db_name_ptrs elim!: andthen_InrE)

lemma const_get_int_unopened:
  assumes "const_get_int ext key s = Inr r"
  shows "database_ptrs s kConstants \<noteq> None"
  using assms by (auto simp: const_get_int_def lifted_def db_get_def db_ptr_def rbind_def
      elim!: andthen_InrE split: sum.splits option.splits)

text \<open>A server never accepts a login: for a greeting with an archive identifier it opens its own two
  databases and then looks for the identifier in the database of constants, which it has not opened,
  so that the process stops, whatever the databases contain.\<close>

theorem server_login_stops:
  assumes "database_ptrs s kConstants = None" and "ph_archive_id ph \<noteq> 0"
  shows "\<exists>e. accept_hello ext creates ph s = Inl e"
proof -
  have "\<exists>e. db_open_server_dbs ext (ph_archive_id ph) (ph_archive_pass ph) s = Inl e"
    unfolding db_open_server_dbs_def
    using assms(1)
    by (intro andthen_Inl_right)
       (auto dest!: const_get_int_unopened db_open_ptrs [where db' = kConstants])
  then show ?thesis using assms(2)
    by (cases "ph_message ph") (auto simp: accept_hello_def Let_def)
qed

theorem server_login_stops_witness:
  "\<exists>e. accept_hello map_db (ret ()) (sample_hello\<lparr>ph_archive_id := 7\<rparr>)
     (idle_peer\<lparr>database_ptrs := (\<lambda>_. None), int_option_array := (\<lambda>_. 0)(kOption_server := 1)\<rparr>) = Inl e"
  by (rule server_login_stops) (simp_all add: sample_hello_def)

end
