(* ===== verification/Client.thy ===== *)
theory Client
  imports Server
begin

text \<open>
  The client's half of \<open>protocol.c\<close>: what \<open>receive_put_ack\<close> and \<open>receive_get_ack\<close> do with the work
  tickets.  The warnings that are only printed are not modelled; a handler that returns early after
  one returns early here.

  The properties of these handlers are in \<open>Transfers\<close> (what the counter of a ticket counts, when its
  block list is sent) and \<open>Restore\<close> (what a restored file contains).
\<close>

section \<open>Restoring blocks\<close>

text \<open>\<open>fwrite\<close> on a file that is open for writing; nothing is written when the device refuses.\<close>

definition fwrite_at :: "byte list \<Rightarrow> nat \<Rightarrow> byte list \<Rightarrow> ('e peer, unit) prog" where
  "fwrite_at path pos d = update (\<lambda>s. case fs_nodes (file_sys s) path of
       Some (Regular f) \<Rightarrow> if fs_refuses (file_sys s) path then s
         else s\<lparr>file_sys := (file_sys s)\<lparr>fs_nodes := (fs_nodes (file_sys s))(path \<mapsto>
                Regular (f\<lparr>rf_data := write_at pos d (rf_data f)\<rparr>))\<rparr>\<rparr>
     | _ \<Rightarrow> s)"

text \<open>The block that is installed has its data; a stream for reading refuses the write.\<close>

definition install_block :: "'e external \<Rightarrow> nat \<Rightarrow> dbblock \<Rightarrow> ('e peer, unit) prog" where
  "install_block ext i dbb s = (let wt = ticket_at i s; d = (case bl_data dbb of None \<Rightarrow> [] | Some d \<Rightarrow> d);
        len = unat (bl_length dbb) in
     if length d < len then Inl Segv
     else if \<not> SCsum_cmp (ex_sha1 ext (take len d)) (strong_checksum dbb) then Inr ((), s)
     else case wt_fp wt of None \<Rightarrow> Inl Segv
     | Some fp \<Rightarrow>
       andthen (case fp of
           Writing path _ \<Rightarrow> andthen (fwrite_at path (unat (offset dbb)) (take len d)) (\<lambda>_.
             set_ticket i (wt\<lparr>wt_fp := Some (Writing path (unat (offset dbb) + len))\<rparr>))
         | Reading f \<Rightarrow> ret ()) (\<lambda>_.
       if num_blocks_moved wt = 0 \<and> wt_state wt = wt_AwaitingBlockConfirms
       then wt_remove i else ret ()) s)"

definition accept_get_ack_block :: "'e external \<Rightarrow> nat \<Rightarrow> proto_get_block_ack \<Rightarrow> ('e peer, unit) prog" where
  "accept_get_ack_block ext i gba s = (case gba_ios gba of None \<Rightarrow> Inr ((), s)
     | Some ios \<Rightarrow> if ios_buffer_size ios = 0 then Inr ((), s)
       else rbind (wt_find_block (ticket_at i s) (gba_block_id gba)) (\<lambda>found. case found of
         None \<Rightarrow> Inr ((), s)
       | Some k \<Rightarrow>
           let wt = ticket_at i s; bl = the (wt_block_list wt); dbb = (bl ! k)\<lparr>block_acked := True\<rparr>;
               wt = wt\<lparr>num_blocks_moved := num_blocks_moved wt - 1\<rparr> in
           andthen (unpack ext ios (ucast (bl_length dbb))) (\<lambda>ios2.
             let dbb = dbb\<lparr>bl_data := ios_buffer ios2, bl_length := ucast (ios_buffer_size ios2)\<rparr> in
             andthen (set_ticket i (wt\<lparr>wt_block_list := Some (bl[k := dbb\<lparr>bl_data := None\<rparr>])\<rparr>)) (\<lambda>_.
             install_block ext i dbb)) s))"

section \<open>Block lists\<close>

definition start_archive :: "'e external \<Rightarrow> nat \<Rightarrow> ('e peer, unit) prog" where
  "start_archive ext i s = (let wt = ticket_at i s in
     rbind (wt_assert wt) (\<lambda>_. case (wt_fp wt, wt_summary wt, wt_block_list wt) of
       (Some (Reading fp), Some summary, Some bl) \<Rightarrow>
         andthen (cover_update_remote ext fp summary bl) (\<lambda>(fp, bl).
         andthen (cover_save_local ext bl) (\<lambda>bl.
         andthen (set_ticket i (wt\<lparr>wt_fp := Some (Reading fp), wt_block_list := Some bl,
            wt_state := wt_SendingBlocks, next_block_to_queue := 0\<rparr>)) (\<lambda>_. io_write_reg))) s
     | _ \<Rightarrow> Inl Undef))"

definition start_extract :: "nat \<Rightarrow> ('e peer, unit) prog" where
  "start_extract i s = (let wt = ticket_at i s in
     rbind (wt_assert wt) (\<lambda>_.
     andthen (set_ticket i (wt\<lparr>wt_state := wt_SendingBlockRequests\<rparr>)) (\<lambda>_. io_write_reg) s))"

definition accept_get_ack_block_list :: "'e external \<Rightarrow> nat \<Rightarrow> proto_get_block_ack \<Rightarrow> ('e peer, unit) prog" where
  "accept_get_ack_block_list ext i gba s = (case gba_ios gba of None \<Rightarrow> Inr ((), s)
     | Some ios \<Rightarrow> if ios_buffer_size ios = 0 then Inr ((), s)
       else case wt_summary (ticket_at i s) of None \<Rightarrow> Inl Segv
       | Some summary \<Rightarrow>
           andthen (unpack ext ios (block_list_length summary)) (\<lambda>ios2.
           andthen (from_ios block_list_from_stream ios2) (\<lambda>bl.
           andthen (\<lambda>s. set_ticket i ((ticket_at i s)\<lparr>wt_block_list := Some bl\<rparr>) s) (\<lambda>_ s.
           if int_option kOption_backup s \<noteq> 0 then start_archive ext i s
           else if int_option kOption_extract s \<noteq> 0 then start_extract i s
           else Inl Abort))) s)"

definition accept_get_ack :: "'e external \<Rightarrow> proto_get_block_ack \<Rightarrow> ('e peer, int) prog" where
  "accept_get_ack ext gba = andthen (wt_find (gba_file_id gba)) (\<lambda>i.
     andthen (if gba_block_id gba \<noteq> 0 then accept_get_ack_block ext i gba
              else accept_get_ack_block_list ext i gba) (\<lambda>_. ret 0))"

definition receive_get_ack :: "'e external \<Rightarrow> iosbuf \<Rightarrow> ('e peer, int) prog" where
  "receive_get_ack ext ios = andthen (from_ios get_get_ack ios) (\<lambda>gba.
     andthen (accept_get_ack ext gba) (\<lambda>_. ret 0))"

section \<open>Acknowledged blocks\<close>

text \<open>
  \<open>accept_put_ack\<close> for a block: the counter is decremented, and when it reaches 0 while the ticket
  waits for confirmations, the block list is sent.
\<close>

definition ack_block :: "'e external \<Rightarrow> nat \<Rightarrow> nat \<Rightarrow> u32 \<Rightarrow> ('e peer, unit) prog" where
  "ack_block ext i k archive_id s = (let wt = ticket_at i s; bl = the (wt_block_list wt);
        dbb = (bl ! k)\<lparr>block_acked := True, remote_id := archive_id\<rparr>;
        wt = wt\<lparr>wt_block_list := Some (bl[k := dbb]), num_blocks_moved := num_blocks_moved wt - 1\<rparr> in
     andthen (if num_blocks_moved wt = 0 \<and> wt_state wt = wt_AwaitingBlockConfirms
        then case wt_summary wt of None \<Rightarrow> fail Segv
          | Some summary \<Rightarrow> andthen (send_block_list ext summary (bl[k := dbb])) (\<lambda>summary.
              set_ticket i (wt\<lparr>wt_summary := Some summary, wt_state := wt_AwaitingBlockListConfirm\<rparr>))
        else set_ticket i wt) (\<lambda>_. db_block_add ext dbb) s)"

definition ack_block_list :: "'e external \<Rightarrow> nat \<Rightarrow> u32 \<Rightarrow> ('e peer, unit) prog" where
  "ack_block_list ext i archive_id s = (let wt = ticket_at i s in
     case wt_summary wt of None \<Rightarrow> Inl Abort
     | Some summary \<Rightarrow>
         andthen (set_ticket i (wt\<lparr>wt_summary := Some (summary\<lparr>block_list_remote_id := archive_id\<rparr>)\<rparr>)) (\<lambda>_.
         andthen (wt_finish ext i) (\<lambda>_ s.
         if \<not> wt_more s \<and> \<not> wt_more_to_come s then send_bye plain_bye s else Inr ((), s))) s)"

definition accept_put_ack :: "'e external \<Rightarrow> proto_put_block_ack \<Rightarrow> ('e peer, int) prog" where
  "accept_put_ack ext pba = andthen (wt_find (pba_file_id pba)) (\<lambda>i s.
     if wt_action (ticket_at i s) \<noteq> wt_Archive then Inl Abort
     else if pba_block_id pba \<noteq> 0 then
       rbind (wt_find_block (ticket_at i s) (pba_block_id pba)) (\<lambda>found. case found of
         None \<Rightarrow> Inr (1, s)
       | Some k \<Rightarrow> andthen (ack_block ext i k (pba_archive_id pba)) (\<lambda>_. ret 0) s)
     else andthen (ack_block_list ext i (pba_archive_id pba)) (\<lambda>_. ret 0) s)"

definition receive_put_ack :: "'e external \<Rightarrow> iosbuf \<Rightarrow> ('e peer, int) prog" where
  "receive_put_ack ext ios = andthen (from_ios get_put_ack ios) (\<lambda>pba.
     andthen (accept_put_ack ext pba) (\<lambda>_. ret 0))"

end
