(* ===== verification/Archive.thy ===== *)
theory Archive
  imports Client
begin

text \<open>
  \<open>archive.c\<close> and \<open>extract.c\<close>: what a client does once it is logged in.  The walk of \<open>ftw\<close> is a
  parameter: the files and directories it visits, in its order, and how it classifies each.  What
  the event loop does while \<open>cycle_main_loop\<close> gives it control is the parameter \<open>cycle\<close>; the
  theory \<open>Event_Loop\<close> has the handlers that it consists of.

  The walks are used by \<open>Event_Loop\<close> and \<open>Commands\<close>; what they leave alone is shown in \<open>Frame\<close>.
\<close>

section \<open>Archiving\<close>

datatype ftw_flag = FTW_F | FTW_D | FTW_DNR | FTW_NS | FTW_SL

text \<open>
  \<open>open_if_changed\<close>: the stream when the file has to be archived, and the summary with the new
  checksum.  The preference is only asked for when size and time are unchanged.
\<close>

definition summary_changed :: "regular_file \<Rightarrow> dbsummary \<Rightarrow> bool" where
  "summary_changed sb dbs \<longleftrightarrow> of_nat (length (rf_data sb)) \<noteq> file_length dbs \<or> rf_mtime sb \<noteq> mod_time dbs"

definition open_and_compare :: "'e external \<Rightarrow> byte list \<Rightarrow> dbsummary \<Rightarrow> ('e peer, (cfile \<times> dbsummary) option) prog" where
  "open_and_compare ext file dbs s = (case file_stat file s of None \<Rightarrow> Inl (Exit 1)
     | Some f \<Rightarrow> rbind (SCsum_file (ex_sha1 ext) (fopen_r (rf_data f))) (\<lambda>(hash, fp).
         if take 20 hash = take 20 (file_sha1 dbs) then Inr (None, s)
         else Inr (Some (fp, dbs\<lparr>file_sha1 := hash\<rparr>), s)))"

definition open_if_changed :: "'e external \<Rightarrow> byte list \<Rightarrow> regular_file \<Rightarrow> dbsummary \<Rightarrow> bool
    \<Rightarrow> ('e peer, (cfile \<times> dbsummary) option) prog" where
  "open_if_changed ext file sb dbs open_anyway =
     (if summary_changed sb dbs \<or> open_anyway then open_and_compare ext file dbs
      else andthen (pref_get_int_value_silent_default ext PREF_ALWAYS_COMPARE_HASH (cstr ''1'')) (\<lambda>always.
           if always \<noteq> 0 then open_and_compare ext file dbs else ret None))"

text \<open>The file record and the summary that the archive has, or new ones; whether they are new.\<close>

definition find_or_add_file :: "'e external \<Rightarrow> byte list \<Rightarrow> regular_file
    \<Rightarrow> ('e peer, dbfile \<times> dbsummary \<times> bool) prog" where
  "find_or_add_file ext file sb = andthen (db_filename_fetch ext file) (\<lambda>r. case r of
       None \<Rightarrow> andthen (db_filename_add ext file) (\<lambda>dbf.
          andthen (db_summary_new ext dbf sb) (\<lambda>dbs. ret (dbf, dbs, True)))
     | Some dbf \<Rightarrow> andthen (db_summary_fetch_last ext (dbf_file_id dbf)) (\<lambda>r. case r of
          None \<Rightarrow> andthen (db_summary_new ext dbf sb) (\<lambda>dbs. ret (dbf, dbs, True))
        | Some dbs \<Rightarrow> ret (dbf, dbs, False)))"

definition archive_file :: "'e external \<Rightarrow> ('e peer, unit) prog \<Rightarrow> byte list \<Rightarrow> regular_file
    \<Rightarrow> ('e peer, int) prog" where
  "archive_file ext cycle file sb = andthen (find_or_add_file ext file sb) (\<lambda>(dbf, dbs, new_file).
     andthen (open_if_changed ext file sb dbs new_file) (\<lambda>r. case r of None \<Rightarrow> ret 0
     | Some (fp, dbs) \<Rightarrow> andthen (state (\<lambda>s. ex_time ext (env s))) (\<lambda>now.
         let dbs = dbs\<lparr>summary_time := now, mod_time := rf_mtime sb,
               file_length := of_nat (length (rf_data sb)), inode_number := rf_inode sb,
               permissions := rf_mode sb\<rparr>;
             wt = new_work_ticket\<lparr>wt_dbf := Some dbf, wt_summary := Some dbs, wt_fp := Some (Reading fp),
               wt_block_list := Some [], wt_action := wt_Archive\<rparr> in
         andthen (if new_file
            then andthen (cover_update_remote ext fp dbs []) (\<lambda>(fp, bl).
                 andthen (cover_save_local ext bl) (\<lambda>bl.
                 ret (wt\<lparr>wt_fp := Some (Reading fp), wt_block_list := Some bl, wt_state := wt_SendingBlocks\<rparr>)))
            else andthen (request_block_list wt) (\<lambda>_. ret (wt\<lparr>wt_state := wt_AwaitingBlockList\<rparr>))) (\<lambda>wt.
         andthen (wt_insert wt) (\<lambda>_. andthen cycle (\<lambda>_. ret 0))))))"

definition archive_dir :: "byte list \<Rightarrow> ('e peer, int) prog" where
  "archive_dir file = ret 0"

text \<open>\<open>while(wt_queue_full()) cycle_main_loop();\<close>\<close>

partial_function (option) wait_for_room :: "('e peer, unit) prog \<Rightarrow> 'e peer \<Rightarrow> (unit \<times> 'e peer) result option" where
  "wait_for_room cycle s = (if wt_queue_full s
     then case cycle s of Inl e \<Rightarrow> Some (Inl e) | Inr (_, s') \<Rightarrow> wait_for_room cycle s'
     else Some (Inr ((), s)))"

definition loop :: "('s \<Rightarrow> ('a \<times> 's) result option) \<Rightarrow> ('s, 'a) prog" where
  "loop f s = (case f s of None \<Rightarrow> Inl Hang | Some r \<Rightarrow> r)"

definition archive_it :: "'e external \<Rightarrow> ('e peer, unit) prog \<Rightarrow> byte list \<Rightarrow> regular_file \<Rightarrow> ftw_flag
    \<Rightarrow> ('e peer, int) prog" where
  "archive_it ext cycle file sb flag = andthen (loop (wait_for_room cycle)) (\<lambda>_.
     andthen (case flag of FTW_F \<Rightarrow> archive_file ext cycle file sb
        | FTW_D \<Rightarrow> archive_dir file | FTW_DNR \<Rightarrow> ret 0 | FTW_NS \<Rightarrow> ret 0 | FTW_SL \<Rightarrow> ret 0) (\<lambda>r.
     andthen (state is_main_loop_running) (\<lambda>running. ret (if \<not> running then 1 else r))))"

text \<open>\<open>ftw\<close> calls back for each entry until a call returns non-zero.\<close>

type_synonym 'e walk = "byte list \<Rightarrow> 'e peer \<Rightarrow> (byte list \<times> regular_file \<times> ftw_flag) list"

fun ftw :: "'e external \<Rightarrow> ('e peer, unit) prog \<Rightarrow> (byte list \<times> regular_file \<times> ftw_flag) list
    \<Rightarrow> ('e peer, unit) prog" where
  "ftw ext cycle [] = ret ()"
| "ftw ext cycle ((file, sb, flag) # es) = andthen (archive_it ext cycle file sb flag) (\<lambda>r.
     if r \<noteq> 0 then ret () else ftw ext cycle es)"

text \<open>\<open>g_strsplit(s, " ", 0)\<close>: the parts between spaces; none of the empty string.\<close>

fun split_at_spaces :: "byte list \<Rightarrow> byte list \<Rightarrow> byte list list" where
  "split_at_spaces acc [] = [acc]"
| "split_at_spaces acc (c # cs) = (if c = of_char CHR '' '' then acc # split_at_spaces [] cs
     else split_at_spaces (acc @ [c]) cs)"

definition g_strsplit :: "byte list \<Rightarrow> byte list list" where
  "g_strsplit str = (if str = [] then [] else split_at_spaces [] str)"

primrec archive_each :: "'e external \<Rightarrow> 'e walk \<Rightarrow> ('e peer, unit) prog \<Rightarrow> byte list list \<Rightarrow> ('e peer, unit) prog" where
  "archive_each ext walk cycle [] = ret ()"
| "archive_each ext walk cycle (p # ps) = andthen (\<lambda>s. ftw ext cycle (walk p s) s) (\<lambda>_.
     archive_each ext walk cycle ps)"

text \<open>\<open>pref_get_value\<close> never returns NULL, so that the first test of \<open>do_archive\<close> is never true.\<close>

definition do_archive :: "'e external \<Rightarrow> 'e walk \<Rightarrow> ('e peer, unit) prog \<Rightarrow> ('e peer, int) prog" where
  "do_archive ext walk cycle = andthen (wt_working 1) (\<lambda>_.
     andthen (pref_get_value ext PREF_TO_ARCHIVE) (\<lambda>to_archive.
     andthen (archive_each ext walk cycle (g_strsplit to_archive)) (\<lambda>_.
     andthen (wt_working 0) (\<lambda>_.
     andthen (\<lambda>s. if \<not> wt_more s then send_bye plain_bye s else Inr ((), s)) (\<lambda>_. ret 0)))))"

section \<open>Extracting\<close>

text \<open>\<open>fopen(path, "w")\<close> truncates or creates the file; \<open>None\<close> when the device refuses.\<close>

definition fopen_w :: "byte list \<Rightarrow> ('e peer, stream option) prog" where
  "fopen_w path s = (if fs_refuses (file_sys s) path \<or> fs_nodes (file_sys s) path = Some Directory
     then Inr (None, s)
     else let f = (case fs_nodes (file_sys s) path of Some (Regular f) \<Rightarrow> f\<lparr>rf_data := []\<rparr>
            | _ \<Rightarrow> \<lparr>rf_data = [], rf_mtime = 0, rf_inode = 0, rf_mode = 0\<rparr>) in
       Inr (Some (Writing path 0), s\<lparr>file_sys := (file_sys s)\<lparr>fs_nodes :=
         (fs_nodes (file_sys s))(path \<mapsto> Regular f)\<rparr>\<rparr>))"

definition recovered_file :: "byte list" where
  "recovered_file = cstr ''the-recovered-file''"

definition extract_file :: "dbfile \<Rightarrow> dbsummary \<Rightarrow> ('e peer, int) prog" where
  "extract_file dbf dbs = andthen (fopen_w recovered_file) (\<lambda>fp.
     andthen (require (fp \<noteq> None)) (\<lambda>_.
     let wt = new_work_ticket\<lparr>wt_dbf := Some dbf, wt_summary := Some dbs, wt_fp := fp,
          wt_block_list := Some [], wt_action := wt_Extract\<rparr> in
     andthen (request_block_list wt) (\<lambda>_.
     andthen (wt_insert (wt\<lparr>wt_state := wt_AwaitingBlockList\<rparr>)) (\<lambda>_. ret 0))))"

text \<open>\<open>strncmp(name, file, strlen(file)) == 0\<close>\<close>

definition name_matches :: "pointer \<Rightarrow> dbfile \<Rightarrow> bool" where
  "name_matches file dbf = (case (file, dbf_filename dbf) of (None, _) \<Rightarrow> True
     | (Some f, Some n) \<Rightarrow> take (length f) n = f | (Some f, None) \<Rightarrow> f = [])"

partial_function (option) extract_loop ::
    "'e external \<Rightarrow> ('e peer, unit) prog \<Rightarrow> pointer \<Rightarrow> nat \<Rightarrow> 'e peer \<Rightarrow> (unit \<times> 'e peer) result option" where
  "extract_loop ext cycle file curs s = (case db_filename_curs_next ext curs s of
       Inl e \<Rightarrow> Some (Inl e)
     | Inr (r, s) \<Rightarrow> (case r of None \<Rightarrow> Some (Inr ((), s))
         | Some dbf \<Rightarrow>
             (case andthen (if name_matches file dbf
                 then andthen (db_summary_fetch_last ext (dbf_file_id dbf)) (\<lambda>dbs. case dbs of
                      None \<Rightarrow> ret 0 | Some dbs \<Rightarrow> extract_file dbf dbs)
                 else ret 0) (\<lambda>_. cycle) s of
               Inl e \<Rightarrow> Some (Inl e)
             | Inr (_, s) \<Rightarrow> extract_loop ext cycle file curs s)))"

definition extract_it :: "'e external \<Rightarrow> ('e peer, unit) prog \<Rightarrow> pointer \<Rightarrow> ('e peer, int) prog" where
  "extract_it ext cycle file = andthen (db_filename_curs_begin ext) (\<lambda>curs.
     andthen (loop (extract_loop ext cycle file curs)) (\<lambda>_. ret 0))"

primrec extract_each :: "'e external \<Rightarrow> ('e peer, unit) prog \<Rightarrow> byte list list \<Rightarrow> ('e peer, unit) prog" where
  "extract_each ext cycle [] = ret ()"
| "extract_each ext cycle (f # fs) = andthen (extract_it ext cycle (Some f)) (\<lambda>_. extract_each ext cycle fs)"

text \<open>\<open>g_args\<close> are the file arguments of the command line.\<close>

definition do_extract :: "'e external \<Rightarrow> ('e peer, unit) prog \<Rightarrow> byte list list \<Rightarrow> ('e peer, int) prog" where
  "do_extract ext cycle g_args = andthen (if g_args = [] then andthen (extract_it ext cycle None) (\<lambda>_. ret ())
        else extract_each ext cycle g_args) (\<lambda>_.
     andthen (\<lambda>s. if \<not> wt_more s then send_bye plain_bye s else Inr ((), s)) (\<lambda>_. ret 0))"

end
