(* ===== verification/Frame.thy ===== *)
theory Frame
  imports Archive
begin

text \<open>
  What the operations leave alone.  A frame is a part of the process that no operation of the
  databases, the cryptography, the connection and the work list writes; \<open>stays f s r\<close> says that a
  run from \<open>s\<close> that ends, ends with the same value of \<open>f\<close>.  The rules follow the program
  combinators, so that the lemma of an operation follows from those of the operations it calls.

  The options and the read buffer are such a frame.
\<close>

definition stays :: "('s \<Rightarrow> 'f) \<Rightarrow> 's \<Rightarrow> ('a \<times> 's) result \<Rightarrow> bool" where
  "stays f s r \<longleftrightarrow> (\<forall>x s'. r = Inr (x, s') \<longrightarrow> f s' = f s)"

named_theorems frame_rules \<open>an operation leaves a frame alone\<close>

lemma staysD: "stays f s (m s) \<Longrightarrow> m s = Inr (x, s') \<Longrightarrow> f s' = f s"
  by (auto simp: stays_def)

lemma stays_Inl [simp]: "stays f s (Inl e)"
  by (simp add: stays_def)

lemma stays_Inr [simp]: "stays f s (Inr (x, s')) \<longleftrightarrow> f s' = f s"
  by (simp add: stays_def)

lemma stays_andthen [frame_rules]:
  "stays f s (m s) \<Longrightarrow> (\<And>x t. stays f t (k x t)) \<Longrightarrow> stays f s (andthen m k s)"
  by (cases "m s") (auto simp: stays_def)

lemma stays_rbind [frame_rules]: "(\<And>x. stays f s (k x)) \<Longrightarrow> stays f s (rbind r k)"
  by (cases r) simp_all

lemma stays_lifted [frame_rules]: "stays f s (lifted r s)"
  by (cases r) (simp_all add: lifted_def)

lemma stays_from_ios [frame_rules]: "stays f s (from_ios m ios s)"
  by (cases "m ios") (auto simp: from_ios_def)

lemma stays_require [frame_rules]: "stays f s (require b s)"
  by (cases b) simp_all

lemma stays_trans: "f t = f s \<Longrightarrow> stays f t r \<Longrightarrow> stays f s r"
  by (simp add: stays_def)

locale undisturbed =
  fixes f :: "'e peer \<Rightarrow> 'f"
  assumes env [simp]: "f (s\<lparr>env := e\<rparr>) = f s"
    and file_sys [simp]: "f (s\<lparr>file_sys := x1\<rparr>) = f s"
    and archive_dir_cache [simp]: "f (s\<lparr>archive_dir_cache := x2\<rparr>) = f s"
    and database_ptrs [simp]: "f (s\<lparr>database_ptrs := x3\<rparr>) = f s"
    and chan_out [simp]: "f (s\<lparr>chan_out := x4\<rparr>) = f s"
    and ios_write_buf [simp]: "f (s\<lparr>ios_write_buf := x5\<rparr>) = f s"
    and cover_block_length [simp]: "f (s\<lparr>cover_block_length := x10\<rparr>) = f s"
    and checksum_hash [simp]: "f (s\<lparr>checksum_hash := x11\<rparr>) = f s"
begin

subsection \<open>Databases\<close>

lemma mkdir [frame_rules]: "stays f s (mkdir p s)"
  by (simp add: mkdir_def Let_def)

lemma do_mkdir [frame_rules]: "stays f s (do_mkdir p s)"
  by (auto simp: do_mkdir_def Let_def intro!: frame_rules split: mkdir_ret.split)

lemma assert_mkdir [frame_rules]: "stays f s (assert_mkdir p s)"
  by (auto simp: assert_mkdir_def intro!: frame_rules split: prod.split)

lemma archive_dir_name [frame_rules]: "stays f s (archive_dir_name s)"
  by (auto simp: archive_dir_name_def Let_def intro!: frame_rules split: option.split)

lemma db_name [frame_rules]: "stays f s (db_name s)"
  by (auto simp: db_name_def server_db_name_def client_db_name_def generic_db_name_def intro!: frame_rules)

lemma db_open [frame_rules]: "stays f s (db_open ext db s)"
  by (auto simp: db_open_def open_db_def Let_def intro!: frame_rules split: prod.split)

lemma db_open_client_dbs [frame_rules]: "stays f s (db_open_client_dbs ext s)"
  by (auto simp: db_open_client_dbs_def intro!: frame_rules)

lemma db_ptr [frame_rules]: "stays f s (db_ptr db s)"
  by (simp add: db_ptr_def split: option.split)

lemma db_put [frame_rules]: "stays f s (db_put ext db k d s)"
  by (auto simp: db_put_def intro!: frame_rules split: prod.split)

lemma db_get [frame_rules]: "stays f s (db_get ext db k d s)"
  by (auto simp: db_get_def intro!: frame_rules split: prod.split db_ret.split)

lemma db_get_next_index [frame_rules]: "stays f s (db_get_next_index ext db s)"
  by (auto simp: db_get_next_index_def intro!: frame_rules split: prod.split)

lemma db_curs_begin [frame_rules]: "stays f s (db_curs_begin ext db s)"
  by (auto simp: db_curs_begin_def intro!: frame_rules split: prod.split)

lemma db_curs_end [frame_rules]: "stays f s (db_curs_end ext c s)"
  by (auto simp: db_curs_end_def split: prod.split)

lemma db_curs_next [frame_rules]: "stays f s (db_curs_next ext c k d s)"
proof -
  have "stays f s (andthen (db_curs_end ext c) (\<lambda>_. ret None) (s\<lparr>env := e\<rparr>))" for e
    by (rule stays_trans [of f "s\<lparr>env := e\<rparr>"]) (auto intro!: frame_rules)
  then show ?thesis
    by (auto simp: db_curs_next_def intro!: stays_rbind split: prod.split db_ret.split)
qed

subsection \<open>Stores\<close>

lemma const_put_string [frame_rules]: "stays f s (const_put_string ext k v s)"
  by (auto simp: const_put_string_def intro!: frame_rules)

lemma const_get_string [frame_rules]: "stays f s (const_get_string ext k s)"
  by (auto simp: const_get_string_def intro!: frame_rules)

lemma const_put_int [frame_rules]: "stays f s (const_put_int ext k w s)"
  by (auto simp: const_put_int_def intro!: frame_rules)

lemma const_get_int [frame_rules]: "stays f s (const_get_int ext k s)"
  by (auto simp: const_get_int_def intro!: frame_rules)

lemma pref_get_value [frame_rules]: "stays f s (pref_get_value ext k s)"
  by (auto simp: pref_get_value_def intro!: frame_rules)

lemma pref_get_int_value_silent_default [frame_rules]:
  "stays f s (pref_get_int_value_silent_default ext k d s)"
  by (auto simp: pref_get_int_value_silent_default_def intro!: frame_rules)

lemma db_open_server_dbs [frame_rules]: "stays f s (db_open_server_dbs ext i p s)"
  by (auto simp: db_open_server_dbs_def intro!: frame_rules)

lemma db_filename_add [frame_rules]: "stays f s (db_filename_add ext n s)"
  by (auto simp: db_filename_add_def Let_def intro!: frame_rules)

lemma db_filename_fetch [frame_rules]: "stays f s (db_filename_fetch ext n s)"
  by (auto simp: db_filename_fetch_def intro!: frame_rules)

lemma db_filename_curs [frame_rules]:
  "stays f s (db_filename_curs_begin ext s)" "stays f s (db_filename_curs_next ext c s)"
  by (auto simp: db_filename_curs_begin_def db_filename_curs_next_def Let_def intro!: frame_rules
      split: option.split prod.split)

lemma db_summary_add [frame_rules]: "stays f s (db_summary_add ext a s)"
  by (auto simp: db_summary_add_def Let_def intro!: frame_rules)

lemma db_summary_fetch_last [frame_rules]: "stays f s (db_summary_fetch_last ext i s)"
  by (auto simp: db_summary_fetch_last_def db_summary_fetch_def intro!: frame_rules)

lemma db_summary_new [frame_rules]: "stays f s (db_summary_new ext dbf sb s)"
  by (auto simp: db_summary_new_def intro!: frame_rules)

lemma db_block_add [frame_rules]: "stays f s (db_block_add ext b s)"
  by (auto simp: db_block_add_def intro!: frame_rules)

lemma db_archive_add [frame_rules]: "stays f s (db_archive_add ext a s)"
  by (auto simp: db_archive_add_def intro!: frame_rules split: option.split)

lemma db_archive_fetch [frame_rules]: "stays f s (db_archive_fetch ext i s)"
  by (auto simp: db_archive_fetch_def intro!: frame_rules)

subsection \<open>Sending and the work list\<close>

lemma pack [frame_rules]: "stays f s (pack ext ios s)"
  by (auto simp: pack_def encrypt_def yarrow_read_def intro!: frame_rules split: option.split prod.split)

lemma unpack [frame_rules]: "stays f s (unpack ext ios n s)"
  by (auto simp: unpack_def decrypt_def Let_def intro!: frame_rules split: option.split prod.split)

lemma io_write_reg [frame_rules]: "stays f s (io_write_reg s)"
  by (simp add: io_write_reg_def split: option.split)

lemma on_write_buf [frame_rules]: "stays f s (on_write_buf m s)"
  by (auto simp: on_write_buf_def intro!: frame_rules split: prod.split)

lemma io_send_ios [frame_rules]: "stays f s (io_send_ios ios s)"
  by (auto simp: io_send_ios_def io_write_buf_def intro!: frame_rules)

lemma send_message [frame_rules]: "stays f s (send_message m s)"
  by (auto simp: send_message_def intro!: frame_rules)

lemma send_get_block [frame_rules]: "stays f s (send_get_block g s)"
  by (auto simp: send_get_block_def intro!: frame_rules)

lemma send_plain [frame_rules]: "stays f s (send_hello_ack ha s)" "stays f s (send_put_block pb s)"
    "stays f s (send_put_ack pba s)" "stays f s (send_get_ack gba s)"
  by (auto simp: send_hello_ack_def send_put_block_def send_put_ack_def send_get_ack_def intro!: frame_rules)

lemma wt_find [frame_rules]: "stays f s (wt_find i s)"
  by (auto simp: wt_find_def intro!: frame_rules split: option.split)

subsection \<open>Tickets\<close>

lemma cover_update_remote [frame_rules]: "stays f s (cover_update_remote ext fp sm bl s)"
  by (auto simp: cover_update_remote_def cover_reuse_def cover_static_length_def pref_block_length_def
      intro!: frame_rules split: prod.split)

lemma cover_save_block [frame_rules]: "stays f s (cover_save_block ext b s)"
  by (auto simp: cover_save_block_def Let_def intro!: frame_rules)

lemma cover_save_local [frame_rules]: "stays f s (cover_save_local ext bl s)"
  by (induction bl arbitrary: s) (auto intro!: frame_rules)

lemma request_block_list [frame_rules]: "stays f s (request_block_list wt s)"
  by (auto simp: request_block_list_def intro!: frame_rules split: option.split)

lemma send_block_list [frame_rules]: "stays f s (send_block_list ext sm bl s)"
  by (auto simp: send_block_list_def Let_def intro!: frame_rules)

lemma wt_send_next [frame_rules]: "stays f s (wt_send_next ext wt s)"
  by (auto simp: wt_send_next_def wt_send_block_def Let_def intro!: frame_rules
      split: option.split stream.split prod.split)

lemma wt_send_loop [frame_rules]: "stays f s (wt_send_loop ext wt s)"
proof (induction ext wt s rule: wt_send_loop.induct)
  case (1 ext wt s)
  show ?case
  proof (cases "wt_send_next ext wt s")
    case (Inl e)
    then show ?thesis by (subst wt_send_loop.simps) simp
  next
    case (Inr r)
    obtain wt' s' where r: "r = (wt', s')" by fastforce
    have "f s' = f s" by (rule staysD [OF wt_send_next]) (use Inr r in simp)
    then show ?thesis
      using 1 Inr r by (subst wt_send_loop.simps) (auto intro: stays_trans)
  qed
qed

lemma wt_request_next [frame_rules]: "stays f s (wt_request_next wt s)"
  by (auto simp: wt_request_next_def Let_def intro!: frame_rules split: option.split)

lemma wt_request_loop [frame_rules]: "stays f s (wt_request_loop wt s)"
proof (induction wt s rule: wt_request_loop.induct)
  case (1 wt s)
  show ?case
  proof (cases "wt_request_next wt s")
    case (Inl e)
    then show ?thesis by (subst wt_request_loop.simps) simp
  next
    case (Inr r)
    obtain wt' s' where r: "r = (wt', s')" by fastforce
    have "f s' = f s" by (rule staysD [OF wt_request_next]) (use Inr r in simp)
    then show ?thesis
      using 1 Inr r by (subst wt_request_loop.simps) (auto intro: stays_trans)
  qed
qed

end

text \<open>What changes the work list.\<close>

locale undisturbed_by_tickets = undisturbed f for f :: "'e peer \<Rightarrow> 'f" +
  assumes work_list [simp]: "f (s\<lparr>work_list := wts\<rparr>) = f s"
begin

lemma work_list_ops [frame_rules]: "stays f s (set_ticket i wt s)" "stays f s (wt_remove i s)"
  by (simp_all add: set_ticket_def wt_remove_def)

lemma wt_insert [frame_rules]: "stays f s (wt_insert wt s)"
  by (auto simp: wt_insert_def io_write_buf_def simp del: andthen_Inr intro!: frame_rules)

lemma wt_finish [frame_rules]: "stays f s (wt_finish ext i s)"
  by (auto simp: wt_finish_def intro!: frame_rules split: option.split)

lemma wt_do_work [frame_rules]: "stays f s (wt_do_work ext i s)"
  by (auto simp: wt_do_work_def wt_send_blocks_def wt_send_block_requests_def intro!: frame_rules
      split: wt_status.split)

lemma wt_process_queue [frame_rules]: "stays f s (wt_process_queue ext s)"
proof -
  have "stays f s (wt_work_on ext is s)" for "is" and s
    by (induction "is" arbitrary: s) (auto intro!: frame_rules)
  then show ?thesis by (simp add: wt_process_queue_def)
qed

subsection \<open>Handlers\<close>

lemma receive_put_block [frame_rules]: "stays f s (receive_put_block ext ios s)"
  by (auto simp: receive_put_block_def accept_put_block_def intro!: frame_rules)

lemma receive_get_block [frame_rules]: "stays f s (receive_get_block ext ios s)"
  by (auto simp: receive_get_block_def accept_get_block_def send_bad_get_ack_def intro!: frame_rules
      split: option.split)

lemma install_block [frame_rules]: "stays f s (install_block ext i dbb s)"
proof -
  have "stays f s (fwrite_at path pos d s)" for path pos d s
    by (auto simp: fwrite_at_def split: option.split node.split)
  then show ?thesis
    by (auto simp: install_block_def Let_def intro!: frame_rules split: option.split stream.split)
qed

lemma start_archive [frame_rules]: "stays f s (start_archive ext i s)"
  by (auto simp: start_archive_def Let_def intro!: frame_rules split: option.split stream.split)

lemma start_extract [frame_rules]: "stays f s (start_extract i s)"
  by (auto simp: start_extract_def Let_def simp del: andthen_Inr intro!: frame_rules)

lemma receive_get_ack [frame_rules]: "stays f s (receive_get_ack ext ios s)"
  by (auto simp: receive_get_ack_def accept_get_ack_def accept_get_ack_block_def
      accept_get_ack_block_list_def Let_def intro!: frame_rules split: option.split)

subsection \<open>Archiving\<close>

lemma find_or_add_file [frame_rules]: "stays f s (find_or_add_file ext file sb s)"
  by (auto simp: find_or_add_file_def intro!: frame_rules split: option.split)

lemma open_if_changed [frame_rules]: "stays f s (open_if_changed ext file sb dbs b s)"
  by (auto simp: open_if_changed_def open_and_compare_def intro!: frame_rules split: option.split prod.split)

lemma archive_file:
  "(\<And>s. stays f s (cycle s)) \<Longrightarrow> stays f s (archive_file ext cycle file sb s)"
  by (auto simp: archive_file_def Let_def intro!: frame_rules split: option.split prod.split)

lemma extract_file [frame_rules]: "stays f s (extract_file dbf dbs s)"
  by (auto simp: extract_file_def fopen_w_def Let_def intro!: frame_rules split: option.split)

end

text \<open>A goodbye and the end of the main loop also write the flags of the connection.\<close>

locale closing_undisturbed = undisturbed_by_tickets f for f :: "'e peer \<Rightarrow> 'f" +
  assumes ignore_input [simp]: "f (s\<lparr>ignore_input := b1\<rparr>) = f s"
    and ignore_output [simp]: "f (s\<lparr>ignore_output := b2\<rparr>) = f s"
    and main_loop_running [simp]: "f (s\<lparr>main_loop_running := b3\<rparr>) = f s"
    and more_work [simp]: "f (s\<lparr>more_work := n\<rparr>) = f s"
begin

lemma send_bye [frame_rules]: "stays f s (send_bye b s)"
  by (auto simp: send_bye_def io_no_more_input_def io_no_more_output_def intro!: frame_rules)

lemma quit_main_loop [frame_rules]: "stays f s (quit_main_loop s)"
  by (simp add: quit_main_loop_def)

lemma receive_hello [frame_rules]:
  "(\<And>s. stays f s (creates s)) \<Longrightarrow> stays f s (receive_hello ext creates ios s)"
  by (auto simp: receive_hello_def accept_hello_def Let_def intro!: frame_rules)

lemma receive_bye [frame_rules]: "stays f s (receive_bye ios s)"
  by (auto simp: receive_bye_def intro!: frame_rules)

lemma receive_put_ack [frame_rules]: "stays f s (receive_put_ack ext ios s)"
  by (auto simp: receive_put_ack_def accept_put_ack_def ack_block_def ack_block_list_def Let_def
      intro!: frame_rules split: option.split)

lemma wt_working [frame_rules]: "stays f s (wt_working n s)"
  by (simp add: wt_working_def)

lemma wait_for_room:
  assumes "\<And>s. stays f s (cycle s)" and "wait_for_room cycle s = Some r"
  shows "stays f s r"
proof -
  have "(\<forall>s. stays f s (cycle s)) \<longrightarrow> stays f s r"
  proof (rule wait_for_room.raw_induct [where P = "\<lambda>cycle s r. (\<forall>s. stays f s (cycle s)) \<longrightarrow> stays f s r",
        OF _ assms(2)], rule impI)
  fix w cycle s r
  assume IH: "\<And>cycle s r. w cycle s = Some r \<Longrightarrow> (\<forall>s. stays f s (cycle s)) \<longrightarrow> stays f s r"
    and eq: "(if wt_queue_full s then case cycle s of Inl e \<Rightarrow> Some (Inl e) | Inr (x, s') \<Rightarrow> w cycle s'
       else Some (Inr ((), s))) = Some r"
    and c': "\<forall>s. stays f s (cycle s)"
  have c: "stays f s (cycle s)" for s using c' by simp
  show "stays f s r"
  proof (cases "wt_queue_full s \<and> (\<exists>y. cycle s = Inr y)")
    case True
    then obtain x s' where s': "cycle s = Inr (x, s')" "wt_queue_full s" by auto
    have "stays f s' r" using IH [of cycle s' r] c eq s' by simp
    then show ?thesis using staysD [where m = cycle, OF c s'(1)] by (simp add: stays_def)
  next
    case False
    then show ?thesis using eq by (cases "cycle s") (auto split: if_splits)
  qed
qed
  then show ?thesis using assms(1) by simp
qed

lemma loop: "(\<And>r. g s = Some r \<Longrightarrow> stays f s r) \<Longrightarrow> stays f s (loop g s)"
  by (cases "g s") (simp_all add: loop_def)

lemma archive_it:
  "(\<And>s. stays f s (cycle s)) \<Longrightarrow> stays f s (archive_it ext cycle file sb flag s)"
  by (auto simp: archive_it_def archive_dir_def intro!: frame_rules loop archive_file intro: wait_for_room
      split: ftw_flag.split)

lemma ftw: "(\<And>s. stays f s (cycle s)) \<Longrightarrow> stays f s (ftw ext cycle es s)"
  by (induction ext cycle es arbitrary: s rule: ftw.induct) (auto intro!: frame_rules archive_it)

lemma do_archive:
  assumes "\<And>s. stays f s (cycle s)"
  shows "stays f s (do_archive ext walk cycle s)"
proof -
  have "stays f s (archive_each ext walk cycle ps s)" for ps s
    by (induction ps arbitrary: s) (auto intro!: frame_rules ftw assms)
  then show ?thesis by (auto simp: do_archive_def intro!: frame_rules)
qed

lemma extract_loop:
  assumes "\<And>s. stays f s (cycle s)" and "extract_loop ext cycle nm curs s = Some r"
  shows "stays f s r"
proof -
  have "(\<forall>s. stays f s (cycle s)) \<longrightarrow> stays f s r"
  proof (rule extract_loop.raw_induct [where P = "\<lambda>ext cycle nm curs s r. (\<forall>s. stays f s (cycle s)) \<longrightarrow> stays f s r",
        OF _ assms(2)], rule impI)
  fix w and ext :: "'e external" and cycle nm curs s r
  let ?body = "\<lambda>dbf. andthen (if name_matches nm dbf
        then andthen (db_summary_fetch_last ext (dbf_file_id dbf)) (\<lambda>dbs. case dbs of
             None \<Rightarrow> ret 0 | Some dbs \<Rightarrow> extract_file dbf dbs)
        else ret 0) (\<lambda>_. cycle)"
  assume IH: "\<And>ext cycle nm curs s r. w ext cycle nm curs s = Some r
       \<Longrightarrow> (\<forall>s. stays f s (cycle s)) \<longrightarrow> stays f s r"
    and eq: "(case db_filename_curs_next ext curs s of Inl e \<Rightarrow> Some (Inl e)
      | Inr (n, s) \<Rightarrow> (case n of None \<Rightarrow> Some (Inr ((), s))
         | Some dbf \<Rightarrow> (case ?body dbf s of Inl e \<Rightarrow> Some (Inl e)
             | Inr (_, s) \<Rightarrow> w ext cycle nm curs s))) = Some r"
    and c': "\<forall>s. stays f s (cycle s)"
  have c: "stays f s (cycle s)" for s using c' by simp
  have body: "stays f t (?body dbf t)" for dbf t
    by (auto intro!: frame_rules c split: option.split)
  show "stays f s r"
  proof (cases "db_filename_curs_next ext curs s")
    case (Inr y)
    obtain n t where t: "db_filename_curs_next ext curs s = Inr (n, t)" using Inr by (cases y) simp
    have ft: "f t = f s" by (rule staysD [where m = "db_filename_curs_next ext curs", OF db_filename_curs(2) t])
    show ?thesis
    proof (cases n)
      case (Some dbf)
      show ?thesis
      proof (cases "?body dbf t")
        case (Inr z)
        obtain u t' where t': "?body dbf t = Inr (u, t')" using Inr by (cases z) simp
        have "stays f t' r" using IH [of ext cycle nm curs t' r] c eq t t' Some by simp
        then show ?thesis using staysD [where m = "?body dbf", OF body t'] ft by (simp add: stays_def)
      qed (use eq t Some in auto)
    qed (use eq t ft in auto)
  qed (use eq in auto)
qed
  then show ?thesis using assms(1) by simp
qed

lemma do_extract:
  assumes "\<And>s. stays f s (cycle s)"
  shows "stays f s (do_extract ext cycle args s)"
proof -
  have it: "stays f s (extract_it ext cycle nm s)" for nm s
    by (auto simp: extract_it_def intro!: frame_rules loop dest!: extract_loop [OF assms])
  have "stays f s (extract_each ext cycle fs s)" for fs s
    by (induction fs arbitrary: s) (auto intro!: frame_rules it)
  then show ?thesis by (auto simp: do_extract_def intro!: frame_rules it)
qed

end

text \<open>What only the work on tickets changes.\<close>

interpretation tickets: undisturbed work_list
  by unfold_locales simp_all

text \<open>What only a goodbye changes.\<close>

interpretation flags: undisturbed_by_tickets "\<lambda>s. (ignore_input s, ignore_output s, main_loop_running s, more_work s)"
  by unfold_locales simp_all

text \<open>What nothing changes: the options and the bytes that have been read.\<close>

interpretation role: closing_undisturbed "\<lambda>s. (int_option_array s, ios_read_buf s)"
  by unfold_locales simp_all

end
