(* ===== verification/Event_Loop.thy ===== *)
theory Event_Loop
  imports Frame
begin

text \<open>
  The event loop: the client's answer to a login, the dispatcher of \<open>protocol.c\<close>, the two handlers
  of \<open>io.c\<close> that GLib calls, and the parts of \<open>main.c\<close> that start a process.

  GLib's loop is not part of the repository.  What it does is a sequence of events: a descriptor is
  ready and its handler runs to its end (the handlers are never interrupted, but \<open>do_archive\<close> and
  \<open>do_extract\<close> let the loop run inside of them).  So one step of a process is one event, and the
  relation \<open>step\<close> says which steps there are.

  What is shown: every step leaves the options alone and only the input handler adds to
  the read buffer; the dispatcher of a server always returns.
\<close>

section \<open>The answer to a login\<close>

text \<open>
  What the code uses that is not in the repository or that is not C: the branch of \<open>accept_hello\<close>
  that creates an archive, the undeclared variable \<open>ph\<close> of \<open>do_accept_hello_ack\<close>, the stack under the
  local variable of \<open>receive_hello_ack\<close>, the files that \<open>ftw\<close> finds, what the loop does inside of
  \<open>cycle_main_loop\<close>, and the arguments of the command line.
\<close>

record 'e ambient =
  am_creates :: "('e peer, unit) prog"
  am_ph_archive_id :: u32
  am_stack :: u32
  am_walk :: "'e walk"
  am_cycle :: "('e peer, unit) prog"
  am_args :: "byte list list"

definition record_archive :: "'e external \<Rightarrow> 'e ambient \<Rightarrow> ('e peer, unit) prog" where
  "record_archive ext am = andthen (const_get_int ext PREF_MUST_CREATE) (\<lambda>must.
     if must = 0 then ret ()
     else andthen (const_put_int ext PREF_MUST_CREATE 0) (\<lambda>_.
          const_put_int ext PREF_ARCHIVE_ID (am_ph_archive_id am)))"

definition do_accept_hello_ack :: "'e external \<Rightarrow> 'e ambient \<Rightarrow> proto_hello_ack \<Rightarrow> ('e peer, unit) prog" where
  "do_accept_hello_ack ext am pha = andthen (require (pha_archive_id pha \<noteq> 0)) (\<lambda>_.
     andthen (record_archive ext am) (\<lambda>_ s.
     if int_option kOption_backup s \<noteq> 0 then
       andthen (do_archive ext (am_walk am) (am_cycle am)) (\<lambda>_. ret ()) s
     else if int_option kOption_extract s \<noteq> 0 then
       andthen (do_extract ext (am_cycle am) (am_args am)) (\<lambda>_. ret ()) s
     else if int_option kOption_create s \<noteq> 0 then
       andthen (const_put_int ext PREF_ARCHIVE_ID (pha_archive_id pha)) (\<lambda>_. send_bye plain_bye) s
     else Inr ((), s)))"

text \<open>Every answer but \<open>phe_OK\<close> is only reported.\<close>

definition accept_hello_ack :: "'e external \<Rightarrow> 'e ambient \<Rightarrow> proto_hello_ack \<Rightarrow> ('e peer, int) prog" where
  "accept_hello_ack ext am pha s = andthen (require (pha_message pha \<noteq> None)) (\<lambda>_.
     andthen (require (int_option kOption_server s = 0)) (\<lambda>_.
     if int_option kOption_ping s \<noteq> 0 \<or> int_option kOption_self_test s \<noteq> 0 then ret 0
     else if pha_error pha = phe_OK then andthen (do_accept_hello_ack ext am pha) (\<lambda>_. ret 0)
     else ret 0)) s"

definition receive_hello_ack :: "'e external \<Rightarrow> 'e ambient \<Rightarrow> iosbuf \<Rightarrow> ('e peer, int) prog" where
  "receive_hello_ack ext am ios = andthen (from_ios (get_hello_ack (am_stack am)) ios) (accept_hello_ack ext am)"

section \<open>The dispatcher\<close>

definition on_read_buf :: "(iosbuf, 'a) prog \<Rightarrow> ('e peer, 'a) prog" where
  "on_read_buf m s = rbind (m (ios_read_buf s)) (\<lambda>(x, ios). Inr (x, s\<lparr>ios_read_buf := ios\<rparr>))"

definition dispatch_packet :: "'e external \<Rightarrow> 'e ambient \<Rightarrow> iosbuf \<Rightarrow> byte \<Rightarrow> ('e peer, int) prog" where
  "dispatch_packet ext am packet cmd =
     (if cmd = command_byte cmd_Hello then receive_hello ext (am_creates am) packet
      else if cmd = command_byte cmd_HelloAck then receive_hello_ack ext am packet
      else if cmd = command_byte cmd_Bye then receive_bye packet
      else if cmd = command_byte cmd_PutBlock then receive_put_block ext packet
      else if cmd = command_byte cmd_PutBlockAck then receive_put_ack ext packet
      else if cmd = command_byte cmd_GetBlock then receive_get_block ext packet
      else if cmd = command_byte cmd_GetBlockAck then receive_get_ack ext packet
      else ret (-2))"

definition read_and_dispatch_one_command :: "'e external \<Rightarrow> 'e ambient \<Rightarrow> ('e peer, int) prog" where
  "read_and_dispatch_one_command ext am = andthen (on_read_buf next_packet) (\<lambda>p. case p of
       None \<Rightarrow> ret 1
     | Some packet \<Rightarrow> andthen (lifted (packet_command packet)) (dispatch_packet ext am packet))"

text \<open>
  The test for a negative result is inside of a loop whose condition is that the result is 0, so
  that it is never true: the function returns 0 whatever the result was.
\<close>

partial_function (option) dispatch_loop ::
    "'e external \<Rightarrow> 'e ambient \<Rightarrow> 'e peer \<Rightarrow> (unit \<times> 'e peer) result option" where
  "dispatch_loop ext am s = (case read_and_dispatch_one_command ext am s of
       Inl e \<Rightarrow> Some (Inl e)
     | Inr (r, s') \<Rightarrow> if r = 0 then dispatch_loop ext am s' else Some (Inr ((), s')))"

definition read_and_dispatch_commands :: "'e external \<Rightarrow> 'e ambient \<Rightarrow> ('e peer, int) prog" where
  "read_and_dispatch_commands ext am = andthen (loop (dispatch_loop ext am)) (\<lambda>_. ret 0)"

section \<open>The handlers\<close>

text \<open>
  A condition of GLib is ready, or an error: hang-up, invalid descriptor.  What the operating system
  does is an argument: the bytes that it delivers, or how many bytes it would take (\<open>None\<close> when it
  fails); a write takes no more than it was given.
  A handler returns whether it stays registered.
\<close>

definition io_output_handler :: "'e external \<Rightarrow> bool \<Rightarrow> nat option \<Rightarrow> ('e peer, bool) prog" where
  "io_output_handler ext err written s =
     (if err then andthen quit_main_loop (\<lambda>_. ret False) s
      else andthen (if ios_buffer_size (ios_write_buf s) = 0 then wt_process_queue ext else ret ()) (\<lambda>_ s.
        if ios_buffer_size (ios_write_buf s) = 0 then
          andthen (if ignore_output s then quit_main_loop else ret ()) (\<lambda>_. ret False) s
        else case written of None \<Rightarrow> Inr (False, s)
          | Some n \<Rightarrow> andthen (on_write_buf (ios_read (of_nat (min n (unat (ios_buffer_size (ios_write_buf s))))))) (\<lambda>p.
              andthen (require (p \<noteq> None)) (\<lambda>_. ret True)) s) s)"

definition io_input_handler :: "'e external \<Rightarrow> 'e ambient \<Rightarrow> bool \<Rightarrow> byte list \<Rightarrow> ('e peer, bool) prog" where
  "io_input_handler ext am err buf s =
     (if ignore_input s then Inr (False, s)
      else if err then andthen quit_main_loop (\<lambda>_. ret False) s
      else andthen (on_read_buf (ios_append (Some buf) (of_nat (length buf)))) (\<lambda>_.
           andthen (read_and_dispatch_commands ext am) (\<lambda>r. ret (r = 0))) s)"

section \<open>Events\<close>

datatype event = Input bool "byte list" | Output bool "nat option"

text \<open>
  When an event can happen: the input descriptor is watched from the start, the output descriptor
  while its handler is registered.  A read delivers at most \<open>BUF_SIZE\<close> bytes.  A handler that returns
  0 is deregistered; for the input handler that is the same as ignoring all input.
\<close>

definition BUF_SIZE :: nat where "BUF_SIZE = 8196"

fun event_ok :: "event \<Rightarrow> 'e peer \<Rightarrow> bool" where
  "event_ok (Input err buf) s \<longleftrightarrow> length buf \<le> BUF_SIZE"
| "event_ok (Output err written) s \<longleftrightarrow> chan_out s = Some True"

fun handle :: "'e external \<Rightarrow> 'e ambient \<Rightarrow> event \<Rightarrow> ('e peer, unit) prog" where
  "handle ext am (Input err buf) = andthen (io_input_handler ext am err buf) (\<lambda>stays s.
     if stays then Inr ((), s) else Inr ((), s\<lparr>ignore_input := True\<rparr>))"
| "handle ext am (Output err written) = andthen (io_output_handler ext err written) (\<lambda>stays s.
     if stays then Inr ((), s) else Inr ((), s\<lparr>chan_out := Some False\<rparr>))"

text \<open>A process runs while its main loop has not been told to quit.\<close>

inductive step :: "'e external \<Rightarrow> 'e ambient \<Rightarrow> 'e peer \<Rightarrow> event \<Rightarrow> 'e peer \<Rightarrow> bool" for ext am where
  step_event: "main_loop_running s \<Longrightarrow> event_ok ev s \<Longrightarrow> handle ext am ev s = Inr ((), s') \<Longrightarrow> step ext am s ev s'"

inductive runs :: "'e external \<Rightarrow> 'e ambient \<Rightarrow> 'e peer \<Rightarrow> event list \<Rightarrow> 'e peer \<Rightarrow> bool" for ext am where
  runs_done: "runs ext am s [] s"
| runs_step: "step ext am s ev s1 \<Longrightarrow> runs ext am s1 evs s2 \<Longrightarrow> runs ext am s (ev # evs) s2"

inductive_cases stepE [elim!]: "step ext am s ev s'"
inductive_cases runs_NilE [elim!]: "runs ext am s [] s'"
inductive_cases runs_ConsE [elim!]: "runs ext am s (ev # evs) s'"

text \<open>
  \<open>run_main_loop\<close> on the events that the operating system has to offer, in order: an event that
  cannot happen is passed over, and nothing is handled after the loop was told to quit.  No process
  runs two loops, so the loop is always new.
\<close>

fun run_events :: "'e external \<Rightarrow> 'e ambient \<Rightarrow> event list \<Rightarrow> ('e peer, unit) prog" where
  "run_events ext am [] s = Inr ((), s)"
| "run_events ext am (ev # evs) s =
     (if \<not> main_loop_running s then Inr ((), s)
      else if \<not> event_ok ev s then run_events ext am evs s
      else andthen (handle ext am ev) (\<lambda>_. run_events ext am evs) s)"

definition run_main_loop :: "'e external \<Rightarrow> 'e ambient \<Rightarrow> event list \<Rightarrow> ('e peer, unit) prog" where
  "run_main_loop ext am evs = andthen (update (\<lambda>s. s\<lparr>main_loop_running := True\<rparr>)) (\<lambda>_. run_events ext am evs)"

lemma run_events_runs:
  "run_events ext am evs s = Inr ((), s') \<Longrightarrow> \<exists>evs'. runs ext am s evs' s'"
proof (induction evs arbitrary: s)
  case Nil
  then show ?case by (auto intro: runs_done)
next
  case (Cons ev evs)
  show ?case
  proof (cases "main_loop_running s \<and> event_ok ev s")
    case True
    then obtain s1 where s1: "handle ext am ev s = Inr ((), s1)" "run_events ext am evs s1 = Inr ((), s')"
      using Cons.prems by (auto elim: andthen_InrE)
    have "step ext am s ev s1" using True s1(1) by (intro step_event) simp_all
    then show ?thesis using Cons.IH [OF s1(2)] runs_step by metis
  next
    case False
    then show ?thesis using Cons by (auto intro: runs_done split: if_splits)
  qed
qed

text \<open>\<open>cycle_main_loop\<close>: up to three iterations, each with the event that is ready, if any.\<close>

fun handle_events :: "'e external \<Rightarrow> 'e ambient \<Rightarrow> event list \<Rightarrow> ('e peer, unit) prog" where
  "handle_events ext am [] = ret ()"
| "handle_events ext am (ev # evs) = andthen (handle ext am ev) (\<lambda>_. handle_events ext am evs)"

definition cycle_main_loop :: "'e external \<Rightarrow> 'e ambient \<Rightarrow> event list \<Rightarrow> ('e peer, unit) prog" where
  "cycle_main_loop ext am ready = handle_events ext am (take 3 ready)"

section \<open>The dispatcher returns\<close>

text \<open>Taking a packet off the buffer leaves less in it, whatever the buffer holds.\<close>

lemma ios_read_size:
  assumes "ios_read n ios = Inr (p, ios')"
  shows "ios_len ios' = ios_len ios" and "p \<noteq> None \<Longrightarrow> ios_buffer_size ios' = ios_buffer_size ios - n"
  using assms by (auto simp: ios_read_def ios_buffer_size_def split: if_splits)

lemma ios_read_int32_size:
  assumes "ios_read_int32 ios = Inr (n, ios')"
  shows "ios_len ios' = ios_len ios" and "ios_buffer_size ios' = ios_buffer_size ios - 4"
  using assms by (auto simp: ios_read_int32_def ios_buffer_size_def Let_def split: if_splits)

lemma ios_int32_at_0_read:
  assumes "ios_int32_at ios 0 = Inr len" "ios_read_int32 ios = Inr (n, ios')"
  shows "n = len"
  using assms by (auto simp: ios_int32_at_def ios_read_int32_def ios_buffer_def ios_at_def Let_def
      split: if_splits option.splits)

lemma on_new_set_buffer_None: "n \<noteq> 0 \<Longrightarrow> on_new (ios_set_buffer None n) = Inr p \<Longrightarrow> False"
  by (auto simp: on_new_def ios_set_buffer_def ios_append_def andthen_def split: if_splits)

lemma next_packet_Some:
  assumes "next_packet ios = Inr (Some p, ios')"
  shows "ios_len ios' = ios_len ios" and "unat (ios_buffer_size ios') < unat (ios_buffer_size ios)"
proof -
  obtain len n i q where r: "\<not> ios_buffer_size ios < 5" "ios_int32_at ios 0 = Inr len"
      "\<not> len > ios_buffer_size ios - 4" "ios_read_int32 ios = Inr (n, i)" "n \<noteq> 0"
      "ios_read n i = Inr (q, ios')" "on_new (ios_set_buffer q n) = Inr p"
    using assms unfolding next_packet_def require_def
    by (auto split: if_splits elim!: rbind_InrE andthen_InrE)
  note four = ios_read_int32_size [OF r(4)]
  have q: "q \<noteq> None" using on_new_set_buffer_None [OF r(5)] r(7) by (cases q) auto
  show "ios_len ios' = ios_len ios" using four(1) ios_read_size(1) [OF r(6)] by simp
  have "ios_buffer_size ios' = ios_buffer_size ios - 4 - n"
    using four(2) ios_read_size(2) [OF r(6) q] by simp
  moreover have "n \<le> ios_buffer_size ios - 4" using r(3) ios_int32_at_0_read [OF r(2,4)] by simp
  moreover have "4 \<le> ios_buffer_size ios" using r(1) by (simp add: word_le_nat_alt word_less_nat_alt)
  ultimately show "unat (ios_buffer_size ios') < unat (ios_buffer_size ios)"
    by (simp add: unat_sub word_le_nat_alt)
qed

lemma next_packet_None: "next_packet ios = Inr (None, ios') \<Longrightarrow> ios' = ios"
  unfolding next_packet_def require_def by (auto split: if_splits elim!: rbind_InrE andthen_InrE)

text \<open>No handler of a server looks at the read buffer.\<close>

lemma server_hello_ack:
  assumes "int_option kOption_server s \<noteq> 0"
  shows "\<exists>e. receive_hello_ack ext am ios s = Inl e"
proof -
  have "\<exists>e. accept_hello_ack ext am pha s = Inl e" for pha
    using assms by (cases "pha_message pha") (simp_all add: accept_hello_ack_def)
  then show ?thesis
    by (cases "get_hello_ack (am_stack am) ios") (auto simp: receive_hello_ack_def from_ios_def)
qed

definition quiet_creates :: "'e ambient \<Rightarrow> bool" where
  "quiet_creates am \<longleftrightarrow> (\<forall>s. stays (\<lambda>s. (int_option_array s, ios_read_buf s)) s (am_creates am s))"

lemma server_dispatch_packet:
  assumes "int_option kOption_server s \<noteq> 0" "quiet_creates am"
  shows "stays (\<lambda>s. (int_option_array s, ios_read_buf s)) s (dispatch_packet ext am packet cmd s)"
proof -
  obtain e where "receive_hello_ack ext am packet s = Inl e"
    using server_hello_ack [OF assms(1)] by blast
  then have "stays (\<lambda>s. (int_option_array s, ios_read_buf s)) s (receive_hello_ack ext am packet s)"
    by simp
  then show ?thesis
    using assms(2) unfolding dispatch_packet_def quiet_creates_def
    by (auto intro!: frame_rules)
qed

lemma server_dispatch_one:
  assumes "int_option kOption_server s \<noteq> 0" "quiet_creates am"
    and "read_and_dispatch_one_command ext am s = Inr (0, s')"
  shows "int_option kOption_server s' \<noteq> 0"
    and "unat (ios_buffer_size (ios_read_buf s')) < unat (ios_buffer_size (ios_read_buf s))"
proof -
  obtain p i where p: "next_packet (ios_read_buf s) = Inr (p, i)"
      "(case p of None \<Rightarrow> ret 1 | Some packet \<Rightarrow> andthen (lifted (packet_command packet))
         (dispatch_packet ext am packet)) (s\<lparr>ios_read_buf := i\<rparr>) = Inr (0, s')"
    using assms(3) by (auto simp: read_and_dispatch_one_command_def on_read_buf_def elim!: andthen_InrE rbind_InrE)
  obtain packet where packet: "p = Some packet" using p(2) by (cases p) auto
  obtain cmd where "dispatch_packet ext am packet cmd (s\<lparr>ios_read_buf := i\<rparr>) = Inr (0, s')"
    using p(2) packet by (auto simp: lifted_def elim!: andthen_InrE rbind_InrE)
  moreover have "int_option kOption_server (s\<lparr>ios_read_buf := i\<rparr>) \<noteq> 0"
    using assms(1) by (simp add: int_option_def)
  ultimately have "int_option_array s' = int_option_array s" "ios_read_buf s' = i"
    using server_dispatch_packet [OF _ assms(2)] unfolding stays_def by fastforce+
  then show "int_option kOption_server s' \<noteq> 0"
    and "unat (ios_buffer_size (ios_read_buf s')) < unat (ios_buffer_size (ios_read_buf s))"
    using assms(1) next_packet_Some(2) p(1) packet by (simp_all add: int_option_def)
qed

lemma dispatch_loop_returns:
  assumes "int_option kOption_server s \<noteq> 0" "quiet_creates am"
  shows "\<exists>r. dispatch_loop ext am s = Some r"
  using assms
proof (induction "unat (ios_buffer_size (ios_read_buf s))" arbitrary: s rule: less_induct)
  case less
  show ?case
  proof (cases "\<exists>s'. read_and_dispatch_one_command ext am s = Inr (0, s')")
    case True
    then obtain s' where s': "read_and_dispatch_one_command ext am s = Inr (0, s')" by blast
    obtain r where "dispatch_loop ext am s' = Some r"
      using less(1) [OF server_dispatch_one(2) server_dispatch_one(1)] less(2,3) s' by blast
    then show ?thesis using s' by (subst dispatch_loop.simps) simp
  next
    case False
    then show ?thesis by (subst dispatch_loop.simps) (auto split: sum.split)
  qed
qed

section \<open>A server on a stream of bytes\<close>

definition read_room :: "'e peer \<Rightarrow> nat \<Rightarrow> bool" where
  "read_room s n \<longleftrightarrow> ios_ok (ios_read_buf s) \<and> unat (ios_len (ios_read_buf s)) + n < 2147483648"

lemma packet_command_buffer_of:
  assumes "length (b # bs) < 2147483648"
  shows "packet_command (buffer_of (b # bs)) = Inr b"
proof -
  have "ios_buffer (buffer_of (b # bs)) = Some (b # bs)"
    using buffer_of_run(2) [OF assms] by (auto simp: ios_holds_def ios_buffer_data)
  then show ?thesis by (simp add: packet_command_def ios_buffer_def)
qed

lemma request_bytes_fit: "request_ok r \<Longrightarrow> length (request_bytes r) < 2147483648 \<and> request_bytes r \<noteq> []"
  by (cases r) (auto simp: put_block_bytes_def get_block_bytes_def)

lemma dispatch_request:
  assumes "request_ok r"
  shows "\<exists>cmd. packet_command (buffer_of (request_bytes r)) = Inr cmd
    \<and> dispatch_packet ext am (buffer_of (request_bytes r)) cmd = serve_request ext r"
proof (cases r)
  case (Put f b d)
  then show ?thesis using packet_command_buffer_of [of "command_byte cmd_PutBlock"
        "be32 f @ be32 b @ be32 (of_nat (length d)) @ d"] assms
    by (intro exI [of _ "command_byte cmd_PutBlock"])
       (auto simp: put_block_bytes_def dispatch_packet_def fun_eq_iff)
next
  case (Get f b ident)
  then show ?thesis using packet_command_buffer_of [of "command_byte cmd_GetBlock" "be32 f @ be32 b @ be32 ident"]
    by (intro exI [of _ "command_byte cmd_GetBlock"])
       (auto simp: get_block_bytes_def dispatch_packet_def fun_eq_iff)
qed

lemma serve_request_frames:
  assumes "serve_request ext r s = Inr (x, s')"
  shows "ios_read_buf s' = ios_read_buf s" and "ignore_input s' = ignore_input s \<and> main_loop_running s' = main_loop_running s"
proof -
  have "stays (\<lambda>s. (int_option_array s, ios_read_buf s)) s (serve_request ext r s)"
    and "stays (\<lambda>s. (ignore_input s, ignore_output s, main_loop_running s, more_work s)) s (serve_request ext r s)"
    by (cases r; auto intro: frame_rules)+
  then show "ios_read_buf s' = ios_read_buf s"
    "ignore_input s' = ignore_input s \<and> main_loop_running s' = main_loop_running s"
    using assms by (auto simp: stays_def)
qed

text \<open>One whole request at the front of the read buffer is served and taken off.\<close>

lemma dispatch_one_request:
  assumes "serves ext A st s" "request_ok r" "store_step r st = (a, st')" "fst st \<noteq> 0xFFFFFFFF"
    "can_send s (length a + 4 + n)" "ios_ok (ios_read_buf s)"
    "ios_data (ios_read_buf s) = frame (request_bytes r) @ rest"
  obtains s' where "read_and_dispatch_one_command ext am s = Inr (0, s')" "serves ext A st' s'"
    "can_send s' n" "ios_data (ios_write_buf s') = ios_data (ios_write_buf s) @ frame a"
    "ios_ok (ios_read_buf s')" "ios_data (ios_read_buf s') = rest"
    "ios_len (ios_read_buf s') = ios_len (ios_read_buf s)"
    "ignore_input s' = ignore_input s \<and> main_loop_running s' = main_loop_running s"
proof -
  obtain i where i: "next_packet (ios_read_buf s) = Inr (Some (buffer_of (request_bytes r)), i)"
      "ios_ok i" "ios_data i = rest"
    by (rule next_packet_frame [OF assms(6,7)]) (use request_bytes_fit [OF assms(2)] in auto)
  let ?s = "s\<lparr>ios_read_buf := i\<rparr>"
  have "serves ext A st ?s" by (rule serves_cong [OF assms(1)]) simp_all
  moreover have "can_send ?s (length a + 4 + n)" using assms(5) by (simp add: can_send_def)
  ultimately obtain s' where s': "serve_request ext r ?s = Inr (0, s')" "serves ext A st' s'" "can_send s' n"
      "ios_data (ios_write_buf s') = ios_data (ios_write_buf ?s) @ frame a"
    by (rule serve_step [OF _ assms(2,3,4)])
  obtain cmd where "packet_command (buffer_of (request_bytes r)) = Inr cmd"
      "dispatch_packet ext am (buffer_of (request_bytes r)) cmd = serve_request ext r"
    using dispatch_request [OF assms(2)] by blast
  then have "read_and_dispatch_one_command ext am s = Inr (0, s')"
    using i(1) s'(1) by (simp add: read_and_dispatch_one_command_def on_read_buf_def)
  then show thesis
    using s' i serve_request_frames [OF s'(1)] next_packet_Some(1) [OF i(1)] by (intro that [of s']) simp_all
qed

lemma store_step_count: "store_step r st = (a, st') \<Longrightarrow> unat (fst st') \<le> unat (fst st) + 1"
  by (cases r; cases st) (auto simp: unat_word_ariths intro: mod_less_eq_dividend)

text \<open>All the whole requests are served; an incomplete one waits.\<close>

lemma dispatch_requests:
  assumes "serves ext A st s" "list_all request_ok rs" "store_run rs st = (as, st')"
    "unat (fst st) + length rs < 4294967295" "can_send s (length (concat (map frame as)) + n)"
    "ios_ok (ios_read_buf s)" "ios_data (ios_read_buf s) = concat (map (\<lambda>r. frame (request_bytes r)) rs) @ part"
    "prefix part (frame nxt)" "part \<noteq> frame nxt" "length nxt < 2147483648"
  shows "\<exists>s'. dispatch_loop ext am s = Some (Inr ((), s')) \<and> serves ext A st' s' \<and> can_send s' n
    \<and> ios_data (ios_write_buf s') = ios_data (ios_write_buf s) @ concat (map frame as)
    \<and> ios_ok (ios_read_buf s') \<and> ios_data (ios_read_buf s') = part
    \<and> ios_len (ios_read_buf s') = ios_len (ios_read_buf s)
    \<and> ignore_input s' = ignore_input s \<and> main_loop_running s' = main_loop_running s"
  using assms(1-7)
proof (induction rs arbitrary: st s as)
  case Nil
  have "next_packet (ios_read_buf s) = Inr (None, ios_read_buf s)"
    by (rule next_packet_partial [where d = nxt]) (use Nil assms(8-10) in auto)
  then have "read_and_dispatch_one_command ext am s = Inr (1, s)"
    by (simp add: read_and_dispatch_one_command_def on_read_buf_def)
  then show ?case using Nil by (subst dispatch_loop.simps) auto
next
  case (Cons r rs)
  obtain a st1 where r1: "store_step r st = (a, st1)" by (cases "store_step r st") auto
  obtain as' where r2: "store_run rs st1 = (as', st')" "as = a # as'"
    using Cons.prems(3) r1 by (auto split: prod.splits)
  have c: "fst st \<noteq> 0xFFFFFFFF" using Cons.prems(4) by auto
  have cs: "can_send s (length a + 4 + (length (concat (map frame as')) + n))"
    using Cons.prems(5) r2(2) by (simp add: add.assoc)
  have rd: "ios_data (ios_read_buf s) = frame (request_bytes r) @ concat (map (\<lambda>r. frame (request_bytes r)) rs) @ part"
    using Cons.prems(7) by simp
  obtain s1 where s1: "read_and_dispatch_one_command ext am s = Inr (0, s1)" "serves ext A st1 s1"
    "can_send s1 (length (concat (map frame as')) + n)"
    "ios_data (ios_write_buf s1) = ios_data (ios_write_buf s) @ frame a"
    "ios_ok (ios_read_buf s1)" "ios_data (ios_read_buf s1) = concat (map (\<lambda>r. frame (request_bytes r)) rs) @ part"
    "ios_len (ios_read_buf s1) = ios_len (ios_read_buf s)"
    "ignore_input s1 = ignore_input s \<and> main_loop_running s1 = main_loop_running s"
    by (rule dispatch_one_request [OF Cons.prems(1) _ r1 c cs Cons.prems(6) rd]) (use Cons.prems(2) in simp)
  have "unat (fst st1) + length rs < 4294967295"
    using Cons.prems(4) store_step_count [OF r1] by simp
  from Cons.IH [OF s1(2) _ r2(1) this s1(3,5,6)] Cons.prems(2) s1 r2(2)
  show ?case by (subst dispatch_loop.simps) auto
qed

text \<open>What has been delivered of a stream of requests: whole requests, and a part of the next.\<close>

definition waiting :: "byte list \<Rightarrow> request list \<Rightarrow> bool" where
  "waiting part rs = (case rs of [] \<Rightarrow> part = []
     | r # _ \<Rightarrow> prefix part (frame (request_bytes r)) \<and> part \<noteq> frame (request_bytes r))"

lemma stream_split:
  assumes "xs @ ys = concat (map (\<lambda>r. frame (request_bytes r)) rs)"
  shows "\<exists>ps qs part. rs = ps @ qs \<and> xs = concat (map (\<lambda>r. frame (request_bytes r)) ps) @ part
    \<and> part @ ys = concat (map (\<lambda>r. frame (request_bytes r)) qs) \<and> waiting part qs"
  using assms
proof (induction rs arbitrary: xs)
  case Nil
  then show ?case by (auto simp: waiting_def)
next
  case (Cons r rs)
  let ?f = "frame (request_bytes r)"
  show ?case
  proof (cases "length xs < length ?f")
    case True
    have "take (length xs) (xs @ ys) = take (length xs) ?f" using Cons.prems True by simp
    then have "prefix xs ?f" by (metis append_take_drop_id append_eq_conv_conj prefix_def take_append take_all_iff order_refl)
    then have "waiting xs (r # rs)" using True by (auto simp: waiting_def)
    then show ?thesis using Cons.prems by (intro exI [of _ "[]"] exI [of _ "r # rs"] exI [of _ xs]) simp
  next
    case False
    have "take (length ?f) (xs @ ys) = ?f" using Cons.prems by simp
    then have "take (length ?f) xs = ?f" using False by simp
    then obtain zs where zs: "xs = ?f @ zs" by (metis append_take_drop_id)
    then have "zs @ ys = concat (map (\<lambda>r. frame (request_bytes r)) rs)" using Cons.prems by simp
    then obtain ps qs part where "rs = ps @ qs" "zs = concat (map (\<lambda>r. frame (request_bytes r)) ps) @ part"
      "part @ ys = concat (map (\<lambda>r. frame (request_bytes r)) qs)" "waiting part qs"
      using Cons.IH by blast
    then show ?thesis using zs by (intro exI [of _ "r # ps"] exI [of _ qs] exI [of _ part]) simp
  qed
qed

lemma store_run_append:
  "store_run (ps @ qs) st = (case store_run ps st of (as, st1) \<Rightarrow>
     case store_run qs st1 of (bs, st2) \<Rightarrow> (as @ bs, st2))"
  by (induction ps arbitrary: st) (auto split: prod.splits)

lemma store_run_count: "store_run rs st = (as, st') \<Longrightarrow> unat (fst st') \<le> unat (fst st) + length rs"
proof (induction rs arbitrary: st as)
  case (Cons r rs)
  obtain a st1 where r1: "store_step r st = (a, st1)" by (cases "store_step r st") auto
  then obtain bs where "store_run rs st1 = (bs, st')" using Cons.prems by (auto split: prod.splits)
  then show ?case using Cons.IH store_step_count [OF r1] by fastforce
qed simp

text \<open>One delivery: the requests that it completes are served.\<close>

lemma deliver_chunk:
  assumes "serves ext A st s" "\<not> ignore_input s" "read_room s (length c)" "ios_data (ios_read_buf s) = part"
    "part @ c = concat (map (\<lambda>r. frame (request_bytes r)) ps) @ part'" "waiting part' qs"
    "list_all request_ok (ps @ qs)" "store_run ps st = (as, st')" "unat (fst st) + length ps < 4294967295"
    "can_send s (length (concat (map frame as)) + n)"
  obtains s' where "handle ext am (Input False c) s = Inr ((), s')" "serves ext A st' s'"
    "\<not> ignore_input s'" "main_loop_running s' = main_loop_running s" "ios_data (ios_read_buf s') = part'" "can_send s' n"
    "ios_data (ios_write_buf s') = ios_data (ios_write_buf s) @ concat (map frame as)"
    "ios_ok (ios_read_buf s')" "unat (ios_len (ios_read_buf s')) \<le> unat (ios_len (ios_read_buf s)) + length c"
proof -
  have "ios_ok (ios_read_buf s)" "ios_room (ios_read_buf s) (length c)"
    using assms(3) by (simp_all add: read_room_def ios_room_def)
  then obtain i where i: "ios_append (Some c) (of_nat (length c)) (ios_read_buf s) = Inr ((), i)" "ios_ok i"
      "ios_data i = part @ c" "unat (ios_len i) \<le> unat (ios_len (ios_read_buf s)) + length c"
    using ios_append_spec [of "ios_read_buf s" "length c" c] assms(4) by auto
  let ?s = "s\<lparr>ios_read_buf := i\<rparr>"
  let ?nxt = "case qs of [] \<Rightarrow> [] | q # _ \<Rightarrow> request_bytes q"
  have nxt: "prefix part' (frame ?nxt)" "part' \<noteq> frame ?nxt" "length ?nxt < 2147483648"
    using assms(6,7) request_bytes_fit
    by (auto simp: waiting_def frame_def be32_def split: list.splits)
  have sv: "serves ext A st ?s" by (rule serves_cong [OF assms(1)]) simp_all
  have cs: "can_send ?s (length (concat (map frame as)) + n)" using assms(10) by (simp add: can_send_def)
  have data: "ios_data (ios_read_buf ?s) = concat (map (\<lambda>r. frame (request_bytes r)) ps) @ part'"
    using i(3) assms(5) by simp
  have ok: "list_all request_ok ps" "ios_ok (ios_read_buf ?s)" using assms(7) i(2) by simp_all
  from dispatch_requests [OF sv ok(1) assms(8,9) cs ok(2) data nxt, of am] obtain s' where
    s': "dispatch_loop ext am ?s = Some (Inr ((), s'))" "serves ext A st' s'" "can_send s' n"
      "ios_data (ios_write_buf s') = ios_data (ios_write_buf s) @ concat (map frame as)"
      "ios_ok (ios_read_buf s')" "ios_data (ios_read_buf s') = part'"
      "ios_len (ios_read_buf s') = ios_len i"
      "ignore_input s' = ignore_input s \<and> main_loop_running s' = main_loop_running s" by auto
  have "handle ext am (Input False c) s = Inr ((), s')"
    using i(1) s'(1) assms(2)
    by (simp add: io_input_handler_def on_read_buf_def read_and_dispatch_commands_def loop_def)
  then show thesis using s' i(4) assms(2) by (intro that [of s']) simp_all
qed

lemma deliver_chunks:
  assumes "serves ext A st s" "\<not> ignore_input s" "main_loop_running s"
    "\<forall>c\<in>set chunks. length c \<le> BUF_SIZE" "read_room s (length (concat chunks))"
    "ios_data (ios_read_buf s) = part"
    "part @ concat chunks = concat (map (\<lambda>r. frame (request_bytes r)) rs)" "waiting part rs"
    "list_all request_ok rs" "store_run rs st = (as, st')" "unat (fst st) + length rs < 4294967295"
    "can_send s (length (concat (map frame as)))"
  shows "\<exists>s'. run_events ext am (map (Input False) chunks) s = Inr ((), s') \<and> serves ext A st' s'
    \<and> ios_data (ios_read_buf s') = []
    \<and> ios_data (ios_write_buf s') = ios_data (ios_write_buf s) @ concat (map frame as)"
  using assms
proof (induction chunks arbitrary: st s part rs as)
  case Nil
  have "rs = []"
  proof (rule ccontr)
    assume "rs \<noteq> []"
    then obtain r rs' where "rs = r # rs'" by (cases rs) auto
    then show False using Nil.prems(7,8) by (auto simp: waiting_def prefix_def)
  qed
  then show ?case using Nil by simp
next
  case (Cons c cs)
  have "(part @ c) @ concat cs = concat (map (\<lambda>r. frame (request_bytes r)) rs)" using Cons.prems(7) by simp
  from stream_split [OF this] obtain ps qs part' where sp: "rs = ps @ qs"
    "part @ c = concat (map (\<lambda>r. frame (request_bytes r)) ps) @ part'"
    "part' @ concat cs = concat (map (\<lambda>r. frame (request_bytes r)) qs)" "waiting part' qs" by blast
  obtain as1 st1 where a1: "store_run ps st = (as1, st1)" by (cases "store_run ps st") auto
  obtain as2 where a2: "store_run qs st1 = (as2, st')" "as = as1 @ as2"
    using Cons.prems(10) sp(1) a1 by (auto simp: store_run_append split: prod.splits)
  have hyps: "read_room s (length c)" "list_all request_ok (ps @ qs)" "unat (fst st) + length ps < 4294967295"
    "can_send s (length (concat (map frame as1)) + length (concat (map frame as2)))"
    using Cons.prems(5,9,11,12) sp(1) a2(2) by (auto simp: read_room_def)
  obtain s1 where s1: "handle ext am (Input False c) s = Inr ((), s1)" "serves ext A st1 s1"
    "\<not> ignore_input s1" "main_loop_running s1 = main_loop_running s" "ios_data (ios_read_buf s1) = part'" "can_send s1 (length (concat (map frame as2)))"
    "ios_data (ios_write_buf s1) = ios_data (ios_write_buf s) @ concat (map frame as1)"
    "ios_ok (ios_read_buf s1)" "unat (ios_len (ios_read_buf s1)) \<le> unat (ios_len (ios_read_buf s)) + length c"
    by (rule deliver_chunk [OF Cons.prems(1,2) hyps(1) Cons.prems(6) sp(2,4) hyps(2) a1 hyps(3,4)])
  have "unat (fst st1) + length qs < 4294967295"
    using store_run_count [OF a1] Cons.prems(11) sp(1) by simp
  moreover have "read_room s1 (length (concat cs))"
    using Cons.prems(5) s1(8,9) by (simp add: read_room_def)
  moreover have "list_all request_ok qs" using hyps(2) by simp
  ultimately obtain s2 where "run_events ext am (map (Input False) cs) s1 = Inr ((), s2)" "serves ext A st' s2"
    "ios_data (ios_read_buf s2) = []"
    "ios_data (ios_write_buf s2) = ios_data (ios_write_buf s1) @ concat (map frame as2)"
    using Cons.IH [OF s1(2,3) _ _ _ s1(5) sp(3,4) _ a2(1) _ s1(6)] Cons.prems(3,4) s1(4) by auto
  then show ?case using s1(1,7) a2(2) Cons.prems(3,4) by auto
qed

section \<open>The output handler\<close>

lemma wt_process_empty: "work_list s = [] \<Longrightarrow> wt_process_queue ext s = Inr ((), s)"
  by (simp add: wt_process_queue_def)

text \<open>A write takes bytes off the front of the buffer and changes nothing else.\<close>

lemma output_some:
  assumes "ios_ok (ios_write_buf s)" "ios_data (ios_write_buf s) \<noteq> []"
  obtains ios where "handle ext am (Output False (Some n)) s = Inr ((), s\<lparr>ios_write_buf := ios\<rparr>)"
    "ios_ok ios" "ios_data ios = drop n (ios_data (ios_write_buf s))"
proof -
  let ?w = "ios_write_buf s" and ?d = "ios_data (ios_write_buf s)"
  let ?n = "min n (length ?d)"
  have sz: "unat (ios_buffer_size ?w) = length ?d" by (rule ios_buffer_size_data [OF assms(1)])
  then have nz: "ios_buffer_size ?w \<noteq> 0" using assms(2) by auto
  have "?n < 2 ^ 32" using sz unat_u32_less [of "ios_buffer_size ?w"] by (simp add: min_def)
  then have n: "unat (of_nat ?n :: u32) = length (take ?n ?d)" by (simp add: unat_of_nat_u32)
  obtain ios where "ios_read (of_nat ?n) ?w = Inr (Some ?d, ios)" "ios_ok ios" "ios_data ios = drop ?n ?d"
    using ios_read_spec [OF assms(1), of "take ?n ?d" "drop ?n ?d", OF _ n] by auto
  moreover have "drop ?n ?d = drop n ?d" by (simp add: min_def)
  ultimately show thesis
    using nz sz by (intro that [of ios]) (simp_all add: io_output_handler_def on_write_buf_def)
qed

lemma output_none:
  assumes "ios_ok (ios_write_buf s)" "ios_data (ios_write_buf s) = []" "work_list s = []" "ignore_output s"
  shows "handle ext am (Output False w) s = Inr ((), s\<lparr>main_loop_running := False, chan_out := Some False\<rparr>)"
proof -
  have "unat (ios_buffer_size (ios_write_buf s)) = 0" using ios_buffer_size_data [OF assms(1)] assms(2) by simp
  then have "ios_buffer_size (ios_write_buf s) = 0" by (simp add: unat_eq_zero)
  then have "io_output_handler ext False w s = Inr (False, s\<lparr>main_loop_running := False\<rparr>)"
    using assms(3,4) by (simp add: io_output_handler_def wt_process_empty quit_main_loop_def)
  then show ?thesis by (simp add: andthen_def)
qed

lemma drain:
  assumes "ios_ok (ios_write_buf s)" "work_list s = []" "ignore_output s" "main_loop_running s"
    "chan_out s = Some True" "\<forall>n\<in>set ns. 0 < n" "length (ios_data (ios_write_buf s)) < length ns"
  shows "\<exists>s'. run_events ext am (map (\<lambda>n. Output False (Some n)) ns) s = Inr ((), s')
    \<and> \<not> main_loop_running s' \<and> ios_data (ios_write_buf s') = []"
  using assms
proof (induction ns arbitrary: s)
  case Nil
  then show ?case by simp
next
  case (Cons n ns)
  show ?case
  proof (cases "ios_data (ios_write_buf s) = []")
    case True
    let ?s = "s\<lparr>main_loop_running := False, chan_out := Some False\<rparr>"
    have "run_events ext am (map (\<lambda>n. Output False (Some n)) ns) ?s = Inr ((), ?s)" by (cases ns) simp_all
    then show ?thesis using output_none [OF Cons.prems(1) True] Cons.prems True by (simp del: handle.simps)
  next
    case False
    obtain ios where ios: "handle ext am (Output False (Some n)) s = Inr ((), s\<lparr>ios_write_buf := ios\<rparr>)"
      "ios_ok ios" "ios_data ios = drop n (ios_data (ios_write_buf s))"
      by (rule output_some [OF Cons.prems(1) False])
    have "length (ios_data ios) < length ns"
      using ios(3) Cons.prems(6,7) False by (cases "ios_data (ios_write_buf s)") auto
    then show ?thesis using Cons.IH [of "s\<lparr>ios_write_buf := ios\<rparr>"] ios(1,2) Cons.prems
      by (simp del: handle.simps)
  qed
qed

section \<open>Options\<close>

interpretation options: closing_undisturbed int_option_array
  by unfold_locales simp_all

lemma options_read_buf [frame_rules]: "stays int_option_array s (on_read_buf m s)"
  by (auto simp: on_read_buf_def intro!: frame_rules)

definition keeps_options :: "'e ambient \<Rightarrow> bool" where
  "keeps_options am \<longleftrightarrow> (\<forall>s. stays int_option_array s (am_creates am s))
     \<and> (\<forall>s. stays int_option_array s (am_cycle am s))"

lemma dispatch_packet_options:
  assumes "keeps_options am"
  shows "stays int_option_array s (dispatch_packet ext am packet cmd s)"
proof -
  have c: "stays int_option_array s (am_creates am s)" "stays int_option_array s (am_cycle am s)" for s
    using assms by (simp_all add: keeps_options_def)
  have "stays int_option_array s (receive_hello_ack ext am packet s)"
    by (auto simp: receive_hello_ack_def accept_hello_ack_def do_accept_hello_ack_def record_archive_def
        intro!: frame_rules options.do_archive options.do_extract c)
  then show ?thesis by (auto simp: dispatch_packet_def intro!: frame_rules c)
qed

lemma dispatch_loop_options:
  assumes "keeps_options am" "dispatch_loop ext am s = Some r"
  shows "stays int_option_array s r"
proof -
  have "keeps_options am \<longrightarrow> stays int_option_array s r"
  proof (rule dispatch_loop.raw_induct [where P = "\<lambda>ext am s r. keeps_options am \<longrightarrow> stays int_option_array s r",
        OF _ assms(2)], rule impI)
    fix w and ext :: "'a external" and am s r
    let ?one = "read_and_dispatch_one_command ext am"
    assume IH: "\<And>ext am s r. w ext am s = Some r \<Longrightarrow> keeps_options am \<longrightarrow> stays int_option_array s r"
      and eq: "(case ?one s of Inl e \<Rightarrow> Some (Inl e)
         | Inr (r, s') \<Rightarrow> if r = 0 then w ext am s' else Some (Inr ((), s'))) = Some r"
      and k: "keeps_options am"
    have one: "stays int_option_array s (?one s)"
      by (auto simp: read_and_dispatch_one_command_def intro!: frame_rules dispatch_packet_options k
          split: option.split)
    show "stays int_option_array s r"
    proof (cases "?one s")
      case (Inr y)
      obtain x t where t: "?one s = Inr (x, t)" using Inr by (cases y) simp
      have ft: "int_option_array t = int_option_array s" by (rule staysD [where m = ?one, OF one t])
      show ?thesis
      proof (cases "x = 0")
        case True
        then have "stays int_option_array t r" using IH [of ext am t r] eq t k by simp
        then show ?thesis by (rule stays_trans [where t = t, rotated]) (rule ft)
      qed (use eq t ft in auto)
    qed (use eq in auto)
  qed
  then show ?thesis using assms(1) by simp
qed

lemma handle_options:
  assumes "keeps_options am"
  shows "stays int_option_array s (handle ext am ev s)"
proof (cases ev)
  case (Input err buf)
  have "stays int_option_array s (read_and_dispatch_commands ext am s)" for s
    by (auto simp: read_and_dispatch_commands_def intro!: frame_rules options.loop
        dest!: dispatch_loop_options [OF assms])
  then show ?thesis using Input by (auto simp: io_input_handler_def intro!: frame_rules)
next
  case (Output err written)
  then show ?thesis by (auto simp: io_output_handler_def intro!: frame_rules split: option.split)
qed

text \<open>What the loop does inside of a handler keeps the options, if the same holds one level deeper.\<close>

lemma cycle_keeps_options: "keeps_options am \<Longrightarrow> stays int_option_array s (cycle_main_loop ext am ready s)"
proof -
  assume k: "keeps_options am"
  have "stays int_option_array s (handle_events ext am evs s)" for evs s
    by (induction evs arbitrary: s) (auto intro!: frame_rules handle_options k)
  then show ?thesis by (simp add: cycle_main_loop_def)
qed

section \<open>Properties\<close>

text \<open>C1. A server answers a stream of requests whatever the network does to it: however the bytes of
  well-formed requests are cut into deliveries of up to 8196 bytes, a running server answers
  them exactly as the abstract store of blocks does, in order, leaves nothing unread, and its
  database then represents the abstract store's new state.\<close>

theorem server_serves_stream:
  assumes "serves ext A st s" and "\<not> ignore_input s" and "main_loop_running s"
    and "\<forall>c\<in>set chunks. length c \<le> BUF_SIZE" and "read_room s (length (concat chunks))"
    and "ios_data (ios_read_buf s) = []"
    and "concat chunks = concat (map (\<lambda>r. frame (request_bytes r)) rs)" and "list_all request_ok rs"
    and "store_run rs st = (answers, st')" and "unat (fst st) + length rs < 4294967295"
    and "can_send s (length (concat (map frame answers)))"
  shows "\<exists>s'. run_events ext am (map (Input False) chunks) s = Inr ((), s') \<and> serves ext A st' s'
    \<and> ios_data (ios_read_buf s') = []
    \<and> ios_data (ios_write_buf s') = ios_data (ios_write_buf s) @ concat (map frame answers)"
proof (rule deliver_chunks [OF assms(1-5) assms(6) _ _ assms(8-11)])
  show "[] @ concat chunks = concat (map (\<lambda>r. frame (request_bytes r)) rs)" using assms(7) by simp
  show "waiting [] rs" by (cases rs) (auto simp: waiting_def frame_def be32_def)
qed

definition sample_ambient :: "'e ambient" where
  "sample_ambient = \<lparr>am_creates = ret (), am_ph_archive_id = 0, am_stack = 0, am_walk = (\<lambda>_ _. []),
     am_cycle = ret (), am_args = []\<rparr>"

theorem server_serves_stream_witness:
  "\<exists>s'. run_events map_db sample_ambient
      (map (Input False) [[0, 0, 0, 15, 3, 0, 0, 0, 7, 0], [0, 0, 1, 0, 0, 0, 2, 5, 6, 0, 0], [],
         [0, 13, 5, 0, 0, 0, 7, 0, 0, 0, 1, 0, 0, 0, 1]])
      (idle_peer\<lparr>main_loop_running := True\<rparr>) = Inr ((), s')
    \<and> ios_data (ios_write_buf s') = frame (put_ack_bytes 7 1 1) @ frame (get_ack_bytes 7 1 [5, 6])"
proof -
  have sv: "serves map_db (\<lambda>e. e) (0, \<lambda>_. None) (idle_peer\<lparr>main_loop_running := True\<rparr>)"
    by (rule serves_cong [OF idle_peer_serves]) simp_all
  have eq: "concat [[0, 0, 0, 15, 3, 0, 0, 0, 7, 0], [0, 0, 1, 0, 0, 0, 2, 5, 6, 0, 0], [],
         [0, 13, 5, 0, 0, 0, 7, 0, 0, 0, 1, 0, 0, 0, 1]]
      = concat (map (\<lambda>r. frame (request_bytes r)) [Put 7 1 [5, 6], Get 7 1 1])"
    by (simp add: frame_def put_block_bytes_def get_block_bytes_def be32_def)
  show ?thesis
    using server_serves_stream [OF sv _ _ _ _ _ eq, of "[put_ack_bytes 7 1 1, get_ack_bytes 7 1 [5, 6]]"
        "(1, [1 \<mapsto> [5, 6]])" sample_ambient]
    by (auto simp: idle_peer_def BUF_SIZE_def read_room_def can_send_def stored_block_def)
qed

text \<open>C25. A server is never caught in its dispatcher: whatever bytes it has been sent, in whatever state
  its databases, its work list and its buffers are, the loop of \<open>read_and_dispatch_commands\<close> comes to an end,
  because every packet that is handled makes the read buffer shorter.\<close>

theorem server_dispatch_returns:
  assumes "int_option kOption_server s \<noteq> 0" and "quiet_creates am"
  shows "\<exists>r. dispatch_loop ext am s = Some r \<and> read_and_dispatch_commands ext am s = rbind r (\<lambda>(_, s'). Inr (0, s'))"
proof -
  obtain r where "dispatch_loop ext am s = Some r" using dispatch_loop_returns [OF assms] by blast
  then show ?thesis
    by (cases r) (auto simp: read_and_dispatch_commands_def loop_def andthen_def)
qed

definition idle_server :: "(byte list \<Rightarrow> byte list \<Rightarrow> pointer) peer" where
  "idle_server = idle_peer\<lparr>int_option_array := (\<lambda>_. 0)(kOption_server := 1), main_loop_running := True\<rparr>"

lemma sample_quiet: "quiet_creates sample_ambient" "keeps_options sample_ambient"
  by (simp_all add: quiet_creates_def keeps_options_def sample_ambient_def)

theorem server_dispatch_returns_witness:
  "\<exists>r. dispatch_loop map_db sample_ambient (idle_server\<lparr>ios_read_buf := ios_of [0, 0, 0, 2, 9, 9, 0]\<rparr>) = Some r"
  using server_dispatch_returns [of "idle_server\<lparr>ios_read_buf := ios_of [0, 0, 0, 2, 9, 9, 0]\<rparr>" sample_ambient map_db]
    sample_quiet
  by (auto simp: idle_server_def int_option_def)



text \<open>Anyone who can talk to a server can stop it: a single packet whose first byte is that of a
  \<open>HelloAck\<close>, whatever follows, ends in a failed assertion, because the dispatcher does not look at
  the role of the process before it calls a handler.\<close>

theorem server_stopped_by_ack:
  assumes "int_option kOption_server s \<noteq> 0" and "ios_ok (ios_read_buf s)"
    and "ios_data (ios_read_buf s) = frame (command_byte cmd_HelloAck # d) @ rest" and "length d < 2147483647"
  shows "\<exists>e. read_and_dispatch_commands ext am s = Inl e"
proof -
  have l: "length (command_byte cmd_HelloAck # d) < 2147483648" using assms(4) by simp
  obtain i where i: "next_packet (ios_read_buf s) = Inr (Some (buffer_of (command_byte cmd_HelloAck # d)), i)"
    by (rule next_packet_frame [OF assms(2,3) _ l]) simp
  have "int_option kOption_server (s\<lparr>ios_read_buf := i\<rparr>) \<noteq> 0" using assms(1) by (simp add: int_option_def)
  then obtain e where
    "receive_hello_ack ext am (buffer_of (command_byte cmd_HelloAck # d)) (s\<lparr>ios_read_buf := i\<rparr>) = Inl e"
    using server_hello_ack by blast
  then have "read_and_dispatch_one_command ext am s = Inl e"
    using i packet_command_buffer_of [OF l]
    by (simp add: read_and_dispatch_one_command_def on_read_buf_def dispatch_packet_def)
  then have "dispatch_loop ext am s = Some (Inl e)" by (subst dispatch_loop.simps) simp
  then show ?thesis by (simp add: read_and_dispatch_commands_def loop_def)
qed

theorem server_stopped_by_ack_witness:
  "\<exists>e. read_and_dispatch_commands map_db sample_ambient
     (idle_server\<lparr>ios_read_buf := ios_of (frame (command_byte cmd_HelloAck # []) @ [])\<rparr>) = Inl e"
proof (rule server_stopped_by_ack [where d = "[]" and rest = "[]"])
  have "length (frame (command_byte cmd_HelloAck # []) @ []) < 4294967296" by simp
  then show "ios_ok (ios_read_buf (idle_server\<lparr>ios_read_buf := ios_of (frame (command_byte cmd_HelloAck # []) @ [])\<rparr>))"
    by simp
qed (simp_all add: idle_server_def int_option_def)



end
