(* ===== verification/Commands.thy ===== *)
theory Commands
  imports Event_Loop
begin

text \<open>
  \<open>option.c\<close>, \<open>main.c\<close>, \<open>daemon.c\<close>, \<open>list.c\<close> and the interactive part of \<open>prefs.c\<close>: from the command
  line to the main loop.  \<open>getopt_long\<close> is the C library's: its results are an argument, one entry
  per option with its \<open>optarg\<close>, and the arguments that remain after it.  So are the bytes of the
  terminal, the child process, \<open>asctime\<close> and the events of the main loop.  What is only printed for
  information is not modelled.

  What is shown: which of the program's actions can be reached from the command line at all.
\<close>

section \<open>The command line\<close>

datatype option_code = Opt char | kDaemon | kSelfTest

definition is_space :: "byte \<Rightarrow> bool" where
  "is_space c \<longleftrightarrow> c \<in> {32, 9, 10, 11, 12, 13}"

definition is_digit :: "byte \<Rightarrow> bool" where
  "is_digit c \<longleftrightarrow> 48 \<le> c \<and> c \<le> 57"

text \<open>\<open>atoi\<close>, for numbers that an \<open>int\<close> can hold.\<close>

definition atoi :: "byte list \<Rightarrow> int" where
  "atoi str = (let t = dropWhile is_space (c_string str);
      neg = (t \<noteq> [] \<and> hd t = of_char CHR ''-'');
      u = (if t \<noteq> [] \<and> (hd t = of_char CHR ''-'' \<or> hd t = of_char CHR ''+'') then tl t else t);
      n = foldl (\<lambda>n d. 10 * n + (int (unat d) - 48)) 0 (takeWhile is_digit u)
    in if neg then - n else n)"

abbreviation (input) VERBOSE_FILES :: int where "VERBOSE_FILES \<equiv> 1"

text \<open>
  One turn of the loop of \<open>parse_options\<close>: \<open>Some r\<close> when it returns \<open>r\<close>.  In the case of \<open>n\<close> the
  expression \<open>int_option(kOption_verbose | VERBOSE_FILES)\<close> names the option with the number \<open>6 | 1\<close>,
  which is \<open>kOption_dryrun\<close>; then \<open>g_error\<close> aborts.
\<close>

fun parse_option :: "option_code \<times> pointer \<Rightarrow> ('e peer, int option) prog" where
  "parse_option (kDaemon, _) = andthen (set_int_option kOption_server 1) (\<lambda>_. ret None)"
| "parse_option (kSelfTest, _) = andthen (set_int_option kOption_self_test 1) (\<lambda>_. ret None)"
| "parse_option (Opt c, optarg) =
     (if c = CHR ''b'' then andthen (set_int_option kOption_backup 1) (\<lambda>_. ret None)
      else if c = CHR ''c'' then andthen (set_int_option kOption_create 1) (\<lambda>_. ret None)
      else if c = CHR ''x'' then andthen (set_int_option kOption_extract 1) (\<lambda>_. ret None)
      else if c = CHR ''t'' then andthen (set_int_option kOption_list 1) (\<lambda>_. ret None)
      else if c = CHR ''p'' then andthen (set_int_option kOption_ping 1) (\<lambda>_. ret None)
      else if c = CHR ''v'' then (case optarg of
          None \<Rightarrow> andthen (set_int_option kOption_verbose VERBOSE_FILES) (\<lambda>_. ret None)
        | Some a \<Rightarrow> if atoi a \<noteq> 0 then andthen (set_int_option kOption_verbose (atoi a)) (\<lambda>_. ret None)
                    else ret (Some 1))
      else if c = CHR ''n'' then andthen (set_int_option kOption_dryrun 1) (\<lambda>_.
          andthen (\<lambda>s. set_int_option kOption_verbose (int_option kOption_dryrun s) s) (\<lambda>_. fail Abort))
      else if c = CHR ''h'' then fail (Exit 0)
      else ret (Some 1))"

fun parse_each :: "(option_code \<times> pointer) list \<Rightarrow> ('e peer, int option) prog" where
  "parse_each [] = ret None"
| "parse_each (opt # opts) = andthen (parse_option opt) (\<lambda>r. case r of
     None \<Rightarrow> parse_each opts | Some x \<Rightarrow> ret (Some x))"

definition action_chosen :: "'e peer \<Rightarrow> bool" where
  "action_chosen s \<longleftrightarrow> int_option kOption_backup s \<noteq> 0 \<or> int_option kOption_extract s \<noteq> 0
     \<or> int_option kOption_self_test s \<noteq> 0 \<or> int_option kOption_list s \<noteq> 0
     \<or> int_option kOption_server s \<noteq> 0 \<or> int_option kOption_ping s \<noteq> 0 \<or> int_option kOption_create s \<noteq> 0"

text \<open>The third test is bitwise, with the C value 0 or 1 of a negation.\<close>

definition flags_consistent :: "'e peer \<Rightarrow> bool" where
  "flags_consistent s =
     (if int_option kOption_backup s + int_option kOption_extract s + int_option kOption_list s
           + int_option kOption_server s > 1 then False
      else if int_option kOption_backup s + int_option kOption_extract s + int_option kOption_list s
           + int_option kOption_ping s > 1 then False
      else if (int_option kOption_backup s OR int_option kOption_extract s OR int_option kOption_list s
           OR int_option kOption_server s OR int_option kOption_ping s)
         AND (if char_option kArchive_target s = None then 1 else 0) \<noteq> 0 then False
      else True)"

text \<open>The result, \<open>num_args\<close> and \<open>g_args\<close>.\<close>

definition parse_options :: "(option_code \<times> pointer) list \<Rightarrow> byte list list
    \<Rightarrow> ('e peer, int \<times> int \<times> byte list list) prog" where
  "parse_options opts args = andthen options_init (\<lambda>_. andthen (parse_each opts) (\<lambda>r. case r of
       Some x \<Rightarrow> ret (x, -1, [])
     | None \<Rightarrow> andthen (case args of [] \<Rightarrow> ret () | a # _ \<Rightarrow> set_char_option kArchive_target (Some a)) (\<lambda>_ s.
         Inr ((if \<not> action_chosen s then 1 else if flags_consistent s then 0 else 1,
               int (length args), tl args), s))))"

definition confirm_arguments :: "int \<Rightarrow> int \<Rightarrow> bool \<Rightarrow> bool" where
  "confirm_arguments num_args n or_more \<longleftrightarrow> num_args = n \<or> (num_args > n \<and> or_more)"

section \<open>Creating an archive\<close>

text \<open>\<open>fgets(buf, bufsize, stdin)\<close>: a line, \<open>bufsize - 1\<close> bytes at most; at the end of the input it leaves
  the buffer of the caller as it was, that is uninitialised.\<close>

definition fgets :: "nat \<Rightarrow> byte list \<Rightarrow> (byte list \<times> byte list) result" where
  "fgets bufsize input = (if input = [] then Inl Undef
     else let line = takeWhile (\<lambda>c. c \<noteq> 10) input;
              n = min (bufsize - 1) (if length line < length input then Suc (length line) else length line)
          in Inr (take n input, drop n input))"

definition g_strchomp :: "byte list \<Rightarrow> byte list" where
  "g_strchomp str = rev (dropWhile is_space (rev (c_string str)))"

definition get_pref_from_user :: "pointer \<Rightarrow> byte list \<Rightarrow> (pointer \<times> byte list) result" where
  "get_pref_from_user default_val input = rbind (fgets 10240 input) (\<lambda>(buf, input).
     let v = g_strchomp buf in Inr (if v = [] then default_val else Some v, input))"

definition rand :: "'e external \<Rightarrow> ('e peer, u32) prog" where
  "rand ext s = (case ex_rand ext (env s) of (r, e) \<Rightarrow> Inr (r, s\<lparr>env := e\<rparr>))"

text \<open>The value is asserted not to be NULL.\<close>

definition const_put_string_ptr :: "'e external \<Rightarrow> byte list \<Rightarrow> pointer \<Rightarrow> ('e peer, unit) prog" where
  "const_put_string_ptr ext key val = (case val of None \<Rightarrow> fail Abort | Some v \<Rightarrow> const_put_string ext key v)"

definition do_create :: "'e external \<Rightarrow> byte list \<Rightarrow> ('e peer, unit) prog" where
  "do_create ext input s =
     rbind (get_pref_from_user (Some (cstr ''ssh host cryptar --daemon'')) input) (\<lambda>(daemon_command, input).
     rbind (get_pref_from_user (home_variable s) input) (\<lambda>(to_archive, input).
     rbind (get_pref_from_user (Some (cstr ''4'')) input) (\<lambda>(block_length, input).
     rbind (fgets 10 input) (\<lambda>(buf, input).
     if c_string buf = [] \<or> (hd buf \<noteq> of_char CHR ''y'' \<and> hd buf \<noteq> of_char CHR ''Y'') then Inr ((), s)
     else andthen (db_open ext kConstants) (\<lambda>_.
       andthen (const_put_string_ptr ext PREF_DAEMON_COMMAND daemon_command) (\<lambda>_.
       andthen (const_put_string_ptr ext PREF_TO_ARCHIVE to_archive) (\<lambda>_.
       andthen (const_put_int ext PREF_BLOCK_LENGTH
          (word_of_int (atoi (case block_length of None \<Rightarrow> [] | Some b \<Rightarrow> b)))) (\<lambda>_.
       andthen (rand ext) (\<lambda>r.
       andthen (const_put_int ext PREF_ARCHIVE_PASS r) (\<lambda>_.
       const_put_int ext PREF_MUST_CREATE 1)))))) s))))"

section \<open>Listing an archive\<close>

fun decimal_nat :: "nat \<Rightarrow> byte list" where
  "decimal_nat n = (if n < 10 then [of_nat (48 + n)] else decimal_nat (n div 10) @ [of_nat (48 + n mod 10)])"

declare decimal_nat.simps [simp del]

definition decimal :: "int \<Rightarrow> byte list" where
  "decimal i = (if i < 0 then of_char CHR ''-'' # decimal_nat (nat (- i)) else decimal_nat (nat i))"

text \<open>What is printed for a file: \<open>%d\<close> prints the length as a signed number.\<close>

definition list_display_file :: "(u32 \<Rightarrow> byte list) \<Rightarrow> int \<Rightarrow> dbfile \<Rightarrow> dbsummary option \<Rightarrow> byte list result" where
  "list_display_file asctime verbose dbf dbs = (case dbs of None \<Rightarrow> Inl Abort
     | Some dbs \<Rightarrow> Inr (printed (dbf_filename dbf) @
         (if verbose AND VERBOSE_FILES \<noteq> 0
          then cstr '' ('' @ decimal (sint (file_length dbs)) @ cstr '' bytes)'' @ [10]
            @ cstr ''    backed up '' @ asctime (summary_time dbs)
            @ cstr ''    modified '' @ asctime (mod_time dbs)
          else [10])))"

partial_function (option) list_loop :: "'e external \<Rightarrow> (u32 \<Rightarrow> byte list) \<Rightarrow> nat \<Rightarrow> byte list \<Rightarrow> 'e peer
    \<Rightarrow> (byte list \<times> 'e peer) result option" where
  "list_loop ext asctime curs out s = (case db_filename_curs_next ext curs s of
       Inl e \<Rightarrow> Some (Inl e)
     | Inr (r, s) \<Rightarrow> (case r of None \<Rightarrow> Some (Inr (out, s))
         | Some dbf \<Rightarrow> (case db_summary_fetch_last ext (dbf_file_id dbf) s of
               Inl e \<Rightarrow> Some (Inl e)
             | Inr (dbs, s) \<Rightarrow> (case list_display_file asctime (int_option kOption_verbose s) dbf dbs of
                   Inl e \<Rightarrow> Some (Inl e)
                 | Inr line \<Rightarrow> list_loop ext asctime curs (out @ line) s))))"

text \<open>The result is what was printed.\<close>

definition do_list :: "'e external \<Rightarrow> (u32 \<Rightarrow> byte list) \<Rightarrow> ('e peer, byte list) prog" where
  "do_list ext asctime = andthen (db_filename_curs_begin ext) (\<lambda>curs. loop (list_loop ext asctime curs []))"

section \<open>Processes\<close>

text \<open>
  The surroundings of a process: the bytes of the terminal, the events that the main loop is offered,
  the child process (\<open>None\<close> when a system call fails, which ends in an assertion), \<open>asctime\<close>.
\<close>

record 'e surroundings = "'e ambient" +
  su_stdin :: "byte list"
  su_events :: "event list"
  su_spawn :: "byte list list \<Rightarrow> int option"
  su_asctime :: "u32 \<Rightarrow> byte list"

definition ambient_of :: "'e surroundings \<Rightarrow> 'e ambient" where
  "ambient_of su = ambient.truncate su"

text \<open>\<open>strtok(cmd, " ")\<close>: the parts between runs of spaces.\<close>

definition strtok_spaces :: "byte list \<Rightarrow> byte list list" where
  "strtok_spaces cmd = filter (\<lambda>t. t \<noteq> []) (split_at_spaces [] (c_string cmd))"

text \<open>\<open>do_cmd\<close> has room for 100 pointers, the last of which is NULL.\<close>

definition do_cmd :: "'e surroundings \<Rightarrow> byte list \<Rightarrow> ('e peer, int) prog" where
  "do_cmd su cmd = (let args = strtok_spaces cmd in
     if length args \<ge> 100 then fail Undef
     else case su_spawn su args of None \<Rightarrow> fail Abort
     | Some pid \<Rightarrow> andthen io_register_fd_pair (\<lambda>_. ret pid))"

definition io_close_io :: "('e peer, unit) prog" where
  "io_close_io = ret ()"

definition do_ping :: "'e external \<Rightarrow> 'e surroundings \<Rightarrow> ('e peer, int) prog" where
  "do_ping ext su = andthen (send_hello \<lparr>ph_version = 0, ph_archive_id = 0, ph_archive_pass = 0,
        ph_create_archive = 0, ph_message = Some (cstr ''Ping from client version 0.0'')\<rparr>) (\<lambda>_.
     andthen (run_main_loop ext (ambient_of su) (su_events su)) (\<lambda>_.
     andthen io_close_io (\<lambda>_. ret 0)))"

definition wt_check_for_orphan_work :: "('e peer, unit) prog" where
  "wt_check_for_orphan_work = andthen io_write_buf (\<lambda>_. ret ())"

text \<open>The flag of the greeting is a \<open>guint8\<close>.\<close>

definition do_server_init :: "'e external \<Rightarrow> 'e surroundings \<Rightarrow> ('e peer, int) prog" where
  "do_server_init ext su = andthen (db_open_client_dbs ext) (\<lambda>_.
     andthen (const_get_int ext PREF_ARCHIVE_ID) (\<lambda>a.
     andthen (const_get_int ext PREF_ARCHIVE_PASS) (\<lambda>p.
     andthen (const_get_int ext PREF_MUST_CREATE) (\<lambda>m.
     andthen (send_hello \<lparr>ph_version = 0, ph_archive_id = a, ph_archive_pass = p,
        ph_create_archive = ucast m, ph_message = Some (cstr ''Client version 0.0 here!'')\<rparr>) (\<lambda>_.
     andthen (run_main_loop ext (ambient_of su) (su_events su)) (\<lambda>_.
     andthen io_close_io (\<lambda>_.
     andthen wt_check_for_orphan_work (\<lambda>_. ret 0))))))))"

definition start_remote_and_run :: "'e external \<Rightarrow> 'e surroundings \<Rightarrow> ('e peer, int) prog" where
  "start_remote_and_run ext su = andthen (pref_get_value ext PREF_DAEMON_COMMAND) (\<lambda>cmd.
     andthen (do_cmd su cmd) (\<lambda>pid s.
     if pid = 0 then Inl Abort
     else if int_option kOption_ping s \<noteq> 0 then do_ping ext su s
     else if int_option kOption_extract s \<noteq> 0 \<or> int_option kOption_backup s \<noteq> 0 then do_server_init ext su s
     else Inl Abort))"

definition do_daemon :: "'e external \<Rightarrow> 'e surroundings \<Rightarrow> int \<Rightarrow> ('e peer, int) prog" where
  "do_daemon ext su num_args = (if \<not> confirm_arguments num_args 0 False then ret (-1)
     else andthen io_register_fd_pair (\<lambda>_.
       andthen (run_main_loop ext (ambient_of su) (su_events su)) (\<lambda>_.
       andthen io_close_io (\<lambda>_. ret 0))))"

definition sig_quit_handler :: "'e external \<Rightarrow> ('e peer, unit) prog" where
  "sig_quit_handler ext = andthen (db_error_exit ext) (\<lambda>_. fail (Exit 2))"

text \<open>The self test is the parameter \<open>self_test\<close> (see \<open>do_self_test\<close> in \<open>Diagnostics\<close>).  \<open>exit(0)\<close>
  at the end of \<open>main\<close> is a return of 0.\<close>

definition main :: "'e external \<Rightarrow> 'e surroundings \<Rightarrow> ('e peer, int) prog \<Rightarrow> nat \<Rightarrow> (option_code \<times> pointer) list
    \<Rightarrow> byte list list \<Rightarrow> ('e peer, int) prog" where
  "main ext su self_test argc opts args = (if argc < 2 then ret 0
     else andthen (parse_options opts args) (\<lambda>(r, num_args, g_args).
       let su = su\<lparr>am_args := g_args\<rparr> in
       if r \<noteq> 0 then ret 1
       else andthen (init_crypto ext) (\<lambda>_ s.
         if int_option kOption_self_test s \<noteq> 0 then self_test s
         else if int_option kOption_create s \<noteq> 0 then andthen (do_create ext (su_stdin su)) (\<lambda>_. ret 0) s
         else if int_option kOption_server s \<noteq> 0 then do_daemon ext su num_args s
         else if int_option kOption_list s \<noteq> 0 then
           andthen (db_open_client_dbs ext) (\<lambda>_. andthen (do_list ext (su_asctime su)) (\<lambda>_. ret 0)) s
         else andthen (start_remote_and_run ext su) (\<lambda>_. andthen (db_close_all ext) (\<lambda>_. ret 0)) s)))"

section \<open>What parsing does to a process\<close>

definition fresh :: "'e peer \<Rightarrow> bool" where
  "fresh s \<longleftrightarrow> (\<forall>opt. int_option opt s = 0) \<and> char_option kArchive_target s = None
     \<and> database_ptrs s = (\<lambda>_. None)"

text \<open>Every option but the verbosity is a flag.\<close>

definition flags_ok :: "'e peer \<Rightarrow> bool" where
  "flags_ok s \<longleftrightarrow> (\<forall>opt. opt = kOption_verbose \<or> int_option opt s \<in> {0, 1})"

lemma set_int_option_flags:
  "flags_ok s \<Longrightarrow> set_int_option opt 1 s = Inr (x, s') \<Longrightarrow> flags_ok s'"
  by (fastforce simp: flags_ok_def set_int_option_def int_option_def)

lemma set_verbose_flags: "flags_ok s \<Longrightarrow> set_int_option kOption_verbose n s = Inr (x, s') \<Longrightarrow> flags_ok s'"
  by (auto simp: flags_ok_def set_int_option_def int_option_def)

lemma parse_option_inv:
  assumes "parse_option opt s = Inr (r, s')" "flags_ok s"
  shows "flags_ok s' \<and> char_option_array s' = char_option_array s \<and> database_ptrs s' = database_ptrs s"
  using assms
  by (cases opt rule: parse_option.cases)
     (auto simp: flags_ok_def set_int_option_def int_option_def split: if_splits option.splits)

lemma parse_each_inv:
  assumes "parse_each opts s = Inr (r, s')" "flags_ok s"
  shows "flags_ok s' \<and> char_option_array s' = char_option_array s \<and> database_ptrs s' = database_ptrs s"
  using assms
proof (induction opts arbitrary: s)
  case (Cons opt opts)
  then obtain r1 s1 where s1: "parse_option opt s = Inr (r1, s1)"
      "(case r1 of None \<Rightarrow> parse_each opts | Some x \<Rightarrow> ret (Some x)) s1 = Inr (r, s')"
    by (auto elim!: andthen_InrE)
  then show ?case using parse_option_inv [OF s1(1) Cons.prems(2)] Cons.IH [of s1]
    by (cases r1) auto
qed simp

lemma fresh_flags: "fresh s \<Longrightarrow> flags_ok s"
  by (simp add: fresh_def flags_ok_def)

lemma parse_options_inv:
  assumes "parse_options opts args s = Inr ((r, n, g), s')" "fresh s"
  shows "flags_ok s'" and "database_ptrs s' = database_ptrs s"
    and "r = 0 \<Longrightarrow> action_chosen s' \<and> flags_consistent s' \<and> n = int (length args) \<and> g = tl args
      \<and> char_option kArchive_target s' = (case args of [] \<Rightarrow> None | a # _ \<Rightarrow> Some a)"
proof -
  obtain x s1 where s1: "parse_each opts s = Inr (x, s1)"
    "(case x of Some x \<Rightarrow> ret (x, -1, [])
     | None \<Rightarrow> andthen (case args of [] \<Rightarrow> ret () | a # _ \<Rightarrow> set_char_option kArchive_target (Some a)) (\<lambda>_ s.
         Inr ((if \<not> action_chosen s then 1 else if flags_consistent s then 0 else 1,
               int (length args), tl args), s))) s1 = Inr ((r, n, g), s')"
    using assms(1) by (auto simp: parse_options_def options_init_def elim!: andthen_InrE)
  note inv = parse_each_inv [OF s1(1) fresh_flags [OF assms(2)]]
  have x: "x = Some y \<Longrightarrow> y \<noteq> 0" for y
    using s1(1)
  proof (induction opts arbitrary: s)
    case (Cons opt opts)
    then obtain r1 t where t: "parse_option opt s = Inr (r1, t)"
        "(case r1 of None \<Rightarrow> parse_each opts | Some x \<Rightarrow> ret (Some x)) t = Inr (x, s1)"
      by (auto elim!: andthen_InrE)
    show ?case
    proof (cases r1)
      case (Some z)
      then have "z = 1" using t(1)
        by (cases opt rule: parse_option.cases) (auto simp: set_int_option_def split: if_splits option.splits)
      then show ?thesis using t(2) Some Cons.prems(1) by simp
    qed (use t Cons in auto)
  qed simp
  show "flags_ok s'" "database_ptrs s' = database_ptrs s"
    using s1(2) inv
    by (auto simp: set_char_option_def flags_ok_def int_option_def split: option.splits list.splits)
  show "r = 0 \<Longrightarrow> action_chosen s' \<and> flags_consistent s' \<and> n = int (length args) \<and> g = tl args
      \<and> char_option kArchive_target s' = (case args of [] \<Rightarrow> None | a # _ \<Rightarrow> Some a)"
    using s1(2) inv x assms(2)
    by (auto simp: set_char_option_def char_option_def fresh_def split: option.splits list.splits if_splits)
qed

lemma flag_cases: "flags_ok s \<Longrightarrow> opt \<noteq> kOption_verbose \<Longrightarrow> int_option opt s = 0 \<or> int_option opt s = 1"
  by (auto simp: flags_ok_def)

lemma needs_target:
  assumes "flags_ok s" "flags_consistent s"
    "int_option kOption_backup s \<noteq> 0 \<or> int_option kOption_extract s \<noteq> 0 \<or> int_option kOption_list s \<noteq> 0
      \<or> int_option kOption_server s \<noteq> 0 \<or> int_option kOption_ping s \<noteq> 0"
  shows "char_option kArchive_target s \<noteq> None"
proof
  assume none: "char_option kArchive_target s = None"
  note c = flag_cases [OF assms(1)]
  from c [of kOption_backup] c [of kOption_extract] c [of kOption_list] c [of kOption_server] c [of kOption_ping]
  show False using assms(2,3) none
    by (auto simp: flags_consistent_def split: if_splits)
qed

section \<open>Properties\<close>

text \<open>C24. The command line leads to one action: when a process that was just started accepts its
  arguments, every option but the verbosity is a flag, an action was chosen, no two of backup,
  extract, list and server (nor of backup, extract, list and ping) are set, and an archive was
  named for each of them.\<close>

theorem parse_options_one_action:
  assumes "fresh s" and "parse_options opts args s = Inr ((0, num_args, g_args), s')"
  shows "flags_ok s' \<and> action_chosen s'
    \<and> int_option kOption_backup s' + int_option kOption_extract s' + int_option kOption_list s'
        + int_option kOption_server s' \<le> 1
    \<and> int_option kOption_backup s' + int_option kOption_extract s' + int_option kOption_list s'
        + int_option kOption_ping s' \<le> 1
    \<and> (args = [] \<longrightarrow> int_option kOption_backup s' = 0 \<and> int_option kOption_extract s' = 0
        \<and> int_option kOption_list s' = 0 \<and> int_option kOption_server s' = 0 \<and> int_option kOption_ping s' = 0)"
proof -
  note inv = parse_options_inv [OF assms(2,1)]
  have c: "flags_consistent s'" "action_chosen s'"
    "char_option kArchive_target s' = (case args of [] \<Rightarrow> None | a # _ \<Rightarrow> Some a)" using inv(3) by simp_all
  have "args = [] \<Longrightarrow> char_option kArchive_target s' = None" using c(3) by simp
  then show ?thesis using inv(1) c(1,2) needs_target [OF inv(1) c(1)]
    by (auto simp: flags_consistent_def split: if_splits)
qed

definition fresh_peer :: "(byte list \<Rightarrow> byte list \<Rightarrow> pointer) peer" where
  "fresh_peer = idle_peer\<lparr>database_ptrs := (\<lambda>_. None), chan_out := None\<rparr>"

lemma fresh_peer_fresh: "fresh fresh_peer"
  by (simp add: fresh_def fresh_peer_def idle_peer_def int_option_def char_option_def)

lemmas parse_sample = parse_options_def options_init_def set_int_option_def set_char_option_def
  fresh_peer_def idle_peer_def action_chosen_def flags_consistent_def int_option_def char_option_def

theorem parse_options_one_action_witness:
  "\<exists>s'. parse_options [(Opt CHR ''v'', Some (cstr ''16'')), (Opt CHR ''b'', None)] [cstr ''a''] fresh_peer
      = Inr ((0, 1, []), s') \<and> int_option kOption_verbose s' = 16 \<and> int_option kOption_backup s' = 1
      \<and> int_option kOption_extract s' = 0"
proof -
  let ?o = "[(Opt CHR ''v'', Some (cstr ''16'')), (Opt CHR ''b'', None)]"
  let ?s = "fresh_peer\<lparr>int_option_array := ((\<lambda>_. 0)(kOption_verbose := 16))(kOption_backup := 1),
       char_option_array := (\<lambda>_. None)(kArchive_target \<mapsto> cstr ''a'')\<rparr>"
  have "atoi (cstr ''16'') = 16"
    by (simp add: atoi_def cstr_def c_string_def is_space_def is_digit_def)
  then have r: "parse_options ?o [cstr ''a''] fresh_peer = Inr ((0, 1, []), ?s)"
    by (simp add: parse_sample)
  then have "int_option kOption_backup ?s + int_option kOption_extract ?s + int_option kOption_list ?s
      + int_option kOption_server ?s \<le> 1"
    using parse_options_one_action [OF fresh_peer_fresh r] by blast
  with r show ?thesis by (auto simp: int_option_def)
qed

text \<open>C38. The program never acts as a server: whatever the command line, when it is accepted with the
  server's option set, \<open>do_daemon\<close> refuses to start, because accepting it needs the name of an
  archive (\<open>flags_consistent\<close>) and starting needs that there are no arguments (\<open>confirm_arguments\<close>).\<close>

theorem daemon_never_serves:
  assumes "fresh s" and "parse_options opts args s = Inr ((0, num_args, g_args), s')"
    and "int_option kOption_server s' \<noteq> 0"
  shows "do_daemon ext su num_args s' = Inr (-1, s')"
proof -
  note inv = parse_options_inv [OF assms(2,1)]
  have c: "flags_consistent s'" "num_args = int (length args)"
    "char_option kArchive_target s' = (case args of [] \<Rightarrow> None | a # _ \<Rightarrow> Some a)" using inv(3) by simp_all
  have "args \<noteq> []" using needs_target [OF inv(1) c(1)] assms(3) c(3) by auto
  then show ?thesis using c(2) by (simp add: do_daemon_def confirm_arguments_def)
qed

definition sample_surroundings :: "'e surroundings" where
  "sample_surroundings = ambient.extend sample_ambient
     \<lparr>su_stdin = [], su_events = [], su_spawn = (\<lambda>_. Some 7), su_asctime = (\<lambda>_. [])\<rparr>"

theorem daemon_never_serves_witness:
  "\<exists>s'. parse_options [(kDaemon, None)] [cstr ''a''] fresh_peer = Inr ((0, 1, []), s')
    \<and> do_daemon map_db sample_surroundings 1 s' = Inr (-1, s')"
proof -
  let ?s = "fresh_peer\<lparr>int_option_array := (\<lambda>_. 0)(kOption_server := 1),
       char_option_array := (\<lambda>_. None)(kArchive_target \<mapsto> cstr ''a'')\<rparr>"
  have r: "parse_options [(kDaemon, None)] [cstr ''a''] fresh_peer = Inr ((0, 1, []), ?s)"
    by (simp add: parse_sample)
  have "do_daemon map_db sample_surroundings 1 ?s = Inr (-1, ?s)"
    by (rule daemon_never_serves [OF fresh_peer_fresh r]) (simp add: int_option_def)
  with r show ?thesis by blast
qed

lemma pref_get_value_unopened:
  assumes "database_ptrs s kConstants = None"
  shows "\<exists>e. pref_get_value ext key s = Inl e"
proof -
  have "\<exists>e. const_get_string ext key s = Inl e"
    unfolding const_get_string_def using assms
    by (intro andthen_Inl_right) (auto simp: lifted_def db_get_def db_ptr_def elim: rbind_InrE)
  then show ?thesis by (auto simp: pref_get_value_def)
qed

lemma init_crypto_ptrs: "init_crypto ext s = Inr (x, s') \<Longrightarrow>
  database_ptrs s' = database_ptrs s \<and> int_option_array s' = int_option_array s"
  by (auto simp: init_crypto_def yarrow_read_def generate_random_key_def string_to_key_def require_def
      split: if_splits option.splits prod.splits elim!: andthen_InrE)



end
