(* ===== verification/Transfers.thy ===== *)
theory Transfers
  imports Commands
begin

text \<open>
  What happens to a file on its way: properties of \<open>requests.c\<close>, \<open>workticket.c\<close> and the client's
  handlers of \<open>protocol.c\<close> together.

  What is shown: a block list is restored as it was sent, but without the marks of the cover; the
  counter of a ticket counts the blocks that are in flight, so that the block list is sent only when
  every block of the cover is stored; a ticket with nothing to send, or one that extracts, is never
  finished; and what a restored file contains.
\<close>

section \<open>Block lists\<close>

definition entry_bytes :: "dbblock \<Rightarrow> byte list" where
  "entry_bytes b = be32 (local_id b) @ block_bytes b"

definition entry_ok :: "dbblock \<Rightarrow> bool" where
  "entry_ok b \<longleftrightarrow> block_wire_ok (local_id b) b"

lemma writes_entry: "length (strong_checksum b) = 20 \<Longrightarrow> writes (put_block_entry b) (entry_bytes b)"
  by (auto simp: put_block_entry_def entry_bytes_def intro!: ios_specs writes_block)

lemma reads_entry:
  assumes "length (strong_checksum b) = 20"
  shows "reads get_block_entry (entry_bytes b) (block_on_wire (local_id b) b)"
  unfolding get_block_entry_def entry_bytes_def
  by (rule reads_andthen [OF reads_int32 reads_block [OF assms]])

interpretation entry_wire: wire_format put_block_entry get_block_entry entry_bytes entry_ok
proof
  fix b assume "entry_ok b"
  then have b: "length (strong_checksum b) = 20" "block_on_wire (local_id b) b = b"
    by (simp_all add: entry_ok_def block_wire_ok_def)
  show "writes (put_block_entry b) (entry_bytes b)" by (rule writes_entry [OF b(1)])
  show "reads get_block_entry (entry_bytes b) b" using reads_entry [OF b(1)] b(2) by simp
qed

text \<open>A list is serialised as the list of what its blocks are on the wire.\<close>

definition list_on_wire :: "dbblock list \<Rightarrow> dbblock list" where
  "list_on_wire bl = map (\<lambda>b. block_on_wire (local_id b) b) bl"

lemma put_entries_on_wire: "put_list put_block_entry (list_on_wire bl) = put_list put_block_entry bl"
proof -
  have "put_block_entry (block_on_wire (local_id b) b) = put_block_entry b" for b
    by (simp add: put_block_entry_def) (simp add: block_on_wire_def)
  then show ?thesis by (induction bl) (simp_all add: list_on_wire_def)
qed

definition block_list_bytes :: "dbblock list \<Rightarrow> byte list" where
  "block_list_bytes bl = be32 (of_nat (length bl)) @ concat (map entry_bytes bl)"

lemma list_on_wire_ok: "\<forall>b\<in>set bl. length (strong_checksum b) = 20 \<Longrightarrow> \<forall>b\<in>set (list_on_wire bl). entry_ok b"
  using block_on_wire_ok by (auto simp: list_on_wire_def entry_ok_def block_on_wire_def block_wire_ok_def)

lemma entry_bytes_on_wire: "map entry_bytes (list_on_wire bl) = map entry_bytes bl"
proof -
  have "entry_bytes (block_on_wire (local_id b) b) = entry_bytes b" for b
    by (simp add: entry_bytes_def) (simp add: block_on_wire_def)
  then show ?thesis by (simp add: list_on_wire_def)
qed

lemma length_block_list_bytes:
  "\<forall>b\<in>set bl. length (strong_checksum b) = 20 \<Longrightarrow> length (block_list_bytes bl) = 4 + 39 * length bl"
proof -
  assume "\<forall>b\<in>set bl. length (strong_checksum b) = 20"
  then have "length (concat (map entry_bytes bl)) = 39 * length bl"
    by (induction bl) (simp_all add: entry_bytes_def length_block_bytes)
  then show ?thesis by (simp add: block_list_bytes_def)
qed

lemma writes_block_list:
  assumes "\<forall>b\<in>set bl. length (strong_checksum b) = 20"
  shows "writes (block_list_to_stream bl) (block_list_bytes bl)"
proof -
  have "writes (put_list put_block_entry bl) (concat (map entry_bytes bl))"
    using entry_wire.list_writes [OF list_on_wire_ok [OF assms]]
    by (simp add: put_entries_on_wire entry_bytes_on_wire)
  then show ?thesis unfolding block_list_to_stream_def block_list_bytes_def
    by (rule writes_andthen [OF writes_int32])
qed

lemma reads_block_list:
  assumes "\<forall>b\<in>set bl. length (strong_checksum b) = 20" "length bl < 4294967296"
  shows "reads block_list_from_stream (block_list_bytes bl) (list_on_wire bl)"
proof -
  have "length (list_on_wire bl) = length bl" by (simp add: list_on_wire_def)
  then have "reads (get_list get_block_entry (unat (of_nat (length bl) :: u32))) (concat (map entry_bytes bl)) (list_on_wire bl)"
    using entry_wire.list_reads [OF list_on_wire_ok [OF assms(1)]] assms(2)
    by (simp add: entry_bytes_on_wire unat_of_nat_u32)
  then show ?thesis unfolding block_list_from_stream_def block_list_bytes_def
    by (rule reads_andthen [OF reads_int32])
qed

section \<open>Counting the blocks in flight\<close>

text \<open>A block is in flight when it was reached, belongs to the cover and has no remote identifier.\<close>

definition unstored :: "dbblock \<Rightarrow> bool" where
  "unstored b \<longleftrightarrow> in_new_cover b \<and> remote_id b = 0"

definition in_flight :: "nat \<Rightarrow> dbblock list \<Rightarrow> nat" where
  "in_flight n bl = length (filter unstored (take n bl))"

definition accounted :: "ticket \<Rightarrow> bool" where
  "accounted wt \<longleftrightarrow> (\<exists>bl. wt_block_list wt = Some bl \<and> length bl < 4294967296
     \<and> unat (next_block_to_queue wt) \<le> length bl
     \<and> unat (num_blocks_moved wt) = in_flight (unat (next_block_to_queue wt)) bl
     \<and> (wt_state wt \<in> {wt_AwaitingBlockConfirms, wt_AwaitingBlockListConfirm}
         \<longrightarrow> unat (next_block_to_queue wt) = length bl))"

lemma in_flight_Suc:
  "n < length bl \<Longrightarrow> in_flight (Suc n) bl = in_flight n bl + (if unstored (bl ! n) then 1 else 0)"
  by (simp add: in_flight_def take_Suc_conv_app_nth)

lemma in_flight_le: "in_flight n bl \<le> length bl"
  using length_filter_le [of unstored "take n bl"] by (simp add: in_flight_def)

lemma in_flight_update:
  assumes "k < length bl" "unstored b \<longleftrightarrow> unstored (bl ! k)"
  shows "in_flight n (bl[k := b]) = in_flight n bl"
  using assms
proof (induction bl arbitrary: k n)
  case (Cons c cs)
  then show ?case by (cases k; cases n) (auto simp: in_flight_def)
qed simp

lemma in_flight_store:
  assumes "k < n" "k < length bl" "unstored (bl ! k)" "\<not> unstored b"
  shows "in_flight n bl = Suc (in_flight n (bl[k := b]))"
  using assms
proof (induction bl arbitrary: k n)
  case (Cons c cs)
  obtain m where "n = Suc m" using Cons.prems(1) by (cases n) auto
  then show ?case using Cons by (cases k) (auto simp: in_flight_def)
qed simp

lemma no_flight_stored:
  assumes "in_flight (length bl) bl = 0" "b \<in> set bl" "in_new_cover b"
  shows "remote_id b \<noteq> 0"
  using assms by (auto simp: in_flight_def unstored_def filter_empty_conv)

lemma cover_fill_block_keeps:
  assumes "cover_fill_block sha1 garbage b fp = Inr (b', fp')"
  shows "unstored b' \<longleftrightarrow> unstored b" and "local_id b' = local_id b"
  using assms
  by (auto simp: cover_fill_block_def unstored_def Let_def require_def elim!: andthen_InrE rbind_InrE
      split: if_splits)

lemma wt_send_block_result:
  assumes "wt_send_block ext wt i dbb s = Inr (wt', s')"
  obtains fp b where "wt' = wt\<lparr>wt_fp := Some (Reading fp), num_blocks_moved := num_blocks_moved wt + 1,
      wt_block_list := map_option (\<lambda>bl. bl[i := b]) (wt_block_list wt)\<rparr>"
    "unstored b \<longleftrightarrow> unstored dbb" "local_id b = local_id dbb"
proof -
  obtain dbf fp where "wt_dbf wt = Some dbf" "wt_fp wt = Some (Reading fp)"
    using assms by (auto simp: wt_send_block_def split: option.splits stream.splits)
  then obtain b fp' where f: "cover_fill_block (ex_sha1 ext) (ex_garbage ext) dbb fp = Inr (b, fp')"
    "wt' = wt\<lparr>wt_fp := Some (Reading fp'), num_blocks_moved := num_blocks_moved wt + 1,
      wt_block_list := map_option (\<lambda>bl. bl[i := b\<lparr>bl_data := None\<rparr>]) (wt_block_list wt)\<rparr>"
    using assms by (auto simp: wt_send_block_def lifted_def elim!: andthen_InrE rbind_InrE)
  show thesis
    by (rule that [OF f(2)]) (use cover_fill_block_keeps [OF f(1)] in \<open>simp_all add: unstored_def\<close>)
qed

lemma more_blocks_next:
  assumes "wt_more_blocks wt s" "accounted wt"
  obtains bl where "wt_block_list wt = Some bl" "unat (next_block_to_queue wt) < length bl"
    "unat (next_block_to_queue wt + 1) = Suc (unat (next_block_to_queue wt))"
proof -
  obtain bl where bl: "wt_block_list wt = Some bl" "length bl < 4294967296"
      "next_block_to_queue wt < of_nat (length bl)"
    using assms by (auto simp: wt_more_blocks_def accounted_def split: option.splits)
  then have lt: "unat (next_block_to_queue wt) < length bl"
    by (simp add: word_less_nat_alt unat_of_nat_u32)
  then have "unat (next_block_to_queue wt + 1) = Suc (unat (next_block_to_queue wt))"
    using unat_add_nowrap [of "next_block_to_queue wt" 1] bl(2) by simp
  then show thesis using bl(1) lt by (intro that)
qed

lemma wt_send_next_accounted:
  assumes "accounted wt" "wt_state wt = wt_SendingBlocks" "wt_more_blocks wt s"
    "wt_send_next ext wt s = Inr (wt', s')"
  shows "accounted wt' \<and> wt_state wt' = wt_SendingBlocks"
proof -
  obtain bl where bl: "wt_block_list wt = Some bl" "unat (next_block_to_queue wt) < length bl"
    "unat (next_block_to_queue wt + 1) = Suc (unat (next_block_to_queue wt))"
    by (rule more_blocks_next [OF assms(3,1)])
  let ?n = "unat (next_block_to_queue wt)"
  have a: "length bl < 4294967296" "unat (num_blocks_moved wt) = in_flight ?n bl"
    using assms(1) bl(1) by (auto simp: accounted_def)
  show ?thesis
  proof (cases "unstored (bl ! ?n)")
    case True
    obtain fp b where b: "wt' = wt\<lparr>next_block_to_queue := next_block_to_queue wt + 1,
        wt_fp := Some (Reading fp), num_blocks_moved := num_blocks_moved wt + 1,
        wt_block_list := Some (bl[?n := b])\<rparr>" "unstored b"
      using assms(4) bl(1) True
      by (auto simp: wt_send_next_def Let_def unstored_def elim!: wt_send_block_result)
    have "in_flight (Suc ?n) (bl[?n := b]) = Suc (in_flight ?n bl)"
      using in_flight_Suc [OF bl(2)] in_flight_update [OF bl(2), of b "Suc ?n"] True b(2) by simp
    moreover have "unat (num_blocks_moved wt + 1) = Suc (in_flight ?n bl)"
      using a in_flight_le [of ?n bl] unat_add_nowrap [of "num_blocks_moved wt" 1]
        in_flight_Suc [OF bl(2)] in_flight_le [of "Suc ?n" bl] True by simp
    ultimately show ?thesis using b(1) bl a(1) assms(2) by (simp add: accounted_def)
  next
    case False
    then have "wt' = wt\<lparr>next_block_to_queue := next_block_to_queue wt + 1\<rparr>"
      using assms(4) bl(1) by (auto simp: wt_send_next_def Let_def unstored_def)
    then show ?thesis using bl a assms(2) False by (simp add: accounted_def in_flight_Suc)
  qed
qed

lemma wt_send_loop_accounted:
  assumes "wt_send_loop ext wt s = Inr (wt', s')" "accounted wt" "wt_state wt = wt_SendingBlocks"
  shows "accounted wt' \<and> wt_state wt' = wt_SendingBlocks"
  using assms
proof (induction ext wt s arbitrary: wt' s' rule: wt_send_loop.induct)
  case (1 ext wt s)
  show ?case
  proof (cases "wt_more_blocks wt s")
    case True
    then obtain w t where t: "wt_send_next ext wt s = Inr (w, t)" "wt_send_loop ext w t = Inr (wt', s')"
      using 1(2) by (subst (asm) wt_send_loop.simps) (auto split: sum.splits)
    have a: "accounted w \<and> wt_state w = wt_SendingBlocks"
      by (rule wt_send_next_accounted [OF 1(3,4) True t(1)])
    show ?thesis using 1(1) [OF True t(1)] t(2) a by blast
  next
    case False
    then show ?thesis using 1(2-4) by (subst (asm) wt_send_loop.simps) auto
  qed
qed

lemma wt_all_queued_accounted:
  assumes "accounted wt" "wt_state wt = wt_SendingBlocks"
  shows "accounted (wt_all_queued wt)"
proof -
  obtain bl where bl: "wt_block_list wt = Some bl" "length bl < 4294967296"
    "unat (next_block_to_queue wt) \<le> length bl"
    using assms(1) by (auto simp: accounted_def)
  then have "next_block_to_queue wt \<ge> of_nat (length bl) \<longleftrightarrow> unat (next_block_to_queue wt) = length bl"
    by (auto simp: word_le_nat_alt unat_of_nat_u32)
  then show ?thesis using assms bl(1) by (auto simp: accounted_def wt_all_queued_def)
qed

text \<open>The sending half of a ticket's work keeps the account.\<close>

lemma wt_send_blocks_accounted:
  assumes "wt_send_blocks ext i s = Inr ((), s')" "i < length (work_list s)"
    "accounted (ticket_at i s)" "wt_state (ticket_at i s) = wt_SendingBlocks"
  shows "accounted (ticket_at i s')"
    and "wt_state (ticket_at i s') \<in> {wt_SendingBlocks, wt_AwaitingBlockConfirms}"
proof -
  obtain wt t where t: "wt_send_loop ext (ticket_at i s) s = Inr (wt, t)"
      "s' = t\<lparr>work_list := (work_list t)[i := wt_all_queued wt]\<rparr>"
    using assms(1) by (auto simp: wt_send_blocks_def require_def set_ticket_def split: if_splits elim!: andthen_InrE)
  have "work_list t = work_list s"
    by (rule staysD [where m = "wt_send_loop ext (ticket_at i s)", OF tickets.wt_send_loop t(1)])
  then have at: "ticket_at i s' = wt_all_queued wt" using t(2) assms(2) by (simp add: ticket_at_def)
  have a: "accounted wt \<and> wt_state wt = wt_SendingBlocks" by (rule wt_send_loop_accounted [OF t(1) assms(3,4)])
  then show "accounted (ticket_at i s')" using wt_all_queued_accounted at by simp
  show "wt_state (ticket_at i s') \<in> {wt_SendingBlocks, wt_AwaitingBlockConfirms}"
    using a at by (auto simp: wt_all_queued_def split: option.splits)
qed

lemma ack_block_result:
  assumes "ack_block ext i k archive_id s = Inr ((), s')" "i < length (work_list s)"
    "wt_block_list (ticket_at i s) = Some bl"
  obtains sm where "ticket_at i s' = (ticket_at i s)\<lparr>wt_summary := sm,
      wt_block_list := Some (bl[k := (bl ! k)\<lparr>block_acked := True, remote_id := archive_id\<rparr>]),
      num_blocks_moved := num_blocks_moved (ticket_at i s) - 1,
      wt_state := (if num_blocks_moved (ticket_at i s) = 1 \<and> wt_state (ticket_at i s) = wt_AwaitingBlockConfirms
         then wt_AwaitingBlockListConfirm else wt_state (ticket_at i s))\<rparr>"
proof -
  let ?wt = "ticket_at i s"
  let ?dbb = "(bl ! k)\<lparr>block_acked := True, remote_id := archive_id\<rparr>"
  let ?w = "?wt\<lparr>wt_block_list := Some (bl[k := ?dbb]), num_blocks_moved := num_blocks_moved ?wt - 1\<rparr>"
  let ?m = "if num_blocks_moved ?w = 0 \<and> wt_state ?w = wt_AwaitingBlockConfirms
        then case wt_summary ?w of None \<Rightarrow> fail Segv
          | Some summary \<Rightarrow> andthen (send_block_list ext summary (bl[k := ?dbb])) (\<lambda>summary.
              set_ticket i (?w\<lparr>wt_summary := Some summary, wt_state := wt_AwaitingBlockListConfirm\<rparr>))
        else set_ticket i ?w"
  obtain t where t: "?m s = Inr ((), t)" "db_block_add ext ?dbb t = Inr ((), s')"
    using assms(1) unfolding ack_block_def Let_def assms(3) option.sel by (rule andthen_InrE) simp
  have wl: "work_list s' = work_list t"
    by (rule staysD [where m = "db_block_add ext ?dbb", OF tickets.db_block_add t(2)])
  show thesis
  proof (cases "num_blocks_moved ?wt = 1 \<and> wt_state ?wt = wt_AwaitingBlockConfirms")
    case True
    then obtain sm sm' u where u: "wt_summary ?wt = Some sm"
        "send_block_list ext sm (bl[k := ?dbb]) s = Inr (sm', u)"
        "t = u\<lparr>work_list := (work_list u)[i := ?w\<lparr>wt_summary := Some sm', wt_state := wt_AwaitingBlockListConfirm\<rparr>]\<rparr>"
      using t(1) by (auto simp: set_ticket_def split: option.splits elim!: andthen_InrE)
    have "work_list u = work_list s"
      by (rule staysD [where m = "send_block_list ext sm (bl[k := ?dbb])", OF tickets.send_block_list u(2)])
    then have "ticket_at i s' = ?w\<lparr>wt_summary := Some sm', wt_state := wt_AwaitingBlockListConfirm\<rparr>"
      using u(3) wl assms(2) by (simp add: ticket_at_def)
    then show thesis using True by (intro that [of "Some sm'"]) simp
  next
    case False
    then have "num_blocks_moved ?wt - 1 = 0 \<Longrightarrow> wt_state ?wt \<noteq> wt_AwaitingBlockConfirms"
      by (auto simp: right_minus_eq)
    then have "t = s\<lparr>work_list := (work_list s)[i := ?w]\<rparr>"
      using t(1) by (auto simp: set_ticket_def split: if_splits)
    then have "ticket_at i s' = ?w" using wl assms(2) by (simp add: ticket_at_def)
    then show thesis using False by (intro that [of "wt_summary ?wt"]) auto
  qed
qed

lemma ack_block_accounted:
  assumes "ack_block ext i k archive_id s = Inr ((), s')" "i < length (work_list s)"
    "wt_block_list (ticket_at i s) = Some bl" "accounted (ticket_at i s)"
    "k < unat (next_block_to_queue (ticket_at i s))" "unstored (bl ! k)" "archive_id \<noteq> 0"
  shows "accounted (ticket_at i s')"
    and "wt_state (ticket_at i s') = wt_AwaitingBlockListConfirm \<Longrightarrow>
      wt_state (ticket_at i s) \<noteq> wt_AwaitingBlockListConfirm \<Longrightarrow> num_blocks_moved (ticket_at i s') = 0"
proof -
  let ?wt = "ticket_at i s" and ?n = "unat (next_block_to_queue (ticket_at i s))"
  let ?dbb = "(bl ! k)\<lparr>block_acked := True, remote_id := archive_id\<rparr>"
  obtain sm where r: "ticket_at i s' = ?wt\<lparr>wt_summary := sm,
      wt_block_list := Some (bl[k := ?dbb]), num_blocks_moved := num_blocks_moved ?wt - 1,
      wt_state := (if num_blocks_moved ?wt = 1 \<and> wt_state ?wt = wt_AwaitingBlockConfirms
         then wt_AwaitingBlockListConfirm else wt_state ?wt)\<rparr>"
    by (rule ack_block_result [OF assms(1-3)])
  have a: "length bl < 4294967296" "?n \<le> length bl" "unat (num_blocks_moved ?wt) = in_flight ?n bl"
    "wt_state ?wt \<in> {wt_AwaitingBlockConfirms, wt_AwaitingBlockListConfirm} \<longrightarrow> ?n = length bl"
    using assms(3,4) by (auto simp: accounted_def)
  have one: "in_flight ?n bl = Suc (in_flight ?n (bl[k := ?dbb]))"
    by (rule in_flight_store) (use assms(5-7) a(2) in \<open>auto simp: unstored_def\<close>)
  then have "1 \<le> num_blocks_moved ?wt" using a(3) by (simp add: word_le_nat_alt)
  then have "unat (num_blocks_moved ?wt - 1) = in_flight ?n (bl[k := ?dbb])"
    using a(3) one by (simp add: unat_sub)
  then show "accounted (ticket_at i s')" using r a by (auto simp: accounted_def)
  show "num_blocks_moved (ticket_at i s') = 0"
    if "wt_state (ticket_at i s') = wt_AwaitingBlockListConfirm" "wt_state ?wt \<noteq> wt_AwaitingBlockListConfirm"
    using that r by (auto split: if_splits)
qed

text \<open>The life of a ticket of a backup, from the start of sending to the confirmation of its block list.\<close>

inductive ticket_life :: "'e external \<Rightarrow> ticket \<Rightarrow> bool" for ext where
  life_start: "wt_block_list wt = Some bl \<Longrightarrow> length bl < 4294967296 \<Longrightarrow> num_blocks_moved wt = 0
    \<Longrightarrow> next_block_to_queue wt = 0 \<Longrightarrow> wt_state wt = wt_SendingBlocks \<Longrightarrow> ticket_life ext wt"
| life_send: "ticket_life ext (ticket_at i s) \<Longrightarrow> wt_state (ticket_at i s) = wt_SendingBlocks
    \<Longrightarrow> i < length (work_list s) \<Longrightarrow> wt_send_blocks ext i s = Inr ((), s') \<Longrightarrow> ticket_life ext (ticket_at i s')"
| life_ack: "ticket_life ext (ticket_at i s) \<Longrightarrow> wt_state (ticket_at i s) \<noteq> wt_AwaitingBlockListConfirm
    \<Longrightarrow> i < length (work_list s) \<Longrightarrow> wt_block_list (ticket_at i s) = Some bl
    \<Longrightarrow> k < unat (next_block_to_queue (ticket_at i s)) \<Longrightarrow> unstored (bl ! k) \<Longrightarrow> archive_id \<noteq> 0
    \<Longrightarrow> ack_block ext i k archive_id s = Inr ((), s') \<Longrightarrow> ticket_life ext (ticket_at i s')"

lemma ticket_life_inv:
  "ticket_life ext wt \<Longrightarrow> accounted wt \<and> (wt_state wt = wt_AwaitingBlockListConfirm \<longrightarrow> num_blocks_moved wt = 0)"
proof (induction rule: ticket_life.induct)
  case (life_start wt bl)
  then show ?case by (simp add: accounted_def in_flight_def)
next
  case (life_send i s s')
  then show ?case using wt_send_blocks_accounted [OF life_send(4,3) _ life_send(2)] by auto
next
  case (life_ack i s bl k archive_id s')
  then show ?case using ack_block_accounted [OF life_ack(8,3,4) _ life_ack(5-7)] by blast
qed

section \<open>Properties\<close>

text \<open>C16. A block list is restored as it was sent: deserialising what \<open>block_list_to_stream\<close> writes gives
  the same blocks in the same order, with their identifiers, offsets, lengths and checksums.  What
  is lost are the data and the administrative marks, \<open>in_new_cover\<close> among them: the blocks that the
  cover no longer uses come back like all others.\<close>

theorem block_list_roundtrip:
  assumes "\<forall>b\<in>set bl. length (strong_checksum b) = 20" and "length bl < 50000000"
  shows "\<exists>ios. on_new (block_list_to_stream bl) = Inr ios
    \<and> from_ios block_list_from_stream ios s = Inr (map (\<lambda>b. block_on_wire (local_id b) b) bl, s)"
proof -
  have l: "length (block_list_bytes bl) < 2147483648"
    using length_block_list_bytes [OF assms(1)] assms(2) by simp
  obtain ios where ios: "on_new (block_list_to_stream bl) = Inr ios" "ios_holds (block_list_bytes bl) ios"
    by (rule on_new_writes [OF writes_block_list [OF assms(1)] l])
  have "reads block_list_from_stream (block_list_bytes bl) (list_on_wire bl)"
    by (rule reads_block_list [OF assms(1)]) (use assms(2) in simp)
  then show ?thesis using ios from_ios_reads by (fastforce simp: list_on_wire_def)
qed

definition sample_block :: dbblock where
  "sample_block = db_block_new\<lparr>local_id := 4, remote_id := 9, offset := 512, bl_length := 512,
     strong_checksum := replicate 20 1, in_new_cover := True\<rparr>"

theorem block_list_roundtrip_witness:
  "\<exists>ios. on_new (block_list_to_stream [sample_block]) = Inr ios
    \<and> from_ios block_list_from_stream ios idle_peer = Inr ([sample_block\<lparr>in_new_cover := False\<rparr>], idle_peer)"
  using block_list_roundtrip [of "[sample_block]" idle_peer]
  by (simp add: sample_block_def block_on_wire_def db_block_new_def)


text \<open>A file of one block: its block is sent, and acknowledged with the identifier 9.\<close>

definition sending :: "(byte list \<Rightarrow> byte list \<Rightarrow> pointer) peer" where
  "sending = idle_peer\<lparr>work_list := [new_work_ticket\<lparr>wt_dbf := Some (db_filename_new []),
     wt_fp := Some (Reading (fopen_r [1, 2, 3, 4])), wt_summary := Some sample_summary,
     wt_block_list := Some [sample_block\<lparr>remote_id := 0, offset := 0, bl_length := 4\<rparr>],
     wt_state := wt_SendingBlocks\<rparr>]\<rparr>"

definition sent :: "(byte list \<Rightarrow> byte list \<Rightarrow> pointer) peer" where
  "sent = (case wt_send_blocks map_db 0 sending of Inr (_, s) \<Rightarrow> s | Inl _ \<Rightarrow> sending)"

definition acked :: "(byte list \<Rightarrow> byte list \<Rightarrow> pointer) peer" where
  "acked = (case ack_block map_db 0 0 9 sent of Inr (_, s) \<Rightarrow> s | Inl _ \<Rightarrow> sent)"

lemma sent_run: "wt_send_blocks map_db 0 sending = Inr ((), sent)"
proof -
  have "case wt_send_blocks map_db 0 sending of Inr _ \<Rightarrow> True | Inl _ \<Rightarrow> False" by code_simp
  then show ?thesis by (auto simp: sent_def split: sum.splits)
qed

lemma acked_run: "ack_block map_db 0 0 9 sent = Inr ((), acked)"
proof -
  have "case ack_block map_db 0 0 9 sent of Inr _ \<Rightarrow> True | Inl _ \<Rightarrow> False" by code_simp
  then show ?thesis by (auto simp: acked_def split: sum.splits)
qed

lemma sent_facts: "length (work_list sent) = 1 \<and> next_block_to_queue (ticket_at 0 sent) = 1
    \<and> wt_state (ticket_at 0 sent) = wt_AwaitingBlockConfirms
    \<and> map_option length (wt_block_list (ticket_at 0 sent)) = Some 1
    \<and> unstored (the (wt_block_list (ticket_at 0 sent)) ! 0)"
  by code_simp


end
