(* ===== verification/Restore.thy ===== *)
theory Restore
  imports Transfers
begin

text \<open>
  The end of an extraction: what the client of \<open>protocol.c\<close> does with the blocks that come back.

  What is shown: a block is written only when it is the one that was asked for; the blocks of a
  cover, in any order, give back the bytes they cover; the ticket of a file with nothing to send
  and the ticket of an extraction are never finished.  \<open>accept_blocks\<close> and \<open>install_blocks\<close> are
  the handlers of the code, repeated for the messages of a whole list.
\<close>

section \<open>Tickets that are never finished\<close>

lemma wt_send_loop_nothing:
  assumes "wt_block_list wt = Some bl" "length bl < 4294967296"
    "unat (next_block_to_queue wt) \<le> length bl"
    "\<forall>b\<in>set (drop (unat (next_block_to_queue wt)) bl). \<not> unstored b"
    "ios_buffer_size (ios_write_buf s) < desired_queue_size"
  shows "wt_send_loop ext wt s = Inr (wt\<lparr>next_block_to_queue := of_nat (length bl)\<rparr>, s)"
  using assms
proof (induction "length bl - unat (next_block_to_queue wt)" arbitrary: wt)
  case 0
  then have "next_block_to_queue wt = of_nat (length bl)"
    by (simp add: word_unat_eq_iff unat_of_nat_u32)
  then show ?case using 0 by (subst wt_send_loop.simps) (simp add: wt_more_blocks_def)
next
  case (Suc m)
  let ?n = "unat (next_block_to_queue wt)"
  have lt: "?n < length bl" using Suc(2) by simp
  then have more: "wt_more_blocks wt s"
    using Suc.prems by (simp add: wt_more_blocks_def word_less_nat_alt unat_of_nat_u32)
  have n1: "unat (next_block_to_queue wt + 1) = Suc ?n"
    using unat_add_nowrap [of "next_block_to_queue wt" 1] lt Suc.prems(2) by simp
  have "bl ! ?n \<in> set (drop ?n bl)" using lt by (metis Cons_nth_drop_Suc list.set_intros(1))
  then have next1: "wt_send_next ext wt s = Inr (wt\<lparr>next_block_to_queue := next_block_to_queue wt + 1\<rparr>, s)"
    using Suc.prems(1,4) by (auto simp: wt_send_next_def Let_def unstored_def)
  have "set (drop (Suc ?n) bl) \<subseteq> set (drop ?n bl)" by (rule set_drop_subset_set_drop) simp
  then have "\<forall>b\<in>set (drop (Suc ?n) bl). \<not> unstored b" "m = length bl - Suc ?n"
    using Suc.prems(4) Suc(2) by auto
  then have "wt_send_loop ext (wt\<lparr>next_block_to_queue := next_block_to_queue wt + 1\<rparr>) s
      = Inr (wt\<lparr>next_block_to_queue := of_nat (length bl)\<rparr>, s)"
    using Suc(1) [of "wt\<lparr>next_block_to_queue := next_block_to_queue wt + 1\<rparr>"] Suc.prems n1 lt by simp
  then show ?case using more next1 by (subst wt_send_loop.simps) simp
qed

text \<open>What a client does with the blocks it receives for one ticket.\<close>

primrec accept_blocks :: "'e external \<Rightarrow> nat \<Rightarrow> proto_get_block_ack list \<Rightarrow> ('e peer, unit) prog" where
  "accept_blocks ext i [] = ret ()"
| "accept_blocks ext i (g # gs) = andthen (accept_get_ack_block ext i g) (\<lambda>_. accept_blocks ext i gs)"

lemma fwrite_at_tickets: "fwrite_at path pos d s = Inr (x, s') \<Longrightarrow> work_list s' = work_list s"
  by (auto simp: fwrite_at_def split: option.splits node.splits)

lemma install_block_stays:
  assumes "install_block ext i dbb s = Inr (x, s')" "i < length (work_list s)"
    "num_blocks_moved (ticket_at i s) \<noteq> 0"
  shows "length (work_list s') = length (work_list s)
    \<and> num_blocks_moved (ticket_at i s') = num_blocks_moved (ticket_at i s)"
  using assms
  by (auto simp: install_block_def Let_def set_ticket_def ticket_at_def dest!: fwrite_at_tickets
      split: if_splits option.splits stream.splits elim!: andthen_InrE)

lemma accept_get_ack_block_stays:
  assumes "accept_get_ack_block ext i g s = Inr (x, s')" "i < length (work_list s)"
    "num_blocks_moved (ticket_at i s) \<noteq> 1"
  shows "length (work_list s') = length (work_list s)
    \<and> num_blocks_moved (ticket_at i s') \<in> {num_blocks_moved (ticket_at i s), num_blocks_moved (ticket_at i s) - 1}"
proof (cases "s' = s")
  case False
  let ?wt = "ticket_at i s"
  obtain ios k where k: "gba_ios g = Some ios" "wt_find_block ?wt (gba_block_id g) = Inr (Some k)"
    using assms(1) False by (auto simp: accept_get_ack_block_def split: option.splits if_splits elim!: rbind_InrE)
  obtain bl where bl: "wt_block_list ?wt = Some bl"
    using k(2) by (auto simp: wt_find_block_def split: option.splits)
  have nz: "ios_buffer_size ios \<noteq> 0" using assms(1) False k(1) by (auto simp: accept_get_ack_block_def)
  let ?w = "?wt\<lparr>num_blocks_moved := num_blocks_moved ?wt - 1\<rparr>"
  let ?b = "\<lambda>ios2. (bl ! k)\<lparr>block_acked := True, bl_data := ios_buffer ios2,
      bl_length := ucast (ios_buffer_size ios2)\<rparr>"
  let ?t = "\<lambda>t dbb. t\<lparr>work_list := (work_list t)[i := ?w\<lparr>wt_block_list := Some (bl[k := dbb\<lparr>bl_data := None\<rparr>])\<rparr>]\<rparr>"
  obtain ios2 t where t: "unpack ext ios (ucast (bl_length (bl ! k))) s = Inr (ios2, t)"
      "install_block ext i (?b ios2) (?t t (?b ios2)) = Inr (x, s')"
    using assms(1) k bl nz
    by (auto simp: accept_get_ack_block_def Let_def set_ticket_def elim!: andthen_InrE)
  have wl: "work_list t = work_list s"
    by (rule staysD [where m = "unpack ext ios (ucast (bl_length (bl ! k)))", OF tickets.unpack t(1)])
  have "num_blocks_moved (ticket_at i (?t t (?b ios2))) = num_blocks_moved ?wt - 1"
    using wl assms(2) by (simp add: ticket_at_def)
  moreover have "num_blocks_moved ?wt - 1 \<noteq> 0" using assms(3) by (simp add: right_minus_eq)
  ultimately show ?thesis using install_block_stays [OF t(2)] wl assms(2) by auto
qed simp

lemma accept_blocks_stays:
  assumes "accept_blocks ext i gs s = Inr (x, s')" "i < length (work_list s)"
    "num_blocks_moved (ticket_at i s) = - of_nat j" "j + length gs < 4294967295"
  shows "length (work_list s') = length (work_list s)"
  using assms
proof (induction gs arbitrary: s j)
  case (Cons g gs)
  obtain y t where t: "accept_get_ack_block ext i g s = Inr (y, t)" "accept_blocks ext i gs t = Inr (x, s')"
    using Cons.prems(1) by (auto elim!: andthen_InrE)
  have "num_blocks_moved (ticket_at i s) \<noteq> 1"
  proof
    assume "num_blocks_moved (ticket_at i s) = 1"
    then have "- (of_nat j :: u32) = 1" using Cons.prems(3) by simp
    then have "of_nat (Suc j) = (0 :: u32)" by (metis add.commute add.right_neutral add_eq_0_iff add_minus_cancel of_nat_Suc)
    then have "unat (of_nat (Suc j) :: u32) = 0" by simp
    then show False using Cons.prems(4) by (simp add: unat_of_nat_u32 del: of_nat_Suc)
  qed
  then have a: "length (work_list t) = length (work_list s)
    \<and> num_blocks_moved (ticket_at i t) \<in> {- of_nat j, - of_nat j - 1}"
    using accept_get_ack_block_stays [OF t(1) Cons.prems(2)] Cons.prems(3) by simp
  then have "num_blocks_moved (ticket_at i t) = - of_nat j \<or> num_blocks_moved (ticket_at i t) = - of_nat (Suc j)"
    by auto
  then show ?case
  proof
    assume "num_blocks_moved (ticket_at i t) = - of_nat j"
    then show ?thesis using Cons.IH [OF t(2), of j] a Cons.prems(2,4) by simp
  next
    assume "num_blocks_moved (ticket_at i t) = - of_nat (Suc j)"
    then show ?thesis using Cons.IH [OF t(2), of "Suc j"] a Cons.prems(2,4) by simp
  qed
qed simp

section \<open>Restoring\<close>

lemma SCsum_cmp_refl [simp]: "SCsum_cmp x x"
  by (simp add: SCsum_cmp_def)

lemma install_block_writes:
  assumes "i < length (work_list s)" "wt_fp (ticket_at i s) = Some (Writing path pos)"
    "num_blocks_moved (ticket_at i s) \<noteq> 0"
    "fs_nodes (file_sys s) path = Some (Regular f)" "\<not> fs_refuses (file_sys s) path"
    "bl_data dbb = Some d" "length d = unat (bl_length dbb)" "SCsum_cmp (ex_sha1 ext d) (strong_checksum dbb)"
  shows "install_block ext i dbb s = Inr ((), s\<lparr>
      file_sys := (file_sys s)\<lparr>fs_nodes := (fs_nodes (file_sys s))(path \<mapsto>
        Regular (f\<lparr>rf_data := write_at (unat (offset dbb)) d (rf_data f)\<rparr>))\<rparr>,
      work_list := (work_list s)[i := (ticket_at i s)\<lparr>wt_fp :=
        Some (Writing path (unat (offset dbb) + unat (bl_length dbb)))\<rparr>]\<rparr>)"
  using assms
  by (simp add: install_block_def Let_def fwrite_at_def set_ticket_def)

text \<open>A block of a file with its data, as \<open>cover_fill_block\<close> fills it.\<close>

definition cut_block :: "'e external \<Rightarrow> byte list \<Rightarrow> dbblock \<Rightarrow> dbblock" where
  "cut_block ext D b = (let w = window D (unat (bl_length b)) (unat (offset b)) in
     b\<lparr>bl_data := Some w, strong_checksum := ex_sha1 ext w\<rparr>)"

text \<open>It is: only the weak checksum, which an extraction does not look at, is left alone.\<close>

lemma cut_block_filled:
  assumes "cf_healthy f" "\<not> cf_err f" "local_id b \<noteq> 0" "bl_length b \<noteq> 0"
    "\<forall>n. length (ex_garbage ext n) = n" "4 dvd unat (bl_length b)"
    "unat (offset b) + unat (bl_length b) \<le> length (cf_data f)"
  shows "\<exists>b' f'. cover_fill_block (ex_sha1 ext) (ex_garbage ext) b f = Inr (b', f')
    \<and> b'\<lparr>weak_checksum := weak_checksum b\<rparr> = cut_block ext (cf_data f) b"
  using cover_fill_block_result [OF assms, of "ex_sha1 ext"] by (auto simp: cut_block_def Let_def)

definition within :: "byte list \<Rightarrow> dbblock \<Rightarrow> bool" where
  "within D b \<longleftrightarrow> block_range b \<subseteq> {0..<length D}"

lemma within_window:
  assumes "within D b"
  shows "length (window D (unat (bl_length b)) (unat (offset b))) = unat (bl_length b)"
    and "j < unat (bl_length b) \<Longrightarrow>
      window D (unat (bl_length b)) (unat (offset b)) ! j = D ! (unat (offset b) + j)"
proof -
  have r: "0 < unat (bl_length b) \<Longrightarrow> unat (offset b) + unat (bl_length b) \<le> length D"
    using assms by (auto simp: within_def block_range_def)
  then show "length (window D (unat (bl_length b)) (unat (offset b))) = unat (bl_length b)"
    by (cases "unat (bl_length b) = 0") (auto simp: window_def)
  show "window D (unat (bl_length b)) (unat (offset b)) ! j = D ! (unat (offset b) + j)"
    if "j < unat (bl_length b)" using r that by (auto simp: window_def)
qed

text \<open>A file agrees with another one on a set of positions.\<close>

definition agrees :: "byte list \<Rightarrow> byte list \<Rightarrow> nat set \<Rightarrow> bool" where
  "agrees D r S \<longleftrightarrow> length r \<le> length D \<and> (\<forall>j\<in>S. j < length r \<and> r ! j = D ! j)"

lemma agrees_write:
  assumes "agrees D r S" "within D b"
  shows "agrees D (write_at (unat (offset b)) (window D (unat (bl_length b)) (unat (offset b))) r) (S \<union> block_range b)"
proof -
  let ?o = "unat (offset b)" and ?n = "unat (bl_length b)"
  let ?w = "window D ?n ?o"
  have w: "length ?w = ?n" "\<And>j. j < ?n \<Longrightarrow> ?w ! j = D ! (?o + j)"
    using within_window [OF assms(2)] by simp_all
  show ?thesis
  proof (cases "?n = 0")
    case True
    then have "?w = []" using w(1) by simp
    then show ?thesis using assms(1) True by (simp add: write_at_def block_range_def)
  next
    case False
    then have ne: "?w \<noteq> []" using w(1) by auto
    have l: "length (write_at ?o ?w r) = max (length r) (?o + ?n)" using ne w(1) by (simp add: length_write_at)
    show ?thesis unfolding agrees_def
    proof (intro conjI ballI)
      have "?o + ?n - 1 \<in> {0..<length D}" using assms(2) False by (auto simp: within_def block_range_def)
      then have "?o + ?n \<le> length D" using False by simp
      then show "length (write_at ?o ?w r) \<le> length D" using l assms(1) by (simp add: agrees_def)
      fix j assume j: "j \<in> S \<union> block_range b"
      then show lt: "j < length (write_at ?o ?w r)"
        using assms(1) l by (auto simp: agrees_def block_range_def)
      show "write_at ?o ?w r ! j = D ! j"
        using j assms(1) w nth_write_at [OF lt] by (auto simp: agrees_def block_range_def)
    qed
  qed
qed

primrec install_blocks :: "'e external \<Rightarrow> nat \<Rightarrow> dbblock list \<Rightarrow> ('e peer, unit) prog" where
  "install_blocks ext i [] = ret ()"
| "install_blocks ext i (b # bs) = andthen (install_block ext i b) (\<lambda>_. install_blocks ext i bs)"

lemma install_blocks_agree:
  assumes "i < length (work_list s)" "wt_fp (ticket_at i s) = Some (Writing path pos)"
    "num_blocks_moved (ticket_at i s) \<noteq> 0"
    "fs_nodes (file_sys s) path = Some (Regular f)" "\<not> fs_refuses (file_sys s) path"
    "\<forall>b\<in>set bs. within D b" "agrees D (rf_data f) S"
  shows "\<exists>s' r. install_blocks ext i (map (cut_block ext D) bs) s = Inr ((), s')
    \<and> fs_nodes (file_sys s') path = Some (Regular (f\<lparr>rf_data := r\<rparr>))
    \<and> agrees D r (S \<union> (\<Union>b\<in>set bs. block_range b))"
  using assms
proof (induction bs arbitrary: s f pos S)
  case Nil
  then show ?case by (intro exI [of _ s] exI [of _ "rf_data f"]) simp
next
  case (Cons b bs)
  let ?w = "window D (unat (bl_length b)) (unat (offset b))"
  let ?f = "f\<lparr>rf_data := write_at (unat (offset b)) ?w (rf_data f)\<rparr>"
  have w: "length ?w = unat (bl_length b)" using Cons.prems(6) within_window(1) by simp
  let ?s = "s\<lparr>file_sys := (file_sys s)\<lparr>fs_nodes := (fs_nodes (file_sys s))(path \<mapsto> Regular ?f)\<rparr>,
      work_list := (work_list s)[i := (ticket_at i s)\<lparr>wt_fp :=
        Some (Writing path (unat (offset b) + unat (bl_length b)))\<rparr>]\<rparr>"
  have one: "install_block ext i (cut_block ext D b) s = Inr ((), ?s)"
    using install_block_writes [OF Cons.prems(1-5), of "cut_block ext D b" ?w ext] w by (simp add: cut_block_def Let_def)
  have agree: "agrees D (rf_data ?f) (S \<union> block_range b)"
    using agrees_write [OF Cons.prems(7)] Cons.prems(6) by simp
  have "\<exists>s' r. install_blocks ext i (map (cut_block ext D) bs) ?s = Inr ((), s')
    \<and> fs_nodes (file_sys s') path = Some (Regular (?f\<lparr>rf_data := r\<rparr>))
    \<and> agrees D r ((S \<union> block_range b) \<union> (\<Union>b\<in>set bs. block_range b))"
    by (rule Cons.IH [OF _ _ _ _ _ _ agree]) (use Cons.prems in \<open>simp_all add: ticket_at_def\<close>)
  then show ?case using one by (auto simp: Un_assoc)
qed

section \<open>Properties of tickets and files\<close>

text \<open>C14. Only the block that was asked for is written: \<open>install_block\<close> compares the checksum of what was
  received with the one in the block list.  An impostor leaves the process as it was; the true
  block replaces exactly its bytes at its offset in the file of the ticket.\<close>

theorem install_block_checks:
  assumes "i < length (work_list s)" and "wt_fp (ticket_at i s) = Some (Writing path pos)"
    and "num_blocks_moved (ticket_at i s) \<noteq> 0"
    and "fs_nodes (file_sys s) path = Some (Regular f)" and "\<not> fs_refuses (file_sys s) path"
    and "bl_data dbb = Some d" and "length d = unat (bl_length dbb)"
  shows "\<exists>s'. install_block ext i dbb s = Inr ((), s')
    \<and> (if SCsum_cmp (ex_sha1 ext d) (strong_checksum dbb)
       then fs_nodes (file_sys s') = (fs_nodes (file_sys s))(path \<mapsto>
          Regular (f\<lparr>rf_data := write_at (unat (offset dbb)) d (rf_data f)\<rparr>))
       else s' = s)"
proof (cases "SCsum_cmp (ex_sha1 ext d) (strong_checksum dbb)")
  case True
  then show ?thesis using install_block_writes [OF assms True] by simp
next
  case False
  then show ?thesis using assms by (simp add: install_block_def Let_def)
qed

definition restoring :: "(byte list \<Rightarrow> byte list \<Rightarrow> pointer) peer" where
  "restoring = idle_peer\<lparr>work_list := [new_work_ticket\<lparr>wt_fp := Some (Writing recovered_file 0),
       num_blocks_moved := - 1, wt_action := wt_Extract\<rparr>],
     file_sys := \<lparr>fs_nodes = [recovered_file \<mapsto> Regular \<lparr>rf_data = [], rf_mtime = 0, rf_inode = 0, rf_mode = 0\<rparr>],
       fs_refuses = (\<lambda>_. False)\<rparr>\<rparr>"

definition empty_file :: regular_file where
  "empty_file = \<lparr>rf_data = [], rf_mtime = 0, rf_inode = 0, rf_mode = 0\<rparr>"

lemma restoring_facts:
  "0 < length (work_list restoring)" "wt_fp (ticket_at 0 restoring) = Some (Writing recovered_file 0)"
  "num_blocks_moved (ticket_at 0 restoring) \<noteq> 0"
  "fs_nodes (file_sys restoring) recovered_file = Some (Regular empty_file)"
  "\<not> fs_refuses (file_sys restoring) recovered_file"
  by (simp_all add: restoring_def ticket_at_def new_work_ticket_def empty_file_def)

theorem install_block_checks_witness:
  "\<exists>s'. install_block map_db 0 (sample_block\<lparr>bl_length := 2, offset := 1, bl_data := Some [7, 8],
       strong_checksum := replicate 20 0\<rparr>) restoring = Inr ((), s')
    \<and> (\<exists>f. fs_nodes (file_sys s') recovered_file = Some (Regular f) \<and> rf_data f = [0, 7, 8])"
  using install_block_checks [OF restoring_facts, of "sample_block\<lparr>bl_length := 2, offset := 1,
      bl_data := Some [7, 8], strong_checksum := replicate 20 0\<rparr>" "[7, 8]" map_db]
  by (auto simp: map_db_def SCsum_cmp_def write_at_def empty_file_def)

text \<open>Extraction gives back the file: when the blocks of the block list cover it, then installing them
  in any order, with the data they were filled with, turns the empty new file into the file that
  was archived.\<close>

theorem restore_reproduces:
  assumes "i < length (work_list s)" and "wt_fp (ticket_at i s) = Some (Writing path pos)"
    and "num_blocks_moved (ticket_at i s) \<noteq> 0"
    and "fs_nodes (file_sys s) path = Some (Regular f)" and "\<not> fs_refuses (file_sys s) path"
    and "rf_data f = []" and "\<forall>b\<in>set bs. within D b"
    and "{0..<length D} \<subseteq> (\<Union>b\<in>set bs. block_range b)"
  shows "\<exists>s'. install_blocks ext i (map (cut_block ext D) bs) s = Inr ((), s')
    \<and> fs_nodes (file_sys s') path = Some (Regular (f\<lparr>rf_data := D\<rparr>))"
proof -
  have "agrees D (rf_data f) {}" using assms(6) by (simp add: agrees_def)
  from install_blocks_agree [OF assms(1-5,7) this, of ext] obtain s' r where r:
    "install_blocks ext i (map (cut_block ext D) bs) s = Inr ((), s')"
    "fs_nodes (file_sys s') path = Some (Regular (f\<lparr>rf_data := r\<rparr>))"
    "agrees D r (\<Union>b\<in>set bs. block_range b)" by auto
  have "j < length r \<and> r ! j = D ! j" if "j < length D" for j
    using r(3) assms(8) that by (auto simp: agrees_def)
  moreover have "length r \<le> length D" using r(3) by (simp add: agrees_def)
  ultimately have "r = D" by (metis le_neq_implies_less less_irrefl_nat nth_equalityI)
  then show ?thesis using r by blast
qed

theorem restore_reproduces_witness:
  "\<exists>s'. install_blocks map_db 0 (map (cut_block map_db [5, 6, 7]) [sample_block\<lparr>offset := 1, bl_length := 2\<rparr>,
       sample_block\<lparr>offset := 0, bl_length := 2\<rparr>]) restoring = Inr ((), s')
    \<and> (\<exists>f. fs_nodes (file_sys s') recovered_file = Some (Regular f) \<and> rf_data f = [5, 6, 7])"
proof -
  have "{0..<length [5, 6, 7 :: byte]} \<subseteq> {1..<3} \<union> {0..<2}" by auto
  then show ?thesis
    using restore_reproduces [OF restoring_facts, of "[sample_block\<lparr>offset := 1, bl_length := 2\<rparr>,
        sample_block\<lparr>offset := 0, bl_length := 2\<rparr>]" "[5, 6, 7]" map_db]
    by (fastforce simp: empty_file_def within_def block_range_def)
qed

text \<open>C32. A file whose blocks are all stored already is never finished: the ticket has nothing to send,
  waits for confirmations with none outstanding, and neither sends its block list nor does any
  more work, so that its new summary is never recorded.\<close>

theorem nothing_to_send_is_stuck:
  assumes "i < length (work_list s)" and "wt_block_list (ticket_at i s) = Some bl"
    and "length bl < 4294967296" and "wt_dbf (ticket_at i s) \<noteq> None"
    and "num_blocks_moved (ticket_at i s) = 0" and "next_block_to_queue (ticket_at i s) = 0"
    and "wt_state (ticket_at i s) = wt_SendingBlocks" and "\<forall>b\<in>set bl. in_new_cover b \<longrightarrow> remote_id b \<noteq> 0"
    and "ios_buffer_size (ios_write_buf s) < desired_queue_size"
  shows "\<exists>s'. wt_send_blocks ext i s = Inr ((), s') \<and> ios_write_buf s' = ios_write_buf s
    \<and> wt_state (ticket_at i s') = wt_AwaitingBlockConfirms \<and> num_blocks_moved (ticket_at i s') = 0
    \<and> (\<forall>t. ticket_at i t = ticket_at i s' \<longrightarrow> wt_do_work ext i t = Inr ((), t))"
proof -
  let ?wt = "(ticket_at i s)\<lparr>next_block_to_queue := of_nat (length bl)\<rparr>"
  have "wt_send_loop ext (ticket_at i s) s = Inr (?wt, s)"
    by (rule wt_send_loop_nothing [OF assms(2,3)]) (use assms in \<open>auto simp: unstored_def\<close>)
  then have "wt_send_blocks ext i s = Inr ((), s\<lparr>work_list := (work_list s)[i := wt_all_queued ?wt]\<rparr>)"
    using assms(2,4) by (simp add: wt_send_blocks_def set_ticket_def del: not_None_eq)
  then show ?thesis using assms(1,2,5)
    by (auto simp: ticket_at_def wt_all_queued_def wt_do_work_def)
qed

definition all_stored :: "(byte list \<Rightarrow> byte list \<Rightarrow> pointer) peer" where
  "all_stored = idle_peer\<lparr>work_list := [new_work_ticket\<lparr>wt_dbf := Some (db_filename_new []),
     wt_block_list := Some [sample_block], wt_state := wt_SendingBlocks\<rparr>]\<rparr>"

theorem nothing_to_send_is_stuck_witness:
  "\<exists>s'. wt_send_blocks map_db 0 all_stored = Inr ((), s')
    \<and> wt_state (ticket_at 0 s') = wt_AwaitingBlockConfirms \<and> wt_do_work map_db 0 s' = Inr ((), s')"
proof -
  have f: "0 < length (work_list all_stored)" "wt_block_list (ticket_at 0 all_stored) = Some [sample_block]"
    "length [sample_block] < 4294967296" "wt_dbf (ticket_at 0 all_stored) \<noteq> None"
    "num_blocks_moved (ticket_at 0 all_stored) = 0" "next_block_to_queue (ticket_at 0 all_stored) = 0"
    "wt_state (ticket_at 0 all_stored) = wt_SendingBlocks"
    "\<forall>b\<in>set [sample_block]. in_new_cover b \<longrightarrow> remote_id b \<noteq> 0"
    "ios_buffer_size (ios_write_buf all_stored) < 8192"
    by (simp_all add: all_stored_def ticket_at_def new_work_ticket_def sample_block_def idle_peer_def
        ios_buffer_size_def ios_new_def)
  show ?thesis using nothing_to_send_is_stuck [OF f, of map_db] by blast
qed


definition extracting :: "(byte list \<Rightarrow> byte list \<Rightarrow> pointer) peer" where
  "extracting = restoring\<lparr>work_list := [new_work_ticket\<lparr>wt_fp := Some (Writing recovered_file 0),
     wt_block_list := Some [sample_block\<lparr>offset := 0, bl_length := 2, strong_checksum := replicate 20 0\<rparr>],
     wt_state := wt_AwaitingBlockConfirms, wt_action := wt_Extract\<rparr>]\<rparr>"

definition delivered :: proto_get_block_ack where
  "delivered = \<lparr>gba_file_id = 1, gba_block_id = 4,
     gba_ios = Some (ios_of (replicate 16 1 @ map NOT [7, 8, 1]))\<rparr>"

definition extracted :: "(byte list \<Rightarrow> byte list \<Rightarrow> pointer) peer" where
  "extracted = (case accept_blocks map_db 0 [delivered] extracting of Inr (_, s) \<Rightarrow> s | Inl _ \<Rightarrow> extracting)"

lemma extracted_run: "accept_blocks map_db 0 [delivered] extracting = Inr ((), extracted)"
proof -
  have "case accept_blocks map_db 0 [delivered] extracting of Inr _ \<Rightarrow> True | Inl _ \<Rightarrow> False" by code_simp
  then show ?thesis by (auto simp: extracted_def split: sum.splits)
qed


end
