(* ===== verification/Fileio.thy ===== *)
theory Fileio
  imports Weak_Index
begin

text \<open>
  \<open>fileio.c\<close>: the copying of files with holes and the sliding window over a file, which the program
  has from rsync.  A descriptor is the contents of its file, a position, and what the operating
  system does to the next transfers: \<open>fd_limits\<close> has one number for each, the most bytes it
  moves, negative for an error; when there are none left a transfer is complete.  Lengths and
  counts of bytes are those of \<open>size_t\<close> without its bound; the \<open>int\<close> variables of \<open>map_ptr\<close> wrap.

  What is shown: a file that is written with holes has, after \<open>sparse_end\<close>, the bytes that were
  written, whatever partial writes there were; the window returned by \<open>map_ptr\<close> is the file's.
\<close>

section \<open>Descriptors\<close>

record fdesc =
  fd_data :: "byte list"
  fd_pos :: nat
  fd_limits :: "int list"

datatype whence = SEEK_SET | SEEK_CUR

definition do_lseek :: "int \<Rightarrow> whence \<Rightarrow> ('z fdesc_scheme, int) prog" where
  "do_lseek off wh f = (let pos = (case wh of SEEK_SET \<Rightarrow> off | SEEK_CUR \<Rightarrow> int (fd_pos f) + off) in
     if pos < 0 then Inr (-1, f) else Inr (pos, f\<lparr>fd_pos := nat pos\<rparr>))"

definition limited :: "nat \<Rightarrow> 'z fdesc_scheme \<Rightarrow> int" where
  "limited n f = (case fd_limits f of [] \<Rightarrow> int n | k # _ \<Rightarrow> min k (int n))"

definition sys_write :: "byte list \<Rightarrow> ('z fdesc_scheme, int) prog" where
  "sys_write d f = (let k = limited (length d) f; f = f\<lparr>fd_limits := tl (fd_limits f)\<rparr> in
     if k < 0 then Inr (-1, f)
     else Inr (k, f\<lparr>fd_data := write_at (fd_pos f) (take (nat k) d) (fd_data f),
                    fd_pos := fd_pos f + nat k\<rparr>))"

definition sys_read :: "nat \<Rightarrow> ('z fdesc_scheme, byte list option) prog" where
  "sys_read n f = (let k = limited n f; f = f\<lparr>fd_limits := tl (fd_limits f)\<rparr> in
     if k < 0 then Inr (None, f)
     else let got = take (nat k) (drop (fd_pos f) (fd_data f)) in
       Inr (Some got, f\<lparr>fd_pos := fd_pos f + length got\<rparr>))"

section \<open>Files with holes\<close>

text \<open>The two static variables outlive the file they describe.\<close>

record sparse = fdesc +
  last_byte :: byte
  last_sparse :: bool

definition sparse_end :: "(sparse, int) prog" where
  "sparse_end s = (if last_sparse s
     then andthen (do_lseek (-1) SEEK_CUR) (\<lambda>_. andthen (state last_byte) (\<lambda>b.
          andthen (sys_write [b]) (\<lambda>r. ret (if r = 1 then 0 else -1)))) s
     else Inr (0, s\<lparr>last_sparse := False\<rparr>))"

text \<open>The last byte of an empty buffer is before it.\<close>

definition write_sparse :: "byte list \<Rightarrow> (sparse, int) prog" where
  "write_sparse buf = (if buf = [] then fail Undef else
     let len = length buf; l1 = length (takeWhile (\<lambda>b. b = 0) buf);
         l2 = length (takeWhile (\<lambda>b. b = 0) (rev (drop l1 buf))); n = len - (l1 + l2) in
     andthen (update (\<lambda>s. s\<lparr>last_byte := last buf\<rparr>)) (\<lambda>_.
     andthen (update (\<lambda>s. if l1 = len \<or> 0 < l2 then s\<lparr>last_sparse := True\<rparr> else s)) (\<lambda>_.
     andthen (if 0 < l1 then do_lseek (int l1) SEEK_CUR else ret 0) (\<lambda>_.
     if l1 = len then ret (int len)
     else andthen (sys_write (take n (drop l1 buf))) (\<lambda>r.
       if r = -1 \<or> r = 0 then ret r
       else if r \<noteq> int n then ret (int l1 + r)
       else andthen (if 0 < l2 then do_lseek (int l2) SEEK_CUR else ret 0) (\<lambda>_.
         ret (int len)))))))"

abbreviation (input) SPARSE_WRITE_SIZE :: nat where "SPARSE_WRITE_SIZE \<equiv> 1024"

function write_file_loop :: "int \<Rightarrow> byte list \<Rightarrow> sparse \<Rightarrow> (int \<times> sparse) result" where
  "write_file_loop r buf s = (if buf = [] then Inr (r, s)
     else case write_sparse (take SPARSE_WRITE_SIZE buf) s of Inl e \<Rightarrow> Inl e
     | Inr (r1, s) \<Rightarrow> if r1 \<le> 0 then Inr (if 0 < r then r else r1, s)
         else write_file_loop (r + r1) (drop (nat r1) buf) s)"
  by pat_completeness auto
termination
  by (relation "measure (\<lambda>(r, buf, s). length buf)") auto

declare write_file_loop.simps [simp del]

definition write_file :: "byte list \<Rightarrow> (sparse, int) prog" where
  "write_file buf = write_file_loop 0 buf"

section \<open>The sliding window\<close>

text \<open>An \<open>int\<close> of 32 bits.\<close>

definition as_int :: "int \<Rightarrow> int" where
  "as_int x = signed_take_bit 31 x"

text \<open>The descriptor of a map is in the same record; \<open>mp_p\<close> is the allocated memory.\<close>

record map_struct = fdesc +
  mp_p :: "byte list"
  mp_size :: int
  mp_len :: int
  mp_file_size :: int
  mp_offset :: int
  mp_fd_offset :: int

definition map_file :: "int \<Rightarrow> fdesc \<Rightarrow> map_struct" where
  "map_file len f = fdesc.extend f \<lparr>mp_p = [], mp_size = 0, mp_len = 0, mp_file_size = len,
     mp_offset = 0, mp_fd_offset = 0\<rparr>"

abbreviation (input) CHUNK_SIZE :: int where "CHUNK_SIZE \<equiv> 32768"
abbreviation (input) MAX_MAP_SIZE :: int where "MAX_MAP_SIZE \<equiv> 262144"

definition map_window :: "map_struct \<Rightarrow> int \<Rightarrow> int \<Rightarrow> int \<times> int" where
  "map_window m off len = (
     let start = (if 2 * CHUNK_SIZE < off
           then (off - 2 * CHUNK_SIZE) div CHUNK_SIZE * CHUNK_SIZE else 0);
         wsize = MAX_MAP_SIZE;
         wsize = (if mp_file_size m < start + wsize then as_int (mp_file_size m - start) else wsize);
         wsize = (if start + wsize < off + len then as_int (off + len - start) else wsize)
     in (start, wsize))"

text \<open>\<open>g_realloc\<close>: the new bytes are whatever the memory holds.\<close>

definition map_grow :: "(nat \<Rightarrow> byte list) \<Rightarrow> int \<Rightarrow> map_struct \<Rightarrow> map_struct" where
  "map_grow garbage wsize m = (if mp_size m < wsize
     then m\<lparr>mp_p := take (nat wsize) (mp_p m @ garbage (nat wsize - length (mp_p m))), mp_size := wsize\<rparr> else m)"

text \<open>Where to read from, how much, and how much of the window is there already.\<close>

definition map_reuse :: "int \<Rightarrow> int \<Rightarrow> map_struct \<Rightarrow> int \<times> int \<times> int \<times> map_struct" where
  "map_reuse start wsize m =
     (if mp_offset m \<le> start \<and> start < mp_offset m + mp_len m \<and> mp_offset m + mp_len m \<le> start + wsize
      then let read_start = mp_offset m + mp_len m; read_offset = as_int (read_start - start) in
        (read_start, as_int (wsize - read_offset), read_offset,
         m\<lparr>mp_p := take (nat read_offset) (drop (nat (mp_len m - read_offset)) (mp_p m))
                   @ drop (nat read_offset) (mp_p m)\<rparr>)
      else (start, wsize, 0, m))"

definition map_read :: "int \<Rightarrow> int \<Rightarrow> int \<Rightarrow> (map_struct, unit) prog" where
  "map_read read_start read_size read_offset m =
     (if read_size \<le> 0 then Inr ((), m)
      else andthen (if mp_fd_offset m \<noteq> read_start
          then andthen (do_lseek read_start SEEK_SET) (\<lambda>r. andthen (require (r = read_start)) (\<lambda>_.
               update (\<lambda>m. m\<lparr>mp_fd_offset := read_start\<rparr>)))
          else ret ()) (\<lambda>_. andthen (sys_read (nat read_size)) (\<lambda>r.
        let got = (case r of None \<Rightarrow> [] | Some d \<Rightarrow> d) in
        update (\<lambda>m. m\<lparr>mp_p := take (nat read_offset) (mp_p m) @ got
             @ replicate (nat read_size - length got) 0
             @ drop (nat read_offset + nat read_size) (mp_p m),
           mp_fd_offset := mp_fd_offset m + int (length got)\<rparr>))) m)"

text \<open>The result is NULL or a place in the memory of the map.\<close>

definition map_ptr :: "(nat \<Rightarrow> byte list) \<Rightarrow> int \<Rightarrow> int \<Rightarrow> (map_struct, int option) prog" where
  "map_ptr garbage off len m = (if len = 0 then Inr (None, m) else
     let len = (if mp_file_size m - off < len then as_int (mp_file_size m - off) else len) in
     if mp_offset m \<le> off \<and> off + len \<le> mp_offset m + mp_len m then Inr (Some (off - mp_offset m), m)
     else case map_window m off len of (start, wsize) \<Rightarrow>
       (case map_reuse start wsize (map_grow garbage wsize m) of (read_start, read_size, read_offset, m) \<Rightarrow>
         andthen (map_read read_start read_size read_offset) (\<lambda>_.
         andthen (update (\<lambda>m. m\<lparr>mp_offset := start, mp_len := wsize\<rparr>)) (\<lambda>_.
         ret (Some (off - start)))) m))"

section \<open>The contents of a file with holes\<close>

text \<open>What was copied so far is on the file, but for zeros at the end.\<close>

definition copied :: "byte list \<Rightarrow> sparse \<Rightarrow> bool" where
  "copied D s \<longleftrightarrow> fd_pos s = length D
     \<and> (\<exists>k. D = fd_data s @ replicate k 0 \<and> (0 < k \<longrightarrow> last_sparse s))"

lemma write_beyond: "length d \<le> off \<Longrightarrow> w \<noteq> [] \<Longrightarrow> write_at off w d = d @ replicate (off - length d) 0 @ w"
  by (simp add: write_at_def)

lemma take_zeros: "takeWhile (\<lambda>b. b = 0) (buf :: byte list) = replicate (length (takeWhile (\<lambda>b. b = 0) buf)) 0"
  by (rule replicate_length_same [symmetric]) (auto dest: set_takeWhileD)

lemma hole_split:
  fixes buf :: "byte list"
  defines "l1 \<equiv> length (takeWhile (\<lambda>b. b = 0) buf)"
  defines "l2 \<equiv> length (takeWhile (\<lambda>b. b = 0) (rev (drop l1 buf)))"
  obtains mid where "buf = replicate l1 0 @ mid @ replicate l2 0" "l1 < length buf \<longleftrightarrow> mid \<noteq> []"
    "l1 + l2 \<le> length buf" "mid = take (length buf - (l1 + l2)) (drop l1 buf)"
proof -
  have a: "buf = replicate l1 0 @ drop l1 buf"
    unfolding l1_def by (metis take_zeros dropWhile_eq_drop takeWhile_dropWhile_id)
  let ?r = "rev (drop l1 buf)"
  have "?r = replicate l2 0 @ drop l2 ?r"
    unfolding l2_def by (metis take_zeros dropWhile_eq_drop takeWhile_dropWhile_id)
  then have "drop l1 buf = rev (drop l2 ?r) @ replicate l2 0"
    by (metis rev_append rev_replicate rev_rev_ident)
  moreover define mid where "mid = rev (drop l2 ?r)"
  ultimately have b: "drop l1 buf = mid @ replicate l2 0" by simp
  have c: "buf = replicate l1 0 @ mid @ replicate l2 0" using a b by simp
  have ne: "mid \<noteq> []" if "l1 < length buf"
  proof
    assume "mid = []"
    then have "drop l1 buf = replicate l2 0" using b by simp
    moreover have "drop l1 buf = dropWhile (\<lambda>b. b = 0) buf"
      unfolding l1_def by (simp add: dropWhile_eq_drop)
    moreover have "drop l1 buf \<noteq> []" using that by simp
    ultimately show False using hd_dropWhile [of "\<lambda>b. b = 0" buf]
      by (metis hd_replicate replicate_empty)
  qed
  have le: "l1 < length buf" if "mid \<noteq> []" using that arg_cong [OF c, of length] by (cases mid) simp_all
  have len: "length buf = l1 + length mid + l2" using arg_cong [OF c, of length] by simp
  have "mid = take (length buf - (l1 + l2)) (drop l1 buf)" using b len by simp
  moreover have "l1 < length buf \<longleftrightarrow> mid \<noteq> []" using ne le by blast
  moreover have "l1 + l2 \<le> length buf" using len by linarith
  ultimately show thesis by (intro that [OF c])
qed


lemma do_lseek_forward [simp]: "do_lseek (int n) SEEK_CUR s = Inr (int (fd_pos s + n), s\<lparr>fd_pos := fd_pos s + n\<rparr>)"
  by (simp add: do_lseek_def nat_add_distrib)

lemma copiedI:
  "D = fd_data s @ replicate k 0 \<Longrightarrow> fd_pos s = length D \<Longrightarrow> (0 < k \<Longrightarrow> last_sparse s) \<Longrightarrow> copied D s"
  unfolding copied_def by blast

text \<open>Skipping zeros, and writing bytes after them.\<close>

lemma copied_skip:
  assumes "copied D s" "fd_data s' = fd_data s" "fd_pos s' = length D + n" "last_sparse s'"
  shows "copied (D @ replicate n 0) s'"
proof -
  obtain k where "D = fd_data s @ replicate k 0" using assms(1) by (auto simp: copied_def)
  then have "D @ replicate n 0 = fd_data s' @ replicate (k + n) 0" using assms(2) by (simp add: replicate_add)
  then show ?thesis by (rule copiedI) (use assms(3,4) in simp_all)
qed

lemma copied_write:
  assumes "copied D s" "w \<noteq> []" "fd_data s' = write_at (length D + l1) w (fd_data s)"
    "fd_pos s' = length D + l1 + length w + l2" "0 < l2 \<longrightarrow> last_sparse s'"
  shows "copied (D @ replicate l1 0 @ w @ replicate l2 0) s'"
proof -
  obtain k where k: "D = fd_data s @ replicate k 0" using assms(1) by (auto simp: copied_def)
  then have "length D + l1 - length (fd_data s) = k + l1" using arg_cong [OF k, of length] by simp
  then have "fd_data s' = fd_data s @ replicate (k + l1) 0 @ w"
    using assms(2,3) arg_cong [OF k, of length] by (simp add: write_beyond)
  then have "D @ replicate l1 0 @ w @ replicate l2 0 = fd_data s' @ replicate l2 0"
    by (subst k) (simp add: replicate_add)
  then show ?thesis by (rule copiedI) (use assms(4,5) in simp_all)
qed

lemma sys_write_cases:
  assumes "sys_write d s = Inr (r, s')"
  obtains "r < 0" | n where "r = int n" "n \<le> length d"
    "fd_data s' = write_at (fd_pos s) (take n d) (fd_data s)" "fd_pos s' = fd_pos s + n"
    "last_byte s' = last_byte s" "last_sparse s' = last_sparse s"
proof (cases "limited (length d) s < 0")
  case True
  then show thesis using assms that(1) by (simp add: sys_write_def Let_def)
next
  case False
  moreover have "limited (length d) s \<le> int (length d)" by (simp add: limited_def split: list.split)
  ultimately show thesis using assms by (intro that(2) [of "nat r"]) (auto simp: sys_write_def Let_def)
qed

lemma write_sparse_step:
  assumes "write_sparse buf s = Inr (r, s')" "copied D s" "0 < r"
  shows "nat r \<le> length buf \<and> copied (D @ take (nat r) buf) s' \<and> (nat r = length buf \<longrightarrow> last_byte s' = last buf)"
proof -
  define l1 where "l1 = length (takeWhile (\<lambda>b. b = 0) buf)"
  define l2 where "l2 = length (takeWhile (\<lambda>b. b = 0) (rev (drop l1 buf)))"
  obtain mid where mid: "buf = replicate l1 0 @ mid @ replicate l2 0" "l1 < length buf \<longleftrightarrow> mid \<noteq> []"
    "l1 + l2 \<le> length buf" "mid = take (length buf - (l1 + l2)) (drop l1 buf)"
    using hole_split [of buf] unfolding l1_def l2_def by blast
  have buf: "buf \<noteq> []" using assms(1) by (auto simp: write_sparse_def)
  have pos: "fd_pos s = length D" using assms(2) by (simp add: copied_def)
  have len: "length mid = length buf - (l1 + l2)" using mid(3,4) by simp
  obtain s1 where s1: "fd_data s1 = fd_data s" "fd_pos s1 = length D + l1" "last_byte s1 = last buf"
      "last_sparse s \<or> l1 = length buf \<or> 0 < l2 \<longrightarrow> last_sparse s1"
    and run: "write_sparse buf s = (if l1 = length buf then Inr (int (length buf), s1)
      else andthen (sys_write mid) (\<lambda>r. if r = -1 \<or> r = 0 then ret r
       else if r \<noteq> int (length mid) then ret (int l1 + r)
       else andthen (if 0 < l2 then do_lseek (int l2) SEEK_CUR else ret 0) (\<lambda>_. ret (int (length buf)))) s1)"
  proof
    let ?s = "let s = s\<lparr>last_byte := last buf\<rparr>;
        s = (if l1 = length buf \<or> 0 < l2 then s\<lparr>last_sparse := True\<rparr> else s)
      in if 0 < l1 then s\<lparr>fd_pos := fd_pos s + l1\<rparr> else s"
    show "fd_data ?s = fd_data s" "fd_pos ?s = length D + l1" "last_byte ?s = last buf"
      "last_sparse s \<or> l1 = length buf \<or> 0 < l2 \<longrightarrow> last_sparse ?s" using pos by (simp_all add: Let_def)
    show "write_sparse buf s = (if l1 = length buf then Inr (int (length buf), ?s)
      else andthen (sys_write mid) (\<lambda>r. if r = -1 \<or> r = 0 then ret r
       else if r \<noteq> int (length mid) then ret (int l1 + r)
       else andthen (if 0 < l2 then do_lseek (int l2) SEEK_CUR else ret 0) (\<lambda>_. ret (int (length buf)))) ?s)"
      unfolding write_sparse_def Let_def l1_def [symmetric]
      unfolding l2_def [symmetric] mid(4) [symmetric]
      unfolding len [symmetric] by (simp add: buf)
  qed
  show ?thesis
  proof (cases "l1 = length buf")
    case True
    then have r: "r = int (length buf)" "s' = s1" using run assms(1) by simp_all
    have "l2 = 0" "mid = []" using True mid(2,3) by simp_all
    then have "buf = replicate l1 0" using mid(1) by simp
    moreover have "copied (D @ replicate l1 0) s1"
      by (rule copied_skip [OF assms(2)]) (use s1 True in simp_all)
    ultimately show ?thesis using r s1(3) by simp
  next
    case False
    then have ne: "mid \<noteq> []" using mid(2,3) by simp
    obtain k t where w: "sys_write mid s1 = Inr (k, t)" "k \<noteq> -1" "k \<noteq> 0"
      "(if k \<noteq> int (length mid) then ret (int l1 + k)
       else andthen (if 0 < l2 then do_lseek (int l2) SEEK_CUR else ret 0) (\<lambda>_. ret (int (length buf)))) t = Inr (r, s')"
      using assms(1,3) False run by (auto elim!: andthen_InrE split: if_splits)
    show ?thesis
    proof (rule sys_write_cases [OF w(1)])
      assume "k < 0"
      moreover have "k = -1 \<or> 0 \<le> k" using w(1) by (auto simp: sys_write_def Let_def split: if_splits)
      ultimately show ?thesis using w(2) by simp
    next
      fix n assume n: "k = int n" "n \<le> length mid" "fd_data t = write_at (fd_pos s1) (take n mid) (fd_data s1)"
        "fd_pos t = fd_pos s1 + n" "last_byte t = last_byte s1" "last_sparse t = last_sparse s1"
      have n0: "0 < n" using w(3) n(1) by simp
      show ?thesis
      proof (cases "n = length mid")
        case True
        then have r: "r = int (length buf)" "fd_data s' = fd_data t" "fd_pos s' = fd_pos t + l2"
          "last_byte s' = last_byte t" "last_sparse s' = last_sparse t"
          using w(4) n(1) by (auto split: if_splits)
        have "copied (D @ replicate l1 0 @ mid @ replicate l2 0) s'"
          by (rule copied_write [OF assms(2) ne]) (use r n s1 True in auto)
        then have "copied (D @ buf) s'" unfolding mid(1) [symmetric] .
        moreover have "nat r = length buf" using r(1) by simp
        ultimately show ?thesis using r(4) n(5) s1(3) by simp
      next
        case False
        then have r: "r = int l1 + int n" "s' = t" using w(4) n(1) by auto
        have "copied (D @ replicate l1 0 @ take n mid @ replicate 0 0) s'"
          by (rule copied_write [OF assms(2)]) (use r n s1 n0 ne in \<open>auto simp: min_def\<close>)
        moreover have "take (nat r) buf = replicate l1 0 @ take n mid"
          using r(1) n(2) by (subst mid(1)) (simp add: nat_add_distrib)
        moreover have "nat r \<noteq> length buf" "nat r \<le> length buf" using r(1) n(2) False len mid(3) by auto
        ultimately show ?thesis by simp
      qed
    qed
  qed
qed

text \<open>A call of \<open>write_file\<close> that wrote everything.\<close>

lemma write_file_loop_copies:
  assumes "write_file_loop r buf s = Inr (r', s')" "0 \<le> r" "copied D s"
  shows "r' \<le> r + int (length buf)
    \<and> (r' = r + int (length buf) \<longrightarrow> copied (D @ buf) s' \<and> (buf \<noteq> [] \<longrightarrow> last_byte s' = last buf))"
  using assms
proof (induction r buf s arbitrary: D rule: write_file_loop.induct)
  case (1 r buf s)
  show ?case
  proof (cases "buf = []")
    case True
    then show ?thesis using 1(2,4) by (simp add: write_file_loop.simps)
  next
    case False
    let ?chunk = "take SPARSE_WRITE_SIZE buf"
    obtain r1 t where t: "write_sparse ?chunk s = Inr (r1, t)"
      "(if r1 \<le> 0 then Inr (if 0 < r then r else r1, t)
        else write_file_loop (r + r1) (drop (nat r1) buf) t) = Inr (r', s')"
      using 1(2) False by (subst (asm) write_file_loop.simps) (auto split: sum.splits)
    show ?thesis
    proof (cases "r1 \<le> 0")
      case True
      moreover have "0 < int (length buf)" using False by simp
      ultimately show ?thesis using t(2) 1(3) by (auto split: if_splits)
    next
      case r1: False
      have st: "nat r1 \<le> length ?chunk" "copied (D @ take (nat r1) ?chunk) t"
        "nat r1 = length ?chunk \<longrightarrow> last_byte t = last ?chunk"
        using write_sparse_step [OF t(1) 1(4)] r1 by (blast intro: not_le_imp_less)+
      have "take (nat r1) ?chunk = take (nat r1) buf" using st(1) by (simp add: min_absorb2)
      then have cp: "copied (D @ take (nat r1) buf) t" using st(2) by simp
      have run: "write_file_loop (r + r1) (drop (nat r1) buf) t = Inr (r', s')" using t(2) r1 by simp
      have IH: "r' \<le> r + r1 + int (length (drop (nat r1) buf))"
        "r' = r + r1 + int (length (drop (nat r1) buf)) \<longrightarrow> copied (D @ buf) s'
          \<and> (drop (nat r1) buf \<noteq> [] \<longrightarrow> last_byte s' = last buf)"
        using 1(1) [OF False t(1)[symmetric, THEN sym] _ _ run _ cp] r1 1(3) by auto
      have sum: "r + r1 + int (length (drop (nat r1) buf)) = r + int (length buf)" using st(1) r1 by simp
      have "last_byte s' = last buf" if "drop (nat r1) buf = []"
        using run that st(1,3) by (simp add: write_file_loop.simps)
      then show ?thesis using IH unfolding sum by blast
    qed
  qed
qed

lemma sparse_end_copied:
  assumes "copied D s" "sparse_end s = Inr (0, s')" "D \<noteq> [] \<longrightarrow> last_byte s = last D" "D = [] \<longrightarrow> \<not> last_sparse s"
  shows "fd_data s' = D"
proof (cases "last_sparse s")
  case False
  then show ?thesis using assms(1,2) by (auto simp: copied_def sparse_end_def)
next
  case True
  then have ne: "D \<noteq> []" and b: "last_byte s = last D" using assms(3,4) by auto
  obtain k where k: "D = fd_data s @ replicate k 0" "fd_pos s = length D" using assms(1) by (auto simp: copied_def)
  define s1 where "s1 = s\<lparr>fd_pos := length D - 1\<rparr>"
  have "0 < length D" using ne by simp
  obtain m where "length D = Suc m" using ne by (cases D) auto
  then have "do_lseek (-1) SEEK_CUR s = Inr (int (length D - 1), s1)"
    using k(2) by (simp add: do_lseek_def s1_def)
  then have "sys_write [last D] s1 = Inr (1, s')"
    using assms(2) True b by (auto simp: sparse_end_def s1_def elim!: andthen_InrE split: if_splits)
  then have "fd_data s' = write_at (length D - 1) [last D] (fd_data s)"
    by (rule sys_write_cases) (auto simp: s1_def)
  moreover have "write_at (length D - 1) [last D] (fd_data s) = D"
  proof (rule nth_equalityI)
    have l: "length D = length (fd_data s) + k" using arg_cong [OF k(1), of length] by simp
    then show len: "length (write_at (length D - 1) [last D] (fd_data s)) = length D"
      using \<open>0 < length D\<close> by (simp add: length_write_at)
    fix j assume j: "j < length (write_at (length D - 1) [last D] (fd_data s))"
    have "D ! j = (if j < length (fd_data s) then fd_data s ! j else 0)"
      using j l len by (subst k(1)) (auto simp: nth_append)
    moreover have "last D = D ! (length D - 1)" using ne by (rule last_conv_nth)
    ultimately show "write_at (length D - 1) [last D] (fd_data s) ! j = D ! j"
      using nth_write_at [OF j] j len by (cases "j = length D - 1") auto
  qed
  ultimately show ?thesis by simp
qed

section \<open>The contents of the window\<close>

lemma as_int_id: "- 2147483648 \<le> x \<Longrightarrow> x < 2147483648 \<Longrightarrow> as_int x = x"
  unfolding as_int_def by (rule signed_take_bit_int_eq_self) simp_all

definition map_ok :: "byte list \<Rightarrow> map_struct \<Rightarrow> bool" where
  "map_ok D m \<longleftrightarrow> fd_data m = D \<and> fd_limits m = [] \<and> mp_file_size m = int (length D)
     \<and> mp_size m = int (length (mp_p m)) \<and> mp_fd_offset m = int (fd_pos m)
     \<and> 0 \<le> mp_offset m \<and> 0 \<le> mp_len m \<and> mp_len m \<le> mp_size m
     \<and> mp_offset m + mp_len m \<le> int (length D)
     \<and> take (nat (mp_len m)) (mp_p m) = window D (nat (mp_len m)) (nat (mp_offset m))"

lemma window_window: "i + n \<le> l \<Longrightarrow> take n (drop i (window D l k)) = window D n (k + i)"
  by (simp add: window_def drop_take min_absorb2 add.commute [of k i])

lemma window_append: "window D a k @ window D b (k + a) = window D (a + b) k"
  by (simp add: window_def take_add add.commute [of k a])

lemma map_window_facts:
  assumes "mp_file_size m = L" "0 \<le> off" "0 \<le> len" "len < 1073741824" "off + len \<le> L" "0 < L"
    "map_window m off len = (start, wsize)"
  shows "0 \<le> start \<and> start \<le> off \<and> off + len \<le> start + wsize \<and> start + wsize \<le> L \<and> 0 < wsize
    \<and> wsize < 2147483648"
proof -
  define q where "q = (off - 65536) div 32768 * 32768"
  define st where "st = (if 65536 < off then q else 0)"
  have q: "q \<le> off - 65536" "off - 65536 < q + 32768" "65536 < off \<Longrightarrow> 0 \<le> q"
    using div_mult_mod_eq [of "off - 65536" 32768] pos_mod_sign [of 32768 "off - 65536"]
      pos_mod_bound [of 32768 "off - 65536"] unfolding q_def by (simp_all add: pos_imp_zdiv_nonneg_iff)
  then have st: "0 \<le> st" "st \<le> off" "st < L" "off - st < 131072"
    using assms(2,3,5,6) by (auto simp: st_def split: if_splits)
  define w1 where "w1 = (if L < st + 262144 then L - st else 262144)"
  define w2 where "w2 = (if st + w1 < off + len then off + len - st else w1)"
  have w1: "0 < w1" "w1 \<le> 262144" "st + w1 \<le> L" using st(3) by (auto simp: w1_def)
  have w2: "0 < w2" "w2 < 2147483648" "st + w2 \<le> L" "off + len \<le> st + w2"
    using w1 st assms(4,5) by (auto simp: w2_def)
  have e0: "(if 2 * 32768 < off then (off - 2 * 32768) div 32768 * 32768 else 0) = st"
    by (simp add: st_def q_def)
  have "as_int (L - st) = L - st" if "L < st + 262144" using that st(3) by (intro as_int_id) simp_all
  then have e1: "(if L < st + 262144 then as_int (L - st) else 262144) = w1" by (simp add: w1_def)
  have "as_int (off + len - st) = off + len - st"
    using st assms(3,4) by (intro as_int_id) simp_all
  then have e2: "(if st + w1 < off + len then as_int (off + len - st) else w1) = w2" by (simp add: w2_def)
  have "map_window m off len = (st, w2)"
    unfolding map_window_def Let_def assms(1) e0 e1 e2 ..
  then show ?thesis using assms(7) w2 st by simp
qed

text \<open>Reading the rest of the window.\<close>

lemma map_read_fills:
  assumes "fd_data m = D" "fd_limits m = []" "mp_fd_offset m = int (fd_pos m)"
    "0 < n" "k + n \<le> length D"
  shows "\<exists>m'. map_read (int k) (int n) (int i) m = Inr ((), m')
    \<and> mp_p m' = take i (mp_p m) @ window D n k @ drop (i + n) (mp_p m)
    \<and> fd_data m' = D \<and> fd_limits m' = [] \<and> mp_fd_offset m' = int (fd_pos m')
    \<and> mp_file_size m' = mp_file_size m \<and> mp_size m' = mp_size m"
proof -
  have w: "length (window D n k) = n" using assms(5) by (simp add: window_def)
  let ?m1 = "if mp_fd_offset m \<noteq> int k then m\<lparr>fd_pos := k, mp_fd_offset := int k\<rparr> else m"
  have 1: "(if mp_fd_offset m \<noteq> int k
          then andthen (do_lseek (int k) SEEK_SET) (\<lambda>r. andthen (require (r = int k)) (\<lambda>_.
               update (\<lambda>m. m\<lparr>mp_fd_offset := int k\<rparr>)))
          else ret ()) m = Inr ((), ?m1)"
    by (simp add: do_lseek_def)
  have pos: "fd_pos ?m1 = k" using assms(3) by simp
  then have 2: "sys_read n ?m1 = Inr (Some (window D n k), ?m1\<lparr>fd_pos := k + n\<rparr>)"
    using assms(1,2) w by (simp add: sys_read_def limited_def Let_def window_def)
  show ?thesis using assms 1 2 w
    by (simp add: map_read_def nat_add_distrib)
qed

lemma map_grow_facts:
  assumes "map_ok D m" "\<forall>n. length (garbage n) = n" "mp_len m = int pl" "wsize = int ws"
  shows "mp_size (map_grow garbage wsize m) = int (length (mp_p (map_grow garbage wsize m)))
    \<and> ws \<le> length (mp_p (map_grow garbage wsize m))
    \<and> take pl (mp_p (map_grow garbage wsize m)) = window D pl (nat (mp_offset m))
    \<and> (\<exists>p sz. map_grow garbage wsize m = m\<lparr>mp_p := p, mp_size := sz\<rparr>)"
proof (cases "mp_size m < wsize")
  case True
  then have "length (mp_p m) < ws" "pl \<le> length (mp_p m)" using assms(1,3,4) by (simp_all add: map_ok_def)
  then show ?thesis using True assms by (auto simp: map_grow_def map_ok_def)
next
  case False
  have "\<exists>p sz. m = m\<lparr>mp_p := p, mp_size := sz\<rparr>"
    by (rule exI [of _ "mp_p m"], rule exI [of _ "mp_size m"]) simp
  moreover have "map_grow garbage wsize m = m" using False by (simp add: map_grow_def)
  ultimately show ?thesis using False assms by (auto simp: map_ok_def)
qed

lemma map_reuse_facts:
  assumes "mp_offset m = int po" "mp_len m = int pl" "pl \<le> length (mp_p m)" "ws \<le> length (mp_p m)"
    "take pl (mp_p m) = window D pl po" "0 < ws" "ws < 2147483648"
    "\<not> (po \<le> st \<and> st + ws \<le> po + pl)"
  shows "\<exists>n i p. map_reuse (int st) (int ws) m = (int (st + i), int n, int i, m\<lparr>mp_p := p\<rparr>)
    \<and> 0 < n \<and> i + n = ws \<and> take i p = window D i st \<and> length p = length (mp_p m)"
proof (cases "po \<le> st \<and> st < po + pl \<and> po + pl \<le> st + ws")
  case False
  then have "map_reuse (int st) (int ws) m = (int st, int ws, 0, m)"
    using assms(1,2) by (auto simp: map_reuse_def)
  then show ?thesis using assms(6)
    by (intro exI [of _ ws] exI [of _ "0 :: nat"] exI [of _ "mp_p m"]) (simp add: window_def)
next
  case True
  define i where "i = po + pl - st"
  have i: "st + i = po + pl" "i \<le> ws" "i \<le> pl" using True by (auto simp: i_def)
  have n: "i < ws" using assms(8) i True by auto
  have a: "as_int (int (po + pl) - int st) = int i" "as_int (int ws - int i) = int (ws - i)"
    using i(1,2) n assms(7) by (simp_all add: as_int_id of_nat_diff flip: i(1))
  let ?p = "take i (drop (pl - i) (mp_p m)) @ drop i (mp_p m)"
  have run: "map_reuse (int st) (int ws) m = (int (st + i), int (ws - i), int i, m\<lparr>mp_p := ?p\<rparr>)"
    using True a assms(1,2) i by (simp add: map_reuse_def Let_def nat_diff_distrib')
  have l: "length (take i (drop (pl - i) (mp_p m))) = i" using i(3) assms(3) by simp
  have "take i (drop (pl - i) (mp_p m)) = take i (drop (pl - i) (take pl (mp_p m)))"
    using i(3) by (simp add: drop_take)
  also have "\<dots> = window D i st" unfolding assms(5) using i by (subst window_window) (simp_all add: i_def)
  finally have "take i ?p = window D i st" using l by simp
  then show ?thesis using run n l i(3) assms(3)
    by (intro exI [of _ "ws - i"] exI [of _ i] exI [of _ ?p]) simp
qed

lemma map_ptr_cached:
  assumes "map_ok D m" "mp_offset m \<le> int off" "int off + int n \<le> mp_offset m + mp_len m"
  shows "take n (drop (nat (int off - mp_offset m)) (mp_p m)) = window D n off"
proof -
  define k where "k = nat (int off - mp_offset m)"
  have k: "k + n \<le> nat (mp_len m)" "nat (mp_offset m) + k = off"
    using assms by (auto simp: k_def map_ok_def)
  then have "take n (drop k (mp_p m)) = take n (drop k (take (nat (mp_len m)) (mp_p m)))"
    by (simp add: drop_take)
  also have "\<dots> = window D n off" using assms(1) k by (simp add: map_ok_def window_window)
  finally show ?thesis by (simp add: k_def)
qed

lemma map_ptr_result:
  assumes "map_ok D m" "\<forall>n. length (garbage n) = n" "off \<le> length D" "0 < len" "len < 1073741824"
  shows "\<exists>k m'. map_ptr garbage (int off) (int len) m = Inr (Some (int k), m') \<and> map_ok D m'
    \<and> take (min len (length D - off)) (drop k (mp_p m')) = window D len off"
proof -
  define n where "n = min len (length D - off)"
  have w: "window D n off = window D len off" by (simp add: window_def n_def min_def)
  have sz: "mp_file_size m = int (length D)" using assms(1) by (simp add: map_ok_def)
  have clamp: "(if mp_file_size m - int off < int len then as_int (mp_file_size m - int off) else int len) = int n"
    unfolding sz n_def using assms(3,5) by (simp add: as_int_id of_nat_diff)
  have n: "off + n \<le> length D" "n < 1073741824" using assms(3,5) by (simp_all add: n_def)
  show ?thesis
  proof (cases "mp_offset m \<le> int off \<and> int off + int n \<le> mp_offset m + mp_len m")
    case True
    then have "map_ptr garbage (int off) (int len) m = Inr (Some (int (nat (int off - mp_offset m))), m)"
      using assms(4) clamp by (simp add: map_ptr_def)
    moreover have "take n (drop (nat (int off - mp_offset m)) (mp_p m)) = window D len off"
      using map_ptr_cached [OF assms(1), of off n] True w by simp
    ultimately show ?thesis using assms(1) unfolding n_def [symmetric]
      by (intro exI [of _ "nat (int off - mp_offset m)"] exI [of _ m] conjI)
  next
    case False
    obtain po pl where m: "mp_offset m = int po" "mp_len m = int pl" "pl \<le> length (mp_p m)"
        "po + pl \<le> length D" "take pl (mp_p m) = window D pl po"
    proof
      show "mp_offset m = int (nat (mp_offset m))" "mp_len m = int (nat (mp_len m))"
        "nat (mp_len m) \<le> length (mp_p m)" "nat (mp_offset m) + nat (mp_len m) \<le> length D"
        "take (nat (mp_len m)) (mp_p m) = window D (nat (mp_len m)) (nat (mp_offset m))"
        using assms(1) by (simp_all add: map_ok_def nat_le_iff flip: nat_add_distrib)
    qed
    have "0 < length D" using False m n by (cases "length D = 0") auto
    obtain start wsize where win: "map_window m (int off) (int n) = (start, wsize)" by fastforce
    have F: "0 \<le> start \<and> start \<le> int off \<and> int off + int n \<le> start + wsize \<and> start + wsize \<le> int (length D)
        \<and> 0 < wsize \<and> wsize < 2147483648"
      by (rule map_window_facts [OF sz _ _ _ _ _ win]) (use n \<open>0 < length D\<close> in simp_all)
    define st ws where "st = nat start" and "ws = nat wsize"
    then have e: "start = int st" "wsize = int ws" using F by simp_all
    have st: "start = int st" "wsize = int ws" "st \<le> off" "off + n \<le> st + ws"
        "st + ws \<le> length D" "0 < ws" "ws < 2147483648"
      using F e by simp_all
    define m1 where "m1 = map_grow garbage wsize m"
    have m1: "mp_size m1 = int (length (mp_p m1))" "ws \<le> length (mp_p m1)" "take pl (mp_p m1) = window D pl po"
      "\<exists>p sz. m1 = m\<lparr>mp_p := p, mp_size := sz\<rparr>"
      using map_grow_facts [OF assms(1,2) m(2) st(2)] m(1) unfolding m1_def by simp_all
    have keep: "mp_offset m1 = int po" "mp_len m1 = int pl" "fd_data m1 = D" "fd_limits m1 = []"
      "mp_fd_offset m1 = int (fd_pos m1)" "mp_file_size m1 = int (length D)"
      using m1(4) m(1,2) assms(1) by (auto simp: map_ok_def)
    have "length (window D pl po) = pl" using m(4) by (simp add: window_def)
    then have pl: "pl \<le> length (mp_p m1)" using m1(3) by (metis length_take min.cobounded1)
    have "\<not> (po \<le> st \<and> st + ws \<le> po + pl)" using False m(1,2) st(3,4) by auto
    from map_reuse_facts [OF keep(1,2) pl m1(2,3) st(6,7) this] obtain r i p where
      r: "map_reuse start wsize m1 = (int (st + i), int r, int i, m1\<lparr>mp_p := p\<rparr>)" "0 < r" "i + r = ws"
        "take i p = window D i st" "length p = length (mp_p m1)" unfolding st(1,2) by blast
    have "st + i + r \<le> length D" using r(3) st(5) by simp
    from map_read_fills [OF _ _ _ r(2) this, of "m1\<lparr>mp_p := p\<rparr>" i] obtain m2 where
      m2: "map_read (int (st + i)) (int r) (int i) (m1\<lparr>mp_p := p\<rparr>) = Inr ((), m2)"
        "mp_p m2 = take i p @ window D r (st + i) @ drop (i + r) p" "fd_data m2 = D" "fd_limits m2 = []"
        "mp_fd_offset m2 = int (fd_pos m2)" "mp_file_size m2 = int (length D)" "mp_size m2 = mp_size m1"
      using keep by auto
    have p2: "mp_p m2 = window D ws st @ drop ws p" unfolding m2(2) r(4) using window_append [of D i st r] r(3) by simp
    have lw: "length (window D ws st) = ws" using st(5) by (simp add: window_def)
    let ?m3 = "m2\<lparr>mp_offset := int st, mp_len := int ws\<rparr>"
    have ok: "map_ok D ?m3" using m2(3-7) p2 lw m1(1,2) r(5) st(5) by (simp add: map_ok_def)
    have "map_ptr garbage (int off) (int len) m = Inr (Some (int off - int st), ?m3)"
      using assms(4) win r(1) m2(1) st(1,2) unfolding map_ptr_def clamp Let_def if_not_P [OF False] by (simp add: m1_def)
    then have run: "map_ptr garbage (int off) (int len) m = Inr (Some (int (off - st)), ?m3)"
      using st(3) by (simp add: of_nat_diff)
    have "take n (drop (nat (int off - mp_offset ?m3)) (mp_p ?m3)) = window D n off"
      by (rule map_ptr_cached [OF ok]) (use st(3,4) in simp_all)
    then have "take n (drop (off - st) (mp_p ?m3)) = window D len off"
      using w st(3) by (simp add: nat_diff_distrib')
    then show ?thesis using run ok unfolding n_def [symmetric] by blast
  qed
qed

section \<open>Properties\<close>

text \<open>C29. The sliding window is transparent: on a file that does not change, \<open>map_ptr\<close> returns a place in
  its memory that holds the bytes of the file from the given offset, as many as were asked for or
  as there are, whatever windows were read before and however they overlap; and it leaves the
  map in a state in which that is true of the next call.\<close>

theorem map_ptr_window:
  assumes "map_ok D m" and "\<forall>n. length (garbage n) = n" and "off \<le> length D" and "0 < len" and "len < 1073741824"
  shows "\<exists>k m'. map_ptr garbage (int off) (int len) m = Inr (Some (int k), m') \<and> map_ok D m'
    \<and> take (min len (length D - off)) (drop k (mp_p m')) = take len (drop off D)"
  using map_ptr_result [OF assms] by (simp add: window_def)

lemma map_file_ok: "map_ok D (map_file (int (length D)) \<lparr>fd_data = D, fd_pos = 0, fd_limits = []\<rparr>)"
  by (simp add: map_ok_def map_file_def fdesc.defs window_def)

theorem map_ptr_window_witness:
  "\<exists>k m'. map_ptr (\<lambda>n. replicate n 0) 2 3 (map_file 4 \<lparr>fd_data = [5, 6, 7, 8], fd_pos = 0, fd_limits = []\<rparr>)
     = Inr (Some (int k), m') \<and> take 2 (drop k (mp_p m')) = [7, 8]"
  using map_ptr_window [OF map_file_ok [of "[5, 6, 7, 8]"], of "\<lambda>n. replicate n 0" 2 3]
  by (auto simp: numeral_2_eq_2)

text \<open>A sequence of calls of \<open>write_file\<close> that each report success.\<close>

inductive writes_all :: "byte list list \<Rightarrow> sparse \<Rightarrow> sparse \<Rightarrow> bool" where
  writes_none: "writes_all [] s s"
| writes_more: "write_file buf s = Inr (int (length buf), t) \<Longrightarrow> writes_all bufs t u \<Longrightarrow> writes_all (buf # bufs) s u"

lemma writes_all_copied:
  assumes "writes_all bufs s u" "copied D s" "D \<noteq> [] \<longrightarrow> last_byte s = last D" "D = [] \<longrightarrow> \<not> last_sparse s"
  shows "copied (D @ concat bufs) u \<and> (D @ concat bufs \<noteq> [] \<longrightarrow> last_byte u = last (D @ concat bufs))
    \<and> (D @ concat bufs = [] \<longrightarrow> \<not> last_sparse u)"
  using assms
proof (induction arbitrary: D rule: writes_all.induct)
  case (writes_none s)
  then show ?case by simp
next
  case (writes_more buf s t bufs u)
  have run: "write_file_loop 0 buf s = Inr (int (length buf), t)" using writes_more(1) by (simp add: write_file_def)
  have t: "copied (D @ buf) t" "buf \<noteq> [] \<longrightarrow> last_byte t = last buf"
    using write_file_loop_copies [OF run _ writes_more(4)] by simp_all
  have "t = s" if "buf = []" using run that by (simp add: write_file_loop.simps)
  then have "D @ buf \<noteq> [] \<longrightarrow> last_byte t = last (D @ buf)" "D @ buf = [] \<longrightarrow> \<not> last_sparse t"
    using t(2) writes_more(5,6) by (cases "buf = []"; simp)+
  from writes_more.IH [OF t(1) this] show ?case by simp
qed


definition new_file :: sparse where
  "new_file = \<lparr>fd_data = [], fd_pos = 0, fd_limits = [1], last_byte = 0, last_sparse = False\<rparr>"


text \<open>A file with a hole spoils the next one: \<open>sparse_end\<close> returns before it resets \<open>last_sparse\<close>, so that
  an empty file that is written after a file that had a hole anywhere comes out with one byte, the
  last byte of the file before.\<close>

theorem sparse_end_spoils_next:
  assumes "last_sparse s" and "sparse_end s = Inr (r, t)" and "u = t\<lparr>fd_data := [], fd_pos := 0, fd_limits := []\<rparr>"
  shows "\<exists>v. sparse_end u = Inr (0, v) \<and> fd_data v = [last_byte s]"
proof -
  have "last_sparse t \<and> last_byte t = last_byte s"
    using assms(1,2) by (auto simp: sparse_end_def sys_write_def do_lseek_def Let_def elim!: andthen_InrE split: if_splits)
  then show ?thesis
    by (simp add: assms(3) sparse_end_def do_lseek_def sys_write_def limited_def write_at_def)
qed

theorem sparse_end_spoils_next_witness:
  "\<exists>t v. sparse_end (new_file\<lparr>fd_data := [1, 0], fd_pos := 2, last_byte := 7, last_sparse := True\<rparr>) = Inr (0, t)
    \<and> sparse_end (t\<lparr>fd_data := [], fd_pos := 0, fd_limits := []\<rparr>) = Inr (0, v) \<and> fd_data v = [7]"
proof -
  let ?s = "new_file\<lparr>fd_data := [1, 0], fd_pos := 2, last_byte := 7, last_sparse := True\<rparr>"
  obtain t where t: "sparse_end ?s = Inr (0, t)"
    by (simp add: new_file_def sparse_end_def do_lseek_def sys_write_def limited_def Let_def)
  show ?thesis using sparse_end_spoils_next [OF _ t refl] t by auto
qed

end
