(* ===== verification/Paths.thy ===== *)
theory Paths
  imports World
begin

text \<open>
  \<open>util.c\<close> and \<open>env.c\<close>: the current directory, the cleaning of path names, and the configuration
  directory.  A path is the string without its NUL.  (When \<open>clean_fname\<close> removes a \<open>/./\<close> in place
  it also copies the byte behind the NUL; that byte lands behind the new NUL and is not modelled.)

  What is shown: a cleaned name is in normal form and has the same components; when a relative
  name becomes an absolute one; where \<open>push_dir\<close> and \<open>pop_dir\<close> leave the process; what
  \<open>setup_env\<close> guarantees.
\<close>

abbreviation (input) SLASH :: byte where "SLASH \<equiv> 47"
abbreviation (input) DOT :: byte where "DOT \<equiv> 46"

section \<open>Cleaning a name\<close>

fun strstr :: "byte list \<Rightarrow> byte list \<Rightarrow> nat option" where
  "strstr [] pat = (if pat = [] then Some 0 else None)"
| "strstr (c # cs) pat = (if take (length pat) (c # cs) = pat then Some 0 else map_option Suc (strstr cs pat))"

definition clean_dot :: "byte list \<Rightarrow> byte list" where
  "clean_dot name = (case strstr name [SLASH, DOT, SLASH] of None \<Rightarrow> name
     | Some p \<Rightarrow> take p name @ drop (p + 2) name)"

definition clean_slash :: "byte list \<Rightarrow> byte list" where
  "clean_slash name = (case strstr name [SLASH, SLASH] of None \<Rightarrow> name
     | Some p \<Rightarrow> take p name @ drop (p + 1) name)"

definition clean_prefix :: "byte list \<Rightarrow> byte list" where
  "clean_prefix name = (if take 2 name = [DOT, SLASH] then drop 2 name else name)"

definition clean_last :: "byte list \<Rightarrow> byte list" where
  "clean_last name = (if 1 < length name \<and> last name = SLASH then butlast name else name)"

text \<open>One turn of the loop; \<open>modified\<close> is set when the name became shorter.\<close>

definition clean_pass :: "byte list \<Rightarrow> byte list" where
  "clean_pass name = clean_last (clean_prefix (clean_slash (clean_dot name)))"

function clean_fname :: "byte list \<Rightarrow> byte list" where
  "clean_fname name = (let name' = clean_pass name in
     if length name' < length name then clean_fname name' else name')"
  by pat_completeness auto
termination
  by (relation "measure length") auto

declare clean_fname.simps [simp del]

lemma strstr_Some: "strstr name pat = Some p \<Longrightarrow> \<exists>a b. name = a @ pat @ b \<and> length a = p"
proof (induction name pat arbitrary: p rule: strstr.induct)
  case (1 pat)
  then show ?case by (auto split: if_splits)
next
  case (2 c cs pat)
  show ?case
  proof (cases "take (length pat) (c # cs) = pat")
    case True
    then have "c # cs = [] @ pat @ drop (length pat) (c # cs)" by (metis append_Nil append_take_drop_id)
    then show ?thesis using 2(2) True by (intro exI [of _ "[]"] exI [of _ "drop (length pat) (c # cs)"]) simp
  next
    case False
    then obtain q where "strstr cs pat = Some q" "p = Suc q" using 2(2) by auto
    from 2(1) [OF False this(1)] obtain a b where "cs = a @ pat @ b" "length a = q" by blast
    then show ?thesis using \<open>p = Suc q\<close> by (intro exI [of _ "c # a"] exI [of _ b]) simp
  qed
qed

lemma strstr_None: "strstr name pat = None \<Longrightarrow> \<nexists>a b. name = a @ pat @ b"
proof (induction name pat rule: strstr.induct)
  case (1 pat)
  then show ?case by (auto split: if_splits)
next
  case (2 c cs pat)
  then have f: "take (length pat) (c # cs) \<noteq> pat" "\<nexists>a b. cs = a @ pat @ b" by (auto split: if_splits)
  show ?case
  proof
    assume "\<exists>a b. c # cs = a @ pat @ b"
    then obtain a b where ab: "c # cs = a @ pat @ b" by blast
    then show False using f by (cases a) (auto simp: take_append)
  qed
qed

text \<open>What each step does to a name, and when it does nothing.\<close>

lemma clean_dot_cases:
  obtains (same) "clean_dot name = name" "\<nexists>a b. name = a @ [SLASH, DOT, SLASH] @ b"
  | (cut) a b where "name = a @ [SLASH, DOT, SLASH] @ b" "clean_dot name = a @ [SLASH] @ b"
proof (cases "strstr name [SLASH, DOT, SLASH]")
  case None
  then show thesis by (intro same) (simp add: clean_dot_def, rule strstr_None)
next
  case (Some p)
  then obtain a b where "name = a @ [SLASH, DOT, SLASH] @ b" "length a = p" using strstr_Some by blast
  then show thesis using cut Some by (simp add: clean_dot_def)
qed

lemma clean_slash_cases:
  obtains (same) "clean_slash name = name" "\<nexists>a b. name = a @ [SLASH, SLASH] @ b"
  | (cut) a b where "name = a @ [SLASH, SLASH] @ b" "clean_slash name = a @ [SLASH] @ b"
proof (cases "strstr name [SLASH, SLASH]")
  case None
  then show thesis by (intro same) (simp add: clean_slash_def, rule strstr_None)
next
  case (Some p)
  then obtain a b where "name = a @ [SLASH, SLASH] @ b" "length a = p" using strstr_Some by blast
  then show thesis using cut Some by (simp add: clean_slash_def)
qed

lemma clean_prefix_cases:
  obtains (same) "clean_prefix name = name" "\<nexists>b. name = [DOT, SLASH] @ b"
  | (cut) b where "name = [DOT, SLASH] @ b" "clean_prefix name = b"
proof (cases "take 2 name = [DOT, SLASH]")
  case True
  then have "name = [DOT, SLASH] @ drop 2 name" by (metis append_take_drop_id)
  then show thesis using cut True by (simp add: clean_prefix_def)
next
  case False
  then show thesis by (intro same) (auto simp: clean_prefix_def)
qed

lemma clean_last_cases:
  obtains (same) "clean_last name = name" "length name \<le> 1 \<or> last name \<noteq> SLASH"
  | (cut) a where "name = a @ [SLASH]" "a \<noteq> []" "clean_last name = a"
proof (cases "1 < length name \<and> last name = SLASH")
  case True
  then have "name \<noteq> []" by auto
  then have "name = butlast name @ [SLASH]" using True by (metis append_butlast_last_id)
  moreover have "butlast name \<noteq> []" using True by (cases name) auto
  ultimately show thesis using cut True by (simp add: clean_last_def)
next
  case False
  then show thesis using same by (auto simp: clean_last_def)
qed

text \<open>A property of names that every step keeps is kept by the whole.\<close>

lemma clean_pass_induct:
  assumes "P name"
    and "\<And>a b. P (a @ [SLASH, DOT, SLASH] @ b) \<Longrightarrow> P (a @ [SLASH] @ b)"
    and "\<And>a b. P (a @ [SLASH, SLASH] @ b) \<Longrightarrow> P (a @ [SLASH] @ b)"
    and "\<And>b. P ([DOT, SLASH] @ b) \<Longrightarrow> P b"
    and "\<And>a. a \<noteq> [] \<Longrightarrow> P (a @ [SLASH]) \<Longrightarrow> P a"
  shows "P (clean_pass name)"
proof -
  have 1: "P (clean_dot name)" by (rule clean_dot_cases [of name]) (use assms(1,2) in auto)
  have 2: "P (clean_slash (clean_dot name))"
    by (rule clean_slash_cases [of "clean_dot name"]) (use 1 assms(3) in auto)
  have 3: "P (clean_prefix (clean_slash (clean_dot name)))"
    by (rule clean_prefix_cases [of "clean_slash (clean_dot name)"]) (use 2 assms(4) in auto)
  show ?thesis unfolding clean_pass_def
    by (rule clean_last_cases [of "clean_prefix (clean_slash (clean_dot name))"]) (use 3 assms(5) in auto)
qed

lemma clean_fname_induct:
  assumes "P name"
    and "\<And>a b. P (a @ [SLASH, DOT, SLASH] @ b) \<Longrightarrow> P (a @ [SLASH] @ b)"
    and "\<And>a b. P (a @ [SLASH, SLASH] @ b) \<Longrightarrow> P (a @ [SLASH] @ b)"
    and "\<And>b. P ([DOT, SLASH] @ b) \<Longrightarrow> P b"
    and "\<And>a. a \<noteq> [] \<Longrightarrow> P (a @ [SLASH]) \<Longrightarrow> P a"
  shows "P (clean_fname name)"
  using assms(1)
proof (induction name rule: clean_fname.induct)
  case (1 name)
  have p: "P (clean_pass name)" by (rule clean_pass_induct [where P = P, OF 1(2) assms(2-5)])
  show ?case using 1(1) [OF refl _ p] p by (subst clean_fname.simps) (simp only: Let_def split: if_split, blast)
qed

section \<open>What a cleaned name is\<close>

definition normal_name :: "byte list \<Rightarrow> bool" where
  "normal_name name \<longleftrightarrow> (\<nexists>a b. name = a @ [SLASH, DOT, SLASH] @ b) \<and> (\<nexists>a b. name = a @ [SLASH, SLASH] @ b)
     \<and> (\<nexists>b. name = [DOT, SLASH] @ b) \<and> (length name \<le> 1 \<or> last name \<noteq> SLASH)"

lemma clean_steps_shorten:
  shows "length (clean_dot name) \<le> length name \<and> (length (clean_dot name) = length name \<longrightarrow> clean_dot name = name)"
    and "length (clean_slash name) \<le> length name \<and> (length (clean_slash name) = length name \<longrightarrow> clean_slash name = name)"
    and "length (clean_prefix name) \<le> length name \<and> (length (clean_prefix name) = length name \<longrightarrow> clean_prefix name = name)"
    and "length (clean_last name) \<le> length name \<and> (length (clean_last name) = length name \<longrightarrow> clean_last name = name)"
  subgoal by (rule clean_dot_cases [of name]) simp_all
  subgoal by (rule clean_slash_cases [of name]) simp_all
  subgoal by (rule clean_prefix_cases [of name]) simp_all
  subgoal by (rule clean_last_cases [of name]) simp_all
  done

lemma clean_pass_fixed:
  assumes "\<not> length (clean_pass name) < length name"
  shows "clean_pass name = name" "normal_name name"
proof -
  let ?d = "clean_dot name" let ?s = "clean_slash ?d" let ?p = "clean_prefix ?s"
  have "length name \<le> length (clean_last ?p)" using assms by (simp add: clean_pass_def)
  then have l: "length (clean_last ?p) = length ?p" "length ?p = length ?s" "length ?s = length ?d" "length ?d = length name"
    using clean_steps_shorten(1) [of name] clean_steps_shorten(2) [of ?d] clean_steps_shorten(3) [of ?s]
      clean_steps_shorten(4) [of ?p] by linarith+
  then have e: "?d = name" "clean_slash name = name" "clean_prefix name = name" "clean_last name = name"
    using clean_steps_shorten [of name] by auto
  then show "clean_pass name = name" by (simp add: clean_pass_def)
  show "normal_name name" unfolding normal_name_def
  proof (intro conjI)
    show "\<nexists>a b. name = a @ [SLASH, DOT, SLASH] @ b"
      by (rule clean_dot_cases [of name]) (use e in auto)
    show "\<nexists>a b. name = a @ [SLASH, SLASH] @ b"
      by (rule clean_slash_cases [of name]) (use e in auto)
    show "\<nexists>b. name = [DOT, SLASH] @ b" by (rule clean_prefix_cases [of name]) (use e in auto)
    show "length name \<le> 1 \<or> last name \<noteq> SLASH" by (rule clean_last_cases [of name]) (use e in auto)
  qed
qed

lemma clean_fname_normal: "normal_name (clean_fname name)"
proof (induction name rule: clean_fname.induct)
  case (1 name)
  show ?case
  proof (cases "length (clean_pass name) < length name")
    case True
    then show ?thesis using 1 [OF refl True] by (subst clean_fname.simps) (simp add: Let_def)
  next
    case False
    then show ?thesis using clean_pass_fixed [OF False] by (subst clean_fname.simps) (simp add: Let_def)
  qed
qed

lemma normal_name_fixed:
  assumes "normal_name name"
  shows "clean_fname name = name"
proof -
  have 1: "clean_dot name = name" by (rule clean_dot_cases [of name]) (use assms in \<open>auto simp: normal_name_def\<close>)
  have 2: "clean_slash name = name" by (rule clean_slash_cases [of name]) (use assms in \<open>auto simp: normal_name_def\<close>)
  have 3: "clean_prefix name = name" by (rule clean_prefix_cases [of name]) (use assms in \<open>auto simp: normal_name_def\<close>)
  have 4: "clean_last name = name" by (rule clean_last_cases [of name]) (use assms in \<open>auto simp: normal_name_def\<close>)
  have "clean_pass name = name" by (simp add: clean_pass_def 1 2 3 4)
  then show ?thesis by (subst clean_fname.simps) (simp add: Let_def)
qed

text \<open>The reference: the components of a path, without the empty ones and the dots.\<close>

fun split_on :: "byte \<Rightarrow> byte list \<Rightarrow> byte list list" where
  "split_on c [] = [[]]"
| "split_on c (x # xs) = (if x = c then [] # split_on c xs
     else case split_on c xs of [] \<Rightarrow> [[x]] | y # ys \<Rightarrow> (x # y) # ys)"

definition components :: "byte list \<Rightarrow> byte list list" where
  "components name = filter (\<lambda>c. c \<noteq> [] \<and> c \<noteq> [DOT]) (split_on SLASH name)"

lemma split_on_not_Nil [simp]: "split_on c xs \<noteq> []"
  by (cases xs) (auto split: list.split)

lemma split_on_append: "split_on c (xs @ c # ys) = split_on c xs @ split_on c ys"
  by (induction xs) (auto split: list.split simp: neq_Nil_conv)

lemma components_join: "components (a @ SLASH # b) = components a @ components b"
  by (simp add: components_def split_on_append)

lemma components_small [simp]: "components [] = []" "components [DOT] = []"
  by (simp_all add: components_def)

lemma clean_fname_components: "components (clean_fname name) = components name"
proof -
  have "(\<lambda>n. components n = components name) (clean_fname name)"
  proof (rule clean_fname_induct)
    fix a b
    have dots: "components (a @ [SLASH, DOT, SLASH] @ b) = components a @ components b"
      using components_join [of a "[DOT] @ SLASH # b"] components_join [of "[DOT]" b] by simp
    have slashes: "components (a @ [SLASH, SLASH] @ b) = components a @ components b"
      using components_join [of a "[] @ SLASH # b"] components_join [of "[]" b] by simp
    show "components (a @ [SLASH] @ b) = components name" if "components (a @ [SLASH, DOT, SLASH] @ b) = components name"
      using that dots components_join [of a b] by simp
    show "components (a @ [SLASH] @ b) = components name" if "components (a @ [SLASH, SLASH] @ b) = components name"
      using that slashes components_join [of a b] by simp
    show "components b = components name" if "components ([DOT, SLASH] @ b) = components name"
      using that components_join [of "[DOT]" b] by simp
    show "components a = components name" if "components (a @ [SLASH]) = components name"
      using that components_join [of a "[]"] by simp
  qed simp
  then show ?thesis by simp
qed

text \<open>Absolute names, and names with two slashes in a row.\<close>

definition absolute :: "byte list \<Rightarrow> bool" where
  "absolute name \<longleftrightarrow> name \<noteq> [] \<and> hd name = SLASH"

fun doubled :: "byte list \<Rightarrow> bool" where
  "doubled (x # y # zs) = (x = SLASH \<and> y = SLASH \<or> doubled (y # zs))"
| "doubled _ = False"

lemma doubled_Cons: "doubled (x # ys) \<longleftrightarrow> doubled ys \<or> (ys \<noteq> [] \<and> x = SLASH \<and> hd ys = SLASH)"
  by (cases ys) auto

lemma doubled_append: "doubled (a @ b) \<longleftrightarrow> doubled a \<or> doubled b
  \<or> (a \<noteq> [] \<and> b \<noteq> [] \<and> last a = SLASH \<and> hd b = SLASH)"
  by (induction a) (auto simp: doubled_Cons hd_append)

lemma clean_fname_absolute_keeps: "absolute name \<Longrightarrow> absolute (clean_fname name)"
  by (rule clean_fname_induct [where P = absolute]) (auto simp: absolute_def hd_append)

lemma clean_fname_relative_keeps: "\<not> absolute name \<Longrightarrow> \<not> doubled name \<Longrightarrow> \<not> absolute (clean_fname name)"
proof -
  assume a: "\<not> absolute name" "\<not> doubled name"
  have "(\<lambda>n. \<not> absolute n \<and> \<not> doubled n) (clean_fname name)"
    by (rule clean_fname_induct) (use a in \<open>auto simp: absolute_def hd_append doubled_append doubled_Cons split: if_splits\<close>)
  then show ?thesis by simp
qed

section \<open>The current directory\<close>

text \<open>
  \<open>curr_dir\<close> has room for 1024 bytes; what does not fit is written beyond it, because \<open>strncpy\<close> leaves out
  the NUL and the size that \<open>strncat\<close> is given is not that of the room left.  When \<open>getcwd\<close> fails the
  buffer stays as it is.
\<close>

record 'e dirs =
  curr_dir :: "byte list"
  dir_initialised :: bool
  dir_env :: 'e

record 'e dir_calls =
  dc_getcwd :: "'e \<Rightarrow> pointer"
  dc_chdir :: "byte list \<Rightarrow> 'e \<Rightarrow> bool \<times> 'e"

abbreviation (input) MAXPATHLEN :: nat where "MAXPATHLEN \<equiv> 1024"

definition initial_dir :: "'e dir_calls \<Rightarrow> ('e dirs, unit) prog" where
  "initial_dir c s = (if dir_initialised s then Inr ((), s)
     else Inr ((), s\<lparr>dir_initialised := True,
       curr_dir := (case dc_getcwd c (dir_env s) of Some d \<Rightarrow> d | None \<Rightarrow> curr_dir s)\<rparr>))"

definition push_dir :: "'e dir_calls \<Rightarrow> pointer \<Rightarrow> bool \<Rightarrow> ('e dirs, pointer) prog" where
  "push_dir c dir save = andthen (initial_dir c) (\<lambda>_ s. case dir of None \<Rightarrow> Inr (None, s)
     | Some dir \<Rightarrow> (case dc_chdir c dir (dir_env s) of (ok, e) \<Rightarrow>
         if \<not> ok then Inr (None, s\<lparr>dir_env := e\<rparr>)
         else let new = (if absolute dir then dir else curr_dir s @ [SLASH] @ dir) in
           if MAXPATHLEN \<le> length new then Inl Undef
           else Inr (Some (if save then curr_dir s else clean_fname new),
                     s\<lparr>dir_env := e, curr_dir := clean_fname new\<rparr>)))"

definition pop_dir :: "'e dir_calls \<Rightarrow> byte list \<Rightarrow> ('e dirs, int) prog" where
  "pop_dir c dir s = (case dc_chdir c dir (dir_env s) of (ok, e) \<Rightarrow>
     if \<not> ok then Inr (-1, s\<lparr>dir_env := e\<rparr>)
     else if MAXPATHLEN \<le> length dir then Inl Undef
     else Inr (0, s\<lparr>dir_env := e, curr_dir := dir\<rparr>))"

text \<open>
  The calls of the system, for directories that are not reached through links: the working directory
  is an absolute path, \<open>getcwd\<close> returns it, and a successful \<open>chdir\<close> to a path without \<open>..\<close> goes to
  the directory that the path names.
\<close>

definition plain_dirs :: "'e dir_calls \<Rightarrow> ('e \<Rightarrow> byte list) \<Rightarrow> bool" where
  "plain_dirs c cwd \<longleftrightarrow> (\<forall>e. absolute (cwd e) \<and> dc_getcwd c e = Some (cwd e))
     \<and> (\<forall>d e e'. dc_chdir c d e = (False, e') \<longrightarrow> cwd e' = cwd e)
     \<and> (\<forall>d e e'. dc_chdir c d e = (True, e') \<and> [DOT, DOT] \<notin> set (components d)
          \<longrightarrow> components (cwd e') = (if absolute d then [] else components (cwd e)) @ components d)"

definition tracks :: "('e \<Rightarrow> byte list) \<Rightarrow> 'e dirs \<Rightarrow> bool" where
  "tracks cwd s \<longleftrightarrow> absolute (curr_dir s) \<and> components (curr_dir s) = components (cwd (dir_env s))"

lemma initial_dir_tracks:
  assumes "plain_dirs c cwd" "dir_initialised s \<longrightarrow> tracks cwd s"
  obtains t where "initial_dir c s = Inr ((), t)" "tracks cwd t" "dir_initialised t"
  using assms by (cases "dir_initialised s") (auto simp: initial_dir_def plain_dirs_def tracks_def)

lemma push_dir_tracks:
  assumes "plain_dirs c cwd" "dir_initialised s \<longrightarrow> tracks cwd s"
    "\<And>d. dir = Some d \<Longrightarrow> [DOT, DOT] \<notin> set (components d)" "push_dir c dir save s = Inr (r, s')"
  shows "tracks cwd s' \<and> dir_initialised s'"
proof -
  obtain t where t: "initial_dir c s = Inr ((), t)" "tracks cwd t" "dir_initialised t"
    by (rule initial_dir_tracks [OF assms(1,2)])
  show ?thesis
  proof (cases dir)
    case None
    then show ?thesis using assms(4) t by (simp add: push_dir_def)
  next
    case (Some p)
    then have p: "dir = Some p" by simp
    obtain ok e where c: "dc_chdir c p (dir_env t) = (ok, e)" by fastforce
    define new where "new = (if absolute p then p else curr_dir t @ [SLASH] @ p)"
    show ?thesis
    proof (cases ok)
      case False
      then have "cwd e = cwd (dir_env t)" using c assms(1) by (auto simp: plain_dirs_def)
      then show ?thesis using assms(4) p c t False by (auto simp: push_dir_def tracks_def)
    next
      case True
      then have s': "s' = t\<lparr>dir_env := e, curr_dir := clean_fname new\<rparr>"
        using assms(4) p c t(1) by (auto simp: push_dir_def new_def Let_def split: if_splits)
      have "[DOT, DOT] \<notin> set (components p)" using assms(3) p by simp
      then have "components (cwd e) = (if absolute p then [] else components (cwd (dir_env t))) @ components p"
        using c True assms(1) by (auto simp: plain_dirs_def)
      moreover have "components new = (if absolute p then [] else components (curr_dir t)) @ components p"
        using components_join [of "curr_dir t" p] by (simp add: new_def)
      moreover have "absolute new" using t(2) by (auto simp: new_def tracks_def absolute_def)
      ultimately show ?thesis using s' t by (simp add: tracks_def clean_fname_components clean_fname_absolute_keeps)
    qed
  qed
qed

section \<open>The configuration directory\<close>

record 'e env_proc = "'e proc" +
  config_variable :: pointer
  config_dir :: pointer

definition get_config_dir_name :: "('e env_proc, byte list) prog" where
  "get_config_dir_name s = (let config_dir = (case config_variable s of Some d \<Rightarrow> d | None \<Rightarrow> cstr ''cryptar'') in
     if absolute config_dir then Inr (config_dir, s)
     else case home_variable s of None \<Rightarrow> Inl (Exit (-1))
       | Some home \<Rightarrow> Inr (home @ [SLASH] @ config_dir, s))"

text \<open>The only error of \<open>stat\<close> in the model is that there is no such file.\<close>

definition setup_config_dir :: "('e env_proc, unit) prog" where
  "setup_config_dir = andthen get_config_dir_name (\<lambda>dir s.
     if fs_nodes (file_sys s) dir \<noteq> None then Inr ((), s\<lparr>config_dir := Some dir\<rparr>)
     else andthen (do_mkdir dir) (\<lambda>(r, dir). if r < 0 then fail (Exit (-1))
          else update (\<lambda>s. s\<lparr>config_dir := Some dir\<rparr>)) s)"

definition setup_env :: "pointer \<Rightarrow> ('e env_proc, unit) prog" where
  "setup_env env_name = andthen (require (env_name \<noteq> None)) (\<lambda>_ s.
     if config_dir s = None then setup_config_dir s else Inr ((), s))"

lemma do_mkdir_made:
  assumes "do_mkdir p s = Inr ((r, q), s')" "0 \<le> r" "int_option kOption_dryrun s = 0"
  shows "fs_nodes (file_sys s') q \<noteq> None"
  using assms by (auto simp: do_mkdir_def mkdir_def Let_def elim!: andthen_InrE split: if_splits)

lemma do_mkdir_other: "do_mkdir p (s :: 'e env_proc) = Inr (x, s') \<Longrightarrow> config_dir s' = config_dir s"
  by (auto simp: do_mkdir_def mkdir_def Let_def elim!: andthen_InrE split: if_splits)

section \<open>Properties\<close>

text \<open>C30. Cleaning a name gives the normal form of the same path: \<open>clean_fname\<close> ends for every name; the
  result has no two slashes in a row, no \<open>/./\<close>, no leading \<open>./\<close> and no trailing slash unless it is
  the root, and cleaning it again changes nothing; it has the same components, and an absolute name
  stays absolute, as a relative name without two slashes in a row stays relative.\<close>

theorem clean_fname_correct:
  shows "normal_name (clean_fname name) \<and> clean_fname (clean_fname name) = clean_fname name
    \<and> components (clean_fname name) = components name
    \<and> (absolute name \<or> \<not> doubled name \<longrightarrow> absolute (clean_fname name) = absolute name)"
  using clean_fname_normal clean_fname_components normal_name_fixed [OF clean_fname_normal]
    clean_fname_absolute_keeps clean_fname_relative_keeps by blast

theorem clean_fname_correct_witness:
  "absolute (clean_fname (cstr ''/a/./b/'')) \<and> components (clean_fname (cstr ''/a/./b/'')) = [cstr ''a'', cstr ''b'']"
proof -
  have "absolute (cstr ''/a/./b/'')" "components (cstr ''/a/./b/'') = [cstr ''a'', cstr ''b'']" by code_simp+
  then show ?thesis using clean_fname_correct [of "cstr ''/a/./b/''"] by simp
qed

text \<open>A relative name can become absolute: of a dot and three slashes one turn of the loop collapses only
  two slashes before it removes the dot with a slash, and a leading slash is left, whatever name
  follows.\<close>

theorem clean_fname_escapes:
  assumes "normal_name (SLASH # name)" and "name \<noteq> []"
  shows "\<not> absolute (cstr ''.///'' @ name) \<and> clean_fname (cstr ''.///'' @ name) = SLASH # name"
proof -
  let ?n = "[DOT, SLASH, SLASH, SLASH] @ name"
  have c: "cstr ''.///'' = [DOT, SLASH, SLASH, SLASH]" by code_simp
  have nd: "strstr (SLASH # name) [SLASH, DOT, SLASH] = None"
  proof (cases "strstr (SLASH # name) [SLASH, DOT, SLASH]")
    case (Some p)
    then show ?thesis using strstr_Some [OF Some] assms(1) by (auto simp: normal_name_def)
  qed
  have "clean_dot ?n = ?n" using nd by (simp add: clean_dot_def)
  moreover have "clean_slash ?n = [DOT, SLASH, SLASH] @ name" by (simp add: clean_slash_def)
  moreover have "clean_prefix ([DOT, SLASH, SLASH] @ name) = SLASH # name" by (simp add: clean_prefix_def)
  moreover have "clean_last (SLASH # name) = SLASH # name"
    using assms by (auto simp: clean_last_def normal_name_def split: if_splits)
  ultimately have "clean_pass ?n = SLASH # name" by (simp add: clean_pass_def)
  then have "clean_fname ?n = SLASH # name"
    using normal_name_fixed [OF assms(1)] by (subst clean_fname.simps) (simp add: Let_def)
  then show ?thesis unfolding c by (simp add: absolute_def)
qed

theorem clean_fname_escapes_witness:
  "clean_fname (cstr ''.///'' @ cstr ''etc'') = cstr ''/etc''"
proof -
  have "clean_fname (SLASH # cstr ''etc'') = SLASH # cstr ''etc''" by code_simp
  then have "normal_name (SLASH # cstr ''etc'')" using clean_fname_normal by metis
  moreover have "SLASH # cstr ''etc'' = cstr ''/etc''" "cstr ''etc'' \<noteq> []" by code_simp+
  ultimately show ?thesis using clean_fname_escapes by metis
qed

text \<open>The program knows where it is: as long as directories are entered by paths without \<open>..\<close> and
  not through links, \<open>curr_dir\<close> names the working directory after every \<open>push_dir\<close>, whether it
  succeeds or not, and after the \<open>pop_dir\<close> of what it returned.\<close>

theorem push_dir_follows:
  assumes "plain_dirs c cwd" and "dir_initialised s \<longrightarrow> tracks cwd s" and "[DOT, DOT] \<notin> set (components d)"
    and "push_dir c (Some d) True s = Inr (r, s')"
  shows "tracks cwd s' \<and> (\<forall>old s''. r = Some old \<and> [DOT, DOT] \<notin> set (components old)
    \<and> pop_dir c old s' = Inr (0, s'') \<longrightarrow> tracks cwd s'' \<and> curr_dir s'' = old)"
proof -
  obtain t where t: "initial_dir c s = Inr ((), t)" "tracks cwd t" "dir_initialised t"
    by (rule initial_dir_tracks [OF assms(1,2)])
  have "tracks cwd s'" using push_dir_tracks [OF assms(1,2) _ assms(4)] assms(3) by simp
  moreover have "tracks cwd s'' \<and> curr_dir s'' = old"
    if o: "r = Some old" "[DOT, DOT] \<notin> set (components old)" "pop_dir c old s' = Inr (0, s'')" for old s''
  proof -
    have "old = curr_dir t"
      using assms(4) t(1) o(1) by (auto simp: push_dir_def Let_def split: prod.splits if_splits)
    then have a: "absolute old" using t(2) by (simp add: tracks_def)
    obtain e where e: "dc_chdir c old (dir_env s') = (True, e)" "s'' = s'\<lparr>dir_env := e, curr_dir := old\<rparr>"
      using o(3) by (auto simp: pop_dir_def split: prod.splits if_splits)
    then have "components (cwd e) = components old" using assms(1) a o(2) by (auto simp: plain_dirs_def)
    then show ?thesis using e(2) a by (simp add: tracks_def)
  qed
  ultimately show ?thesis by blast
qed

definition sample_calls :: "byte list dir_calls" where
  "sample_calls = \<lparr>dc_getcwd = (\<lambda>e. Some (SLASH # e)),
     dc_chdir = (\<lambda>d e. (True, if absolute d then d else e @ SLASH # d))\<rparr>"

lemma sample_calls_plain: "plain_dirs sample_calls (\<lambda>e. SLASH # e)"
proof -
  have s: "components (SLASH # x) = components x" for x using components_join [of "[]" x] by simp
  have "components (e @ SLASH # d) = components e @ components d" for e d by (rule components_join)
  then show ?thesis by (auto simp: plain_dirs_def sample_calls_def s absolute_def)
qed

theorem push_dir_follows_witness:
  "\<exists>s'. push_dir sample_calls (Some (cstr ''b/'')) True \<lparr>curr_dir = [], dir_initialised = False, dir_env = cstr ''a''\<rparr>
      = Inr (Some (cstr ''/a''), s') \<and> curr_dir s' = cstr ''/a/b'' \<and> tracks (\<lambda>e. SLASH # e) s'"
proof -
  let ?s = "\<lparr>curr_dir = [], dir_initialised = False, dir_env = cstr ''a''\<rparr>"
  let ?t = "\<lparr>curr_dir = cstr ''/a/b'', dir_initialised = True, dir_env = cstr ''a/b/''\<rparr>"
  have r: "push_dir sample_calls (Some (cstr ''b/'')) True ?s = Inr (Some (cstr ''/a''), ?t)" by code_simp
  have "[DOT, DOT] \<notin> set (components (cstr ''b/''))" by code_simp
  then have "tracks (\<lambda>e. SLASH # e) ?t" using push_dir_follows [OF sample_calls_plain _ _ r] by simp
  then show ?thesis using r by auto
qed

text \<open>The environment is ready: when \<open>setup_env\<close> returns, a configuration directory is named, it exists
  unless the process only pretends, and a second call changes nothing.\<close>

theorem setup_env_ready:
  assumes "setup_env n s = Inr ((), s')"
  shows "(\<exists>d. config_dir s' = Some d
      \<and> (config_dir s = None \<and> int_option kOption_dryrun s = 0 \<longrightarrow> fs_nodes (file_sys s') d \<noteq> None))
    \<and> setup_env n s' = Inr ((), s')"
proof -
  have n: "n \<noteq> None" using assms by (cases n) (simp_all add: setup_env_def)
  show ?thesis
  proof (cases "config_dir s")
    case (Some d)
    then show ?thesis using assms n by (auto simp: setup_env_def)
  next
    case None
    then have "setup_config_dir s = Inr ((), s')" using assms n by (simp add: setup_env_def)
    then obtain dir where d: "get_config_dir_name s = Inr (dir, s)"
      and run: "(if fs_nodes (file_sys s) dir \<noteq> None then Inr ((), s\<lparr>config_dir := Some dir\<rparr>)
     else andthen (do_mkdir dir) (\<lambda>(r, dir). if r < 0 then fail (Exit (-1))
          else update (\<lambda>s. s\<lparr>config_dir := Some dir\<rparr>)) s) = Inr ((), s')"
      by (auto simp: setup_config_dir_def get_config_dir_name_def Let_def elim!: andthen_InrE
          split: if_splits option.splits)
    have "\<exists>d. config_dir s' = Some d
        \<and> (int_option kOption_dryrun s = 0 \<longrightarrow> fs_nodes (file_sys s') d \<noteq> None)"
    proof (cases "fs_nodes (file_sys s) dir")
      case (Some node)
      then show ?thesis using run by auto
    next
      case None
      then obtain r q t where m: "do_mkdir dir s = Inr ((r, q), t)" "0 \<le> r" "s' = t\<lparr>config_dir := Some q\<rparr>"
        using run by (auto elim!: andthen_InrE split: if_splits)
      then show ?thesis using do_mkdir_made [OF m(1,2)] by auto
    qed
    then show ?thesis using n by (auto simp: setup_env_def)
  qed
qed

definition fresh_env :: "unit env_proc" where
  "fresh_env = proc.extend ((plain_proc ())\<lparr>home_variable := Some (cstr ''/h''), file_sys :=
     \<lparr>fs_nodes = [cstr ''/h'' \<mapsto> Directory], fs_refuses = (\<lambda>_. False)\<rparr>\<rparr>)
     \<lparr>config_variable = None, config_dir = None\<rparr>"

theorem setup_env_ready_witness:
  "\<exists>s'. setup_env (Some []) fresh_env = Inr ((), s') \<and> config_dir s' = Some (cstr ''/h/cryptar'')
    \<and> setup_env (Some []) s' = Inr ((), s')"
proof -
  have "case setup_env (Some []) fresh_env of Inr (_, s) \<Rightarrow> config_dir s = Some (cstr ''/h/cryptar'') | Inl _ \<Rightarrow> False"
    by code_simp
  then obtain s' where s: "setup_env (Some []) fresh_env = Inr ((), s')" "config_dir s' = Some (cstr ''/h/cryptar'')"
    by (auto split: sum.splits)
  then show ?thesis using setup_env_ready [OF s(1)] by auto
qed

end
