(* ===== verification/Wrappers.thy ===== *)
theory Wrappers
  imports World
begin

text \<open>
  The rest of \<open>syscall.c\<close>: the wrappers whose system call the rest of the model does not interpret.
  The calls are a record of functions on the process, \<open>-1\<close> being their error; the build has
  \<open>mkstemp\<close>, \<open>fchmod\<close>, \<open>mknod\<close> and \<open>chmod\<close>, and neither links nor \<open>mmap\<close> (\<open>config.h\<close>).

  What is shown: which of them can reach the system in a dry run or in a read-only process.
\<close>

type_synonym 's sys_call = "('s, int) prog"

record 's sys_calls =
  c_symlink :: "byte list \<Rightarrow> byte list \<Rightarrow> 's sys_call"
  c_lchown :: "byte list \<Rightarrow> u32 \<Rightarrow> u32 \<Rightarrow> 's sys_call"
  c_mknod :: "byte list \<Rightarrow> u32 \<Rightarrow> u32 \<Rightarrow> 's sys_call"
  c_rmdir :: "byte list \<Rightarrow> 's sys_call"
  c_open :: "byte list \<Rightarrow> int \<Rightarrow> u32 \<Rightarrow> 's sys_call"
  c_chmod :: "byte list \<Rightarrow> u32 \<Rightarrow> 's sys_call"
  c_mkstemp :: "byte list \<Rightarrow> ('s, int \<times> byte list) prog"
  c_fchmod :: "int \<Rightarrow> u32 \<Rightarrow> 's sys_call"
  c_close :: "int \<Rightarrow> 's sys_call"
  c_unlink :: "byte list \<Rightarrow> 's sys_call"

text \<open>The first two lines of most wrappers.\<close>

definition guarded :: "('e, 'z) proc_scheme sys_call \<Rightarrow> ('e, 'z) proc_scheme sys_call" where
  "guarded call s = (if int_option kOption_dryrun s \<noteq> 0 then Inr (0, s)
     else if read_only s then Inr (-1, s) else call s)"

definition do_symlink :: "('e, 'z) proc_scheme sys_calls \<Rightarrow> byte list \<Rightarrow> byte list \<Rightarrow> ('e, 'z) proc_scheme sys_call" where
  "do_symlink c fname1 fname2 = guarded (c_symlink c fname1 fname2)"

definition do_lchown :: "('e, 'z) proc_scheme sys_calls \<Rightarrow> byte list \<Rightarrow> u32 \<Rightarrow> u32 \<Rightarrow> ('e, 'z) proc_scheme sys_call" where
  "do_lchown c path owner grp = guarded (c_lchown c path owner grp)"

definition do_mknod :: "('e, 'z) proc_scheme sys_calls \<Rightarrow> byte list \<Rightarrow> u32 \<Rightarrow> u32 \<Rightarrow> ('e, 'z) proc_scheme sys_call" where
  "do_mknod c pathname mode dev = guarded (c_mknod c pathname mode dev)"

definition do_rmdir :: "('e, 'z) proc_scheme sys_calls \<Rightarrow> byte list \<Rightarrow> ('e, 'z) proc_scheme sys_call" where
  "do_rmdir c pathname = guarded (c_rmdir c pathname)"

definition do_chmod :: "('e, 'z) proc_scheme sys_calls \<Rightarrow> byte list \<Rightarrow> u32 \<Rightarrow> ('e, 'z) proc_scheme sys_call" where
  "do_chmod c path mode = guarded (c_chmod c path mode)"

abbreviation (input) O_RDONLY :: int where "O_RDONLY \<equiv> 0"

text \<open>A doubled slash at the beginning of the name is made a single one.\<close>

definition single_slash :: "byte list \<Rightarrow> byte list" where
  "single_slash pathname = (if take 2 pathname = cstr ''//'' then tl pathname else pathname)"

definition do_open :: "('e, 'z) proc_scheme sys_calls \<Rightarrow> byte list \<Rightarrow> int \<Rightarrow> u32 \<Rightarrow> ('e, 'z) proc_scheme sys_call" where
  "do_open c pathname flags mode s =
     (if flags \<noteq> O_RDONLY \<and> int_option kOption_dryrun s \<noteq> 0 then Inr (-1, s)
      else if flags \<noteq> O_RDONLY \<and> read_only s then Inr (-1, s)
      else c_open c (single_slash pathname) flags mode s)"

text \<open>\<open>mkstemp\<close> completes the template in place: the result is the descriptor and the name.\<close>

definition do_mkstemp :: "('e, 'z) proc_scheme sys_calls \<Rightarrow> byte list \<Rightarrow> u32
    \<Rightarrow> (('e, 'z) proc_scheme, int \<times> byte list) prog" where
  "do_mkstemp c template perms s =
     (if int_option kOption_dryrun s \<noteq> 0 then Inr ((-1, template), s)
      else if int_option kOption_read_only s \<noteq> 0 then Inr ((-1, template), s)
      else andthen (c_mkstemp c template) (\<lambda>(fd, template).
        if fd = -1 then ret (-1, template)
        else andthen (c_fchmod c fd perms) (\<lambda>r.
          if r \<noteq> 0 then andthen (c_close c fd) (\<lambda>_. andthen (c_unlink c template) (\<lambda>_. ret (-1, template)))
          else ret (fd, template))) s)"

text \<open>What a process may not do: a dry run nothing, and a read-only process nothing either.\<close>

definition harmless :: "('e, 'z) proc_scheme \<Rightarrow> bool" where
  "harmless s \<longleftrightarrow> int_option kOption_dryrun s \<noteq> 0 \<or> read_only s"

lemma guarded_harmless: "harmless s \<Longrightarrow> \<exists>r. guarded call s = Inr (r, s) \<and> r \<in> {0, -1}"
  by (auto simp: guarded_def harmless_def)

section \<open>Properties\<close>

text \<open>A harmless process asks for nothing that changes the world: in a dry run, or with one of the
  read-only options, no wrapper but the opening of a file for reading and, in a process that only
  lists, the creation of temporary files, reaches the system call, whatever the call would do.\<close>

theorem wrappers_guarded:
  assumes "harmless s"
  shows "(\<exists>r. do_symlink c p q s = Inr (r, s)) \<and> (\<exists>r. do_lchown c p a b s = Inr (r, s))
    \<and> (\<exists>r. do_mknod c p a b s = Inr (r, s)) \<and> (\<exists>r. do_rmdir c p s = Inr (r, s))
    \<and> (\<exists>r. do_chmod c p a s = Inr (r, s))
    \<and> (flags \<noteq> O_RDONLY \<longrightarrow> do_open c p flags a s = Inr (-1, s))
    \<and> (int_option kOption_list_only s = 0 \<longrightarrow> do_mkstemp c p a s = Inr ((-1, p), s))"
  using assms guarded_harmless [OF assms]
  by (auto simp: do_symlink_def do_lchown_def do_mknod_def do_rmdir_def do_chmod_def do_open_def
      do_mkstemp_def harmless_def read_only_def)

definition counting_calls :: "nat proc sys_calls" where
  "counting_calls = (let f = (\<lambda>s. Inr (0, s\<lparr>env := Suc (env s)\<rparr>)) in
     \<lparr>c_symlink = (\<lambda>_ _. f), c_lchown = (\<lambda>_ _ _. f), c_mknod = (\<lambda>_ _ _. f), c_rmdir = (\<lambda>_. f),
      c_open = (\<lambda>_ _ _. f), c_chmod = (\<lambda>_ _. f), c_mkstemp = (\<lambda>t s. Inr ((3, t), s\<lparr>env := Suc (env s)\<rparr>)), c_fchmod = (\<lambda>_ _. f),
      c_close = (\<lambda>_. f), c_unlink = (\<lambda>_. f)\<rparr>)"

definition read_only_proc :: "nat proc" where
  "read_only_proc = (plain_proc 0)\<lparr>int_option_array := (\<lambda>_. 0)(kOption_read_only := 1)\<rparr>"

theorem wrappers_guarded_witness:
  "do_open counting_calls (cstr ''//f'') 1 0 read_only_proc = Inr (-1, read_only_proc)
    \<and> do_mkstemp counting_calls (cstr ''t'') 0 read_only_proc = Inr ((-1, cstr ''t''), read_only_proc)"
proof -
  have "harmless read_only_proc"
    by (simp add: harmless_def read_only_def read_only_proc_def int_option_def)
  from wrappers_guarded [OF this, of counting_calls "cstr ''//f''" _ _ _ 1]
    wrappers_guarded [OF this, of counting_calls "cstr ''t''"]
  show ?thesis by (simp add: read_only_proc_def int_option_def)
qed

text \<open>A process that only lists can still create files: \<open>do_mkstemp\<close> does not look at
  \<open>kOption_list_only\<close>, unlike every other wrapper, and calls the system.\<close>

theorem mkstemp_ignores_list_only:
  assumes "int_option kOption_list_only s \<noteq> 0" and "int_option kOption_dryrun s = 0"
    and "int_option kOption_read_only s = 0" and "c_mkstemp c p s = Inr ((fd, q), s')" and "fd \<noteq> -1"
    and "c_fchmod c fd perms s' = Inr (0, s'')"
  shows "harmless s \<and> do_mkstemp c p perms s = Inr ((fd, q), s'')"
  using assms by (simp add: harmless_def read_only_def do_mkstemp_def)

theorem mkstemp_ignores_list_only_witness:
  "\<exists>s. harmless s \<and> env s = 0 \<and> (\<exists>s'. do_mkstemp counting_calls (cstr ''t'') 384 s = Inr ((3, cstr ''t''), s') \<and> env s' = 2)"
proof -
  let ?s = "(plain_proc 0 :: nat proc)\<lparr>int_option_array := (\<lambda>_. 0)(kOption_list_only := 1)\<rparr>"
  have "harmless ?s \<and> do_mkstemp counting_calls (cstr ''t'') 384 ?s = Inr ((3, cstr ''t''), ?s\<lparr>env := Suc (Suc (env ?s))\<rparr>)"
    by (rule mkstemp_ignores_list_only [where s' = "?s\<lparr>env := Suc (env ?s)\<rparr>"])
       (simp_all add: int_option_def counting_calls_def Let_def)
  then show ?thesis by (intro exI [of _ ?s]) (simp add: plain_proc_def)
qed

end
