(* ===== verification/Cpp_Mode.thy ===== *)
theory Cpp_Mode
  imports Prelude
begin

text \<open>
  The base of the model of the C++ rewrite (\<open>src/src\<close>), and its \<open>mode.cpp\<close>: the flags that the whole
  library reads.

  \<^item> Exceptions: what a function of the library can throw, as the left side of a sum.
    \<open>Thrown_string\<close> is the \<open>std::string\<close> that \<open>throw_system_error\<close> throws and \<open>Thrown_chars\<close> a thrown
    string literal; \<open>Assertion\<close> is a failed \<open>assert\<close> (the Makefile does not define \<open>NDEBUG\<close>) and \<open>Undefined\<close> undefined
    behaviour: neither can be caught, but both end the computation.
  \<^item> Modes: a map from flags to truth values; a flag that is not in the map counts as false.
\<close>

section \<open>Exceptions\<close>

datatype exn = Runtime_error | Logic_error | Invalid_argument | Length_error | Domain_error
  | Out_of_range | Bad_alloc | Future_error | Archive_exception | Thrown_string string | Thrown_chars string | Assertion | Undefined

type_synonym 'a outcome = "exn + 'a"

definition try_bind :: "'a outcome \<Rightarrow> ('a \<Rightarrow> 'b outcome) \<Rightarrow> 'b outcome" where
  "try_bind m f = (case m of Inl e \<Rightarrow> Inl e | Inr x \<Rightarrow> f x)"

lemma try_bind_simps [simp]:
  "try_bind (Inl e) f = Inl e" "try_bind (Inr x) f = f x"
  by (simp_all add: try_bind_def)

lemma try_bind_InrE:
  assumes "try_bind m f = Inr y"
  obtains x where "m = Inr x" and "f x = Inr y"
  using assms by (cases m) auto

section \<open>Modes\<close>

datatype mode_name = Verbose | Testing | Threads

type_synonym modes = "mode_name \<rightharpoonup> bool"

definition set_mode :: "mode_name \<Rightarrow> bool \<Rightarrow> modes \<Rightarrow> modes" where
  "set_mode m new_state modes = modes(m \<mapsto> new_state)"

definition mode :: "modes \<Rightarrow> mode_name \<Rightarrow> bool" where
  "mode modes m = (case modes m of None \<Rightarrow> False | Some b \<Rightarrow> b)"

text \<open>The constructor of the static object \<open>mi\<close>, which runs before \<open>main\<close>.\<close>

definition ModeInit :: "modes \<Rightarrow> modes" where
  "ModeInit modes = set_mode Threads True (set_mode Verbose False (set_mode Testing False modes))"

lemma mode_set_mode [simp]: "mode (set_mode m b modes) m' = (if m' = m then b else mode modes m')"
  by (simp add: mode_def set_mode_def)

lemma mode_ModeInit [simp]: "mode (ModeInit modes) m \<longleftrightarrow> m = Threads"
  by (cases m) (simp_all add: ModeInit_def)

end
