(* ===== verification/Cpp_Crypt.thy ===== *)
theory Cpp_Crypt
  imports Cpp_Mode
begin

text \<open>
  \<open>crypt.cpp\<close>, and the two functions of \<open>main.cpp\<close> that need it.  Crypto++ is the record \<open>suite\<close>: SHA-256, the Base64
  encoder with its default line breaks, and AES in CBC mode with the key and the initialisation
  vector given (\<open>None\<close> when Crypto++ throws).  The random pool is a function \<open>rng n e\<close> of a state of the
  environment, which gives \<open>n\<close> bytes.

  What is shown: decryption inverts encryption; a digest has 44 characters and as a file name it
  has no slash and identifies the hash; and what \<open>phrase_to_key\<close> makes of a passphrase:
  its first sixteen bytes are the key of the cipher.
\<close>

record 'e suite =
  sha256 :: "byte list \<Rightarrow> byte list"
  base64 :: "byte list \<Rightarrow> byte list"
  aes_cbc_encrypt :: "byte list \<Rightarrow> byte list \<Rightarrow> byte list \<Rightarrow> byte list option"
  aes_cbc_decrypt :: "byte list \<Rightarrow> byte list \<Rightarrow> byte list \<Rightarrow> byte list option"
  rng :: "nat \<Rightarrow> 'e \<Rightarrow> byte list \<times> 'e"

abbreviation newline :: byte where "newline \<equiv> 10"
abbreviation slash :: byte where "slash \<equiv> 47"
abbreviation underscore :: byte where "underscore \<equiv> 95"

section \<open>Digests\<close>

text \<open>
  \<open>digest.rbegin()\<close> of an empty string is undefined; the encoder never returns one for a hash.
\<close>

definition message_digest :: "('e, 'z) suite_scheme \<Rightarrow> byte list \<Rightarrow> bool \<Rightarrow> byte list outcome" where
  "message_digest lib message filesystem_safe =
     (let digest = base64 lib (sha256 lib message) in
      if digest = [] then Inl Undefined
      else let digest = (if last digest = newline then butlast digest else digest) in
        Inr (if \<not> filesystem_safe then digest
             else map (\<lambda>c. if c = slash then underscore else c) digest))"

text \<open>
  \<open>StringSink(digest)\<close> appends to \<open>digest\<close>, which still holds the message of the round.
\<close>

definition phrase_round :: "('e, 'z) suite_scheme \<Rightarrow> byte list \<Rightarrow> byte list" where
  "phrase_round lib digest = (let message = digest in digest @ sha256 lib message)"

definition phrase_to_key :: "('e, 'z) suite_scheme \<Rightarrow> byte list \<Rightarrow> byte list" where
  "phrase_to_key lib in_phrase = (phrase_round lib ^^ 50) in_phrase"

section \<open>Random strings and file names\<close>

definition pseudo_random_string :: "('e, 'z) suite_scheme \<Rightarrow> nat \<Rightarrow> 'e \<Rightarrow> byte list \<times> 'e" where
  "pseudo_random_string lib n e = rng lib n e"

definition filename_from_random_bits :: "('e, 'z) suite_scheme \<Rightarrow> byte list \<Rightarrow> 'e \<Rightarrow> byte list outcome \<times> 'e" where
  "filename_from_random_bits lib in_random e =
     (let (bits, e) = (if in_random = [] then pseudo_random_string lib 40 e else (in_random, e));
          digest = map (\<lambda>c. if c = slash then underscore else c) (base64 lib bits) in
      (if digest = [] then Inl Undefined else Inr (butlast digest), e))"

section \<open>The cipher\<close>

text \<open>\<open>bzero\<close> and \<open>memcpy\<close>: the first 16 bytes of a string, padded with zeros.\<close>

definition fixed16 :: "byte list \<Rightarrow> byte list" where
  "fixed16 s = take 16 s @ replicate (16 - length s) 0"

definition init_key_iv :: "('e, 'z) suite_scheme \<Rightarrow> byte list \<Rightarrow> (byte list \<times> byte list) outcome" where
  "init_key_iv lib password =
     try_bind (message_digest lib password False) (\<lambda>iv_string. Inr (fixed16 password, fixed16 iv_string))"

text \<open>
  Whatever Crypto++ throws is reported on \<open>cerr\<close>, and \<open>runtime_error\<close> is thrown instead.
\<close>

definition encrypt_cpp :: "('e, 'z) suite_scheme \<Rightarrow> byte list \<Rightarrow> byte list \<Rightarrow> byte list outcome" where
  "encrypt_cpp lib plain_text password =
     try_bind (init_key_iv lib password) (\<lambda>(key, iv).
       case aes_cbc_encrypt lib key iv plain_text of
         None \<Rightarrow> Inl Runtime_error | Some cipher_text \<Rightarrow> Inr cipher_text)"

definition decrypt_cpp :: "('e, 'z) suite_scheme \<Rightarrow> byte list \<Rightarrow> byte list \<Rightarrow> byte list outcome" where
  "decrypt_cpp lib cipher_text password =
     try_bind (init_key_iv lib password) (\<lambda>(key, iv).
       case aes_cbc_decrypt lib key iv cipher_text of
         None \<Rightarrow> Inl Runtime_error | Some plain_text \<Rightarrow> Inr plain_text)"

section \<open>The password of \<open>main.cpp\<close>\<close>

text \<open>
  \<open>getline(pass_phrase, 10240)\<close> keeps the characters up to the newline, 10239 at most, and ends them
  with NUL; \<open>string(pass_phrase)\<close> stops at a NUL.
\<close>

definition read_phrase :: "byte list \<Rightarrow> byte list" where
  "read_phrase line = take 10239 (takeWhile (\<lambda>c. c \<noteq> newline) line)"

text \<open>What \<open>getline\<close> leaves of the input: the newline is taken, and a line that is too long stays where it was cut.\<close>

definition after_phrase :: "byte list \<Rightarrow> byte list" where
  "after_phrase input = (let n = length (takeWhile (\<lambda>c. c \<noteq> newline) input) in
     if n \<le> 10239 then drop (n + 1) input else drop 10239 input)"

fun hash_rounds :: "('e, 'z) suite_scheme \<Rightarrow> nat \<Rightarrow> byte list \<Rightarrow> byte list outcome" where
  "hash_rounds lib 0 digest = Inr digest"
| "hash_rounds lib (Suc n) digest = try_bind (message_digest lib digest False) (hash_rounds lib n)"

text \<open>
  The result is the digest, and what the buffer holds when it is left: \<open>sizeof(pass_len)\<close> is the size
  of an \<open>int\<close>, so that \<open>bzero\<close> clears four bytes.
\<close>

definition get_password :: "('e, 'z) suite_scheme \<Rightarrow> byte list \<Rightarrow> (byte list \<times> byte list) outcome" where
  "get_password lib line =
     (let pass_phrase = read_phrase line @ [0] in
      try_bind (hash_rounds lib 50 (c_string pass_phrase)) (\<lambda>digest.
        Inr (digest, replicate (min 4 (length pass_phrase)) 0 @ drop 4 pass_phrase)))"

section \<open>What Crypto++ promises\<close>

text \<open>
  A hash has 32 bytes, whose encoding is one line of 44 characters; the alphabet of Base64 has
  neither the newline nor the underscore, and different hashes are encoded differently.  CBC
  with padding is inverted by the same key and vector.
\<close>

definition digests_work :: "('e, 'z) suite_scheme \<Rightarrow> bool" where
  "digests_work lib \<longleftrightarrow> (\<forall>m. length (sha256 lib m) = 32
     \<and> (\<exists>s. base64 lib (sha256 lib m) = s @ [newline] \<and> length s = 44
          \<and> newline \<notin> set s \<and> underscore \<notin> set s))
     \<and> inj_on (base64 lib) (range (sha256 lib))"

definition aes_works :: "('e, 'z) suite_scheme \<Rightarrow> bool" where
  "aes_works lib \<longleftrightarrow> (\<forall>key iv p. length key = 16 \<longrightarrow> length iv = 16 \<longrightarrow>
     (\<exists>c. aes_cbc_encrypt lib key iv p = Some c \<and> aes_cbc_decrypt lib key iv c = Some p))"

lemma digests_workE:
  assumes "digests_work lib"
  obtains s where "base64 lib (sha256 lib m) = s @ [newline]" "length s = 44" "newline \<notin> set s" "underscore \<notin> set s"
  using assms unfolding digests_work_def by blast

lemma length_sha256: "digests_work lib \<Longrightarrow> length (sha256 lib m) = 32"
  by (simp add: digests_work_def)

lemma length_fixed16 [simp]: "length (fixed16 s) = 16"
  by (simp add: fixed16_def min_def)

lemma fixed16_long: "16 \<le> length s \<Longrightarrow> fixed16 s = take 16 s"
  by (simp add: fixed16_def)

lemma message_digest_plain:
  "base64 lib (sha256 lib m) = s @ [newline] \<Longrightarrow> message_digest lib m False = Inr s"
  by (simp add: message_digest_def)

lemma message_digest_safe:
  "base64 lib (sha256 lib m) = s @ [newline]
    \<Longrightarrow> message_digest lib m True = Inr (map (\<lambda>c. if c = slash then underscore else c) s)"
  by (simp add: message_digest_def)

lemma message_digest_ok: "digests_work lib \<Longrightarrow> \<exists>d. message_digest lib m b = Inr d \<and> length d = 44"
  by (rule digests_workE [of lib m], assumption, cases b)
    (auto simp: message_digest_plain message_digest_safe)

lemma init_key_iv_ok:
  assumes "digests_work lib"
  obtains iv where "init_key_iv lib pw = Inr (fixed16 pw, iv)" "length iv = 16"
  using message_digest_ok [OF assms, of pw False] by (force simp: init_key_iv_def)

lemma decrypt_encrypt:
  assumes "digests_work lib" "aes_works lib"
  obtains c where "encrypt_cpp lib p pw = Inr c" "decrypt_cpp lib c pw = Inr p"
proof -
  obtain iv where iv: "init_key_iv lib pw = Inr (fixed16 pw, iv)" "length iv = 16"
    using init_key_iv_ok [OF assms(1)] .
  moreover have "length (fixed16 pw) = 16" by simp
  ultimately obtain c where "aes_cbc_encrypt lib (fixed16 pw) iv p = Some c"
    "aes_cbc_decrypt lib (fixed16 pw) iv c = Some p"
    using assms(2) unfolding aes_works_def by blast
  with iv show ?thesis by (intro that [of c]) (simp_all add: encrypt_cpp_def decrypt_cpp_def)
qed

lemma phrase_rounds: "(\<forall>m. length (sha256 lib m) = 32) \<Longrightarrow>
  length ((phrase_round lib ^^ n) p) = length p + 32 * n \<and> (\<exists>r. (phrase_round lib ^^ n) p = p @ r)"
  by (induction n) (auto simp: phrase_round_def Let_def)

lemma phrase_rounds_first:
  "\<exists>r. (phrase_round lib ^^ Suc n) p = p @ sha256 lib p @ r"
proof (induction n)
  case (Suc n)
  then obtain r where "(phrase_round lib ^^ Suc n) p = p @ sha256 lib p @ r" ..
  then have "(phrase_round lib ^^ Suc (Suc n)) p = phrase_round lib (p @ sha256 lib p @ r)"
    by (simp only: funpow.simps(2) o_apply)
  then have "(phrase_round lib ^^ Suc (Suc n)) p = p @ sha256 lib p @ (r @ sha256 lib (p @ sha256 lib p @ r))"
    by (simp only: phrase_round_def Let_def append_assoc)
  then show ?case ..
qed (simp add: phrase_round_def)

lemma slash_free: "slash \<notin> set (map (\<lambda>c. if c = slash then underscore else c) s)"
  by (auto split: if_splits)

lemma map_safe_inj:
  assumes "underscore \<notin> set s" "underscore \<notin> set t"
    "map (\<lambda>c. if c = slash then underscore else c) s = map (\<lambda>c. if c = slash then underscore else c) t"
  shows "s = t"
  using assms
proof (induction s arbitrary: t)
  case (Cons c s)
  then obtain d t' where "t = d # t'" by (cases t) auto
  with Cons show ?case by (simp split: if_splits)
qed simp

text \<open>What is left of the password: all but its first four characters.\<close>

lemma get_password_leaves_phrase:
  "get_password lib line = Inr (d, buf) \<Longrightarrow> drop 4 (read_phrase line) @ [0] = drop 4 buf"
  if "4 \<le> length (read_phrase line)"
  using that by (auto simp: get_password_def Let_def min_def elim!: try_bind_InrE)

lemma message_digest_name:
  assumes "digests_work lib"
  obtains d where "message_digest lib m True = Inr d" "length d = 44" "slash \<notin> set d" "newline \<notin> set d"
proof -
  obtain s where s: "base64 lib (sha256 lib m) = s @ [newline]" "length s = 44" "newline \<notin> set s"
    using digests_workE [OF assms] .
  show thesis
    by (rule that [OF message_digest_safe [OF s(1)]]) (use s slash_free [of s] in \<open>auto split: if_splits\<close>)
qed

lemma message_digest_eq_iff:
  assumes "digests_work lib"
  shows "message_digest lib m True = message_digest lib m' True \<longleftrightarrow> sha256 lib m = sha256 lib m'"
proof -
  obtain s where s: "base64 lib (sha256 lib m) = s @ [newline]" "underscore \<notin> set s"
    using digests_workE [OF assms] by metis
  obtain t where t: "base64 lib (sha256 lib m') = t @ [newline]" "underscore \<notin> set t"
    using digests_workE [OF assms] by metis
  have "s = t \<longleftrightarrow> sha256 lib m = sha256 lib m'"
    using assms s(1) t(1) unfolding digests_work_def by (metis append_same_eq inj_onD rangeI)
  then show ?thesis using map_safe_inj [OF s(2) t(2)] by (auto simp: message_digest_safe s(1) t(1))
qed

section \<open>Properties\<close>

text \<open>A digest made for the file system has 44 characters, none of them a slash or a newline, and two
  messages have the same one exactly when SHA-256 gives them the same hash: the file names of
  blocks collide only if their identifiers collide under the hash.\<close>

theorem message_digest_names_files:
  assumes "digests_work lib"
  shows "\<exists>d. message_digest lib m True = Inr d \<and> length d = 44 \<and> slash \<notin> set d \<and> newline \<notin> set d"
    and "message_digest lib m True = message_digest lib m' True \<longleftrightarrow> sha256 lib m = sha256 lib m'"
  using message_digest_name [OF assms, of m] message_digest_eq_iff [OF assms, of m m'] by metis+

lemma phrase_is_the_key_parts:
  assumes "digests_work lib"
  shows "length (phrase_to_key lib p) = length p + 1600"
    and "take (length p) (phrase_to_key lib p) = p"
    and "\<exists>iv. init_key_iv lib (phrase_to_key lib p) = Inr (take 16 (p @ sha256 lib p), iv)"
proof -
  have n: "length ((phrase_round lib ^^ 50) p) = length p + 32 * 50 \<and> (\<exists>r. (phrase_round lib ^^ 50) p = p @ r)"
    using phrase_rounds assms length_sha256 by blast
  then show "length (phrase_to_key lib p) = length p + 1600" by (simp add: phrase_to_key_def)
  show "take (length p) (phrase_to_key lib p) = p" using n by (auto simp: phrase_to_key_def)
  obtain r where r: "phrase_to_key lib p = p @ sha256 lib p @ r"
    using phrase_rounds_first [of 49 lib p] by (auto simp: phrase_to_key_def eval_nat_numeral)
  obtain iv where "init_key_iv lib (phrase_to_key lib p) = Inr (fixed16 (phrase_to_key lib p), iv)"
    using init_key_iv_ok [OF assms] .
  moreover have "fixed16 (phrase_to_key lib p) = take 16 (p @ sha256 lib p)"
    using length_sha256 [OF assms, of p] by (simp add: fixed16_long r)
  ultimately show "\<exists>iv. init_key_iv lib (phrase_to_key lib p) = Inr (take 16 (p @ sha256 lib p), iv)" by auto
qed

text \<open>C18. \<open>phrase_to_key\<close> appends where it means to replace: the key of a phrase is the phrase itself
  followed by fifty hashes, \<open>1600\<close> bytes longer.  The cipher therefore gets the first 16
  bytes of the passphrase as its key when it has that many, and otherwise the phrase completed with the
  first bytes of one hash of it; the fifty rounds do not reach the key.\<close>

theorem phrase_is_the_key:
  assumes "digests_work lib"
  shows "length (phrase_to_key lib p) = length p + 1600 \<and> take (length p) (phrase_to_key lib p) = p
    \<and> (\<exists>iv. init_key_iv lib (phrase_to_key lib p) = Inr (take 16 (p @ sha256 lib p), iv))"
  using phrase_is_the_key_parts [OF assms] by blast

section \<open>An instance\<close>

text \<open>
  A suite that keeps the promises: two hashes, an encoding that repeats a letter, a cipher
  that puts the key and the vector in front of the text, and a counter for randomness.
\<close>

definition toy_suite :: "nat suite" where
  "toy_suite = \<lparr>sha256 = \<lambda>m. replicate 32 (if m = [] then 0 else 1),
     base64 = \<lambda>d. replicate 44 (65 + hd d) @ [newline],
     aes_cbc_encrypt = \<lambda>key iv p. Some (key @ iv @ p),
     aes_cbc_decrypt = \<lambda>key iv c. if take 32 c = key @ iv then Some (drop 32 c) else None,
     rng = \<lambda>n e. (replicate n (of_nat e), e + 1)\<rparr>"

lemma toy_digests: "digests_work toy_suite"
  by (auto simp: digests_work_def toy_suite_def inj_on_def)

lemma toy_aes: "aes_works toy_suite"
  by (auto simp: aes_works_def toy_suite_def)

theorem message_digest_names_files_witness:
  "(\<exists>d. message_digest toy_suite [1] True = Inr d \<and> length d = 44 \<and> slash \<notin> set d \<and> newline \<notin> set d)
   \<and> message_digest toy_suite [1] True \<noteq> message_digest toy_suite [] True"
  using message_digest_names_files [OF toy_digests, of "[1]"] by (simp add: toy_suite_def)

theorem phrase_is_the_key_witness:
  "length (phrase_to_key toy_suite [7, 8]) = 1602
   \<and> (\<exists>iv. init_key_iv toy_suite (phrase_to_key toy_suite [7, 8]) = Inr ([7, 8] @ replicate 14 1, iv))"
proof -
  have "take 16 ([7, 8] @ sha256 toy_suite [7, 8]) = [7, 8] @ replicate 14 1" by (simp add: toy_suite_def)
  then show ?thesis using phrase_is_the_key [OF toy_digests, of "[7, 8]"] by simp
qed

end
