(* ===== verification/Cpp_Compress.thy ===== *)
theory Cpp_Compress
  imports Cpp_Mode
begin

text \<open>
  \<open>compress.cpp\<close>.  libbz2 is a pair of parameters: \<open>bz_compress s n\<close> and \<open>bz_decompress s n\<close> get the source and the
  size of the output buffer, and give a status and what they wrote.  Both functions of the
  library take the length of the source as an \<open>unsigned int\<close>, so that a longer string is
  cut.  \<open>decompress\<close> calls itself with twice the room as long as the library asks for more; it is
  \<open>None\<close> when it never returns.

  What is shown: decompression inverts compression, which includes that it returns; and that
  it does not return when no buffer of 32 bits is large enough, because the room wraps to 0,
  from which it starts again.
\<close>

datatype bz_status = BZ_OK | BZ_CONFIG_ERROR | BZ_PARAM_ERROR | BZ_MEM_ERROR | BZ_OUTBUFF_FULL
  | BZ_DATA_ERROR | BZ_DATA_ERROR_MAGIC | BZ_UNEXPECTED_EOF | BZ_OTHER

record bzip2 =
  bz_compress :: "byte list \<Rightarrow> u32 \<Rightarrow> bz_status \<times> byte list"
  bz_decompress :: "byte list \<Rightarrow> u32 \<Rightarrow> bz_status \<times> byte list"

definition source_of :: "byte list \<Rightarrow> byte list" where
  "source_of s = take (unat (of_nat (length s) :: u32)) s"

text \<open>
  \<open>n * 1.06 + 600.5\<close> in double precision, truncated.  The integer formula agrees with it for every size
  below \<open>2^32\<close>: the exact value is a multiple of 0.02, the error of the product is far
  smaller, and where the exact value is an integer the computed one is not below it, since the double
  nearest to 1.06 is above 1.06.  A result that an \<open>unsigned int\<close> cannot hold is undefined.
\<close>

definition output_max_size :: "nat \<Rightarrow> nat" where
  "output_max_size n = (106 * n + 60050) div 100"

definition compress :: "bzip2 \<Rightarrow> byte list \<Rightarrow> byte list outcome" where
  "compress lib in_buf = (if output_max_size (length in_buf) \<ge> 2 ^ 32 then Inl Undefined
     else case bz_compress lib (source_of in_buf) (of_nat (output_max_size (length in_buf))) of (st, out) \<Rightarrow>
       (case st of
          BZ_CONFIG_ERROR \<Rightarrow> Inl Runtime_error
        | BZ_PARAM_ERROR \<Rightarrow> Inl Invalid_argument
        | BZ_MEM_ERROR \<Rightarrow> Inl Length_error
        | BZ_OUTBUFF_FULL \<Rightarrow> Inl Length_error
        | BZ_OK \<Rightarrow> Inr out
        | _ \<Rightarrow> Inl Logic_error))"

definition first_room :: "byte list \<Rightarrow> u32 \<Rightarrow> u32" where
  "first_room in_buf hint = (if hint = 0 then of_nat (5 * length in_buf) else hint)"

partial_function (option) decompress :: "bzip2 \<Rightarrow> byte list \<Rightarrow> u32 \<Rightarrow> byte list outcome option" where
  "decompress lib in_buf hint =
     (case bz_decompress lib (source_of in_buf) (first_room in_buf hint) of (st, out) \<Rightarrow>
       (case st of
          BZ_CONFIG_ERROR \<Rightarrow> Some (Inl Runtime_error)
        | BZ_PARAM_ERROR \<Rightarrow> Some (Inl Invalid_argument)
        | BZ_MEM_ERROR \<Rightarrow> Some (Inl Length_error)
        | BZ_OUTBUFF_FULL \<Rightarrow> decompress lib in_buf (2 * first_room in_buf hint)
        | BZ_DATA_ERROR \<Rightarrow> Some (Inl Domain_error)
        | BZ_DATA_ERROR_MAGIC \<Rightarrow> Some (Inl Domain_error)
        | BZ_UNEXPECTED_EOF \<Rightarrow> Some (Inl Domain_error)
        | BZ_OK \<Rightarrow> Some (Inr out)
        | BZ_OTHER \<Rightarrow> Some (Inl Logic_error)))"

text \<open>
  What libbz2 promises: a buffer 1% larger than the source and 600 bytes more is enough to
  compress it; the result is not empty and fits the buffer; and decompressing it gives the source when the
  buffer is large enough and asks for a larger one otherwise.
\<close>

definition bz_works :: "bzip2 \<Rightarrow> bool" where
  "bz_works lib \<longleftrightarrow> (\<forall>s n. 101 * length s + 60000 \<le> 100 * (unat n + 1) \<longrightarrow>
     (\<exists>c. bz_compress lib s n = (BZ_OK, c) \<and> c \<noteq> [] \<and> length c \<le> unat n
        \<and> (\<forall>room. length s \<le> unat room \<longrightarrow> bz_decompress lib c room = (BZ_OK, s))
        \<and> (\<forall>room. unat room < length s \<longrightarrow> fst (bz_decompress lib c room) = BZ_OUTBUFF_FULL)))"

lemma source_of_short [simp]: "length s < 2 ^ 32 \<Longrightarrow> source_of s = s"
  by (simp add: source_of_def unat_of_nat take_bit_eq_mod)

lemma output_max_size_enough: "101 * n + 60000 \<le> 100 * (output_max_size n + 1)"
proof -
  have "106 * n + 60050 < 100 * ((106 * n + 60050) div 100 + 1)"
    using dividend_less_div_times [of 100 "106 * n + 60050"] by (simp add: mult.commute)
  then show ?thesis by (simp add: output_max_size_def)
qed

lemma decompress_more_room:
  "fst (bz_decompress lib (source_of s) (first_room s hint)) = BZ_OUTBUFF_FULL
    \<Longrightarrow> decompress lib s hint = decompress lib s (2 * first_room s hint)"
  by (subst decompress.simps) (auto split: prod.split)

lemma decompress_enough_room:
  "bz_decompress lib (source_of s) (first_room s hint) = (BZ_OK, out)
    \<Longrightarrow> decompress lib s hint = Some (Inr out)"
  by (subst decompress.simps) simp

lemma unat_double: "unat (w :: u32) < 2147483648 \<Longrightarrow> unat (2 * w) = 2 * unat w"
  by (simp add: unat_word_ariths)

lemma decompress_doubles:
  assumes "length c < 2 ^ 32" "length s < 2147483648"
    and ok: "\<And>room. length s \<le> unat room \<Longrightarrow> bz_decompress lib c room = (BZ_OK, s)"
    and full: "\<And>room. unat room < length s \<Longrightarrow> fst (bz_decompress lib c room) = BZ_OUTBUFF_FULL"
  shows "first_room c hint \<noteq> 0 \<Longrightarrow> decompress lib c hint = Some (Inr s)"
proof (induction "length s - unat (first_room c hint)" arbitrary: hint rule: less_induct)
  case less
  let ?r = "first_room c hint"
  show ?case
  proof (cases "length s \<le> unat ?r")
    case True
    then show ?thesis using ok assms(1) by (intro decompress_enough_room) simp
  next
    case False
    then have u: "unat (2 * ?r) = 2 * unat ?r" using assms(2) by (intro unat_double) simp
    have pos: "0 < unat ?r" using less.prems by (simp add: unat_gt_0)
    have nz: "2 * ?r \<noteq> 0" using u pos by (metis mult_pos_pos unat_0 less_irrefl zero_less_numeral)
    then have r: "first_room c (2 * ?r) = 2 * ?r" by (simp add: first_room_def)
    have "decompress lib c (2 * ?r) = Some (Inr s)"
      by (rule less.hyps) (use False u pos nz r in auto)
    then show ?thesis using full False assms(1) decompress_more_room [of lib c hint] by simp
  qed
qed

lemma first_room_of: "c \<noteq> [] \<Longrightarrow> length c < 2 ^ 32 \<Longrightarrow> first_room c 0 \<noteq> 0"
proof
  assume c: "c \<noteq> []" "length c < 2 ^ 32" and z: "first_room c 0 = 0"
  have "(2 :: nat) ^ 32 dvd 5 * length c"
    using z word_of_nat_eq_0_iff [of "5 * length c", where 'a = 32] by (simp add: first_room_def)
  moreover have "coprime ((2 :: nat) ^ 32) 5" by (simp only: coprime_power_left_iff) (simp add: coprime_iff_gcd_eq_1 gcd_non_0_nat)
  ultimately have "(2 :: nat) ^ 32 dvd length c"
    using coprime_dvd_mult_right_iff by blast
  with c show False by (auto dest: dvd_imp_le)
qed

lemma decompress_compress:
  assumes "bz_works lib" "length s < 2147483648"
  obtains c where "compress lib s = Inr c" "decompress lib c 0 = Some (Inr s)"
proof -
  have m: "output_max_size (length s) < 2 ^ 32" using assms(2) by (simp add: output_max_size_def)
  then have u: "unat (of_nat (output_max_size (length s)) :: u32) = output_max_size (length s)"
    by (simp add: unat_of_nat take_bit_eq_mod)
  obtain c where c: "bz_compress lib s (of_nat (output_max_size (length s))) = (BZ_OK, c)"
    "c \<noteq> []" "length c \<le> output_max_size (length s)"
    "\<And>room. length s \<le> unat room \<Longrightarrow> bz_decompress lib c room = (BZ_OK, s)"
    "\<And>room. unat room < length s \<Longrightarrow> fst (bz_decompress lib c room) = BZ_OUTBUFF_FULL"
    using assms(1) output_max_size_enough [of "length s"] u unfolding bz_works_def by metis
  have "decompress lib c 0 = Some (Inr s)"
    using c m assms(2) by (intro decompress_doubles first_room_of) auto
  moreover have "compress lib s = Inr c" using c m assms(2) by (simp add: compress_def)
  ultimately show ?thesis by (rule that [rotated])
qed

text \<open>
  A set of guesses of which none is enough and whose successors stay in it.
\<close>

lemma decompress_returned:
  "decompress lib s hint = Some r \<Longrightarrow>
     (\<forall>h\<in>H. fst (bz_decompress lib (source_of s) (first_room s h)) = BZ_OUTBUFF_FULL \<and> 2 * first_room s h \<in> H)
       \<longrightarrow> hint \<notin> H"
proof (erule decompress.raw_induct [rotated], intro impI notI)
  fix rec lib s hint r
  assume IH: "\<And>lib s hint r. rec lib s hint = Some r \<Longrightarrow>
      (\<forall>h\<in>H. fst (bz_decompress lib (source_of s) (first_room s h)) = BZ_OUTBUFF_FULL \<and> 2 * first_room s h \<in> H)
        \<longrightarrow> hint \<notin> H"
    and eq: "(case bz_decompress lib (source_of s) (first_room s hint) of (st, out) \<Rightarrow>
       (case st of
          BZ_CONFIG_ERROR \<Rightarrow> Some (Inl Runtime_error)
        | BZ_PARAM_ERROR \<Rightarrow> Some (Inl Invalid_argument)
        | BZ_MEM_ERROR \<Rightarrow> Some (Inl Length_error)
        | BZ_OUTBUFF_FULL \<Rightarrow> rec lib s (2 * first_room s hint)
        | BZ_DATA_ERROR \<Rightarrow> Some (Inl Domain_error)
        | BZ_DATA_ERROR_MAGIC \<Rightarrow> Some (Inl Domain_error)
        | BZ_UNEXPECTED_EOF \<Rightarrow> Some (Inl Domain_error)
        | BZ_OK \<Rightarrow> Some (Inr out)
        | BZ_OTHER \<Rightarrow> Some (Inl Logic_error))) = Some r"
    and H: "\<forall>h\<in>H. fst (bz_decompress lib (source_of s) (first_room s h)) = BZ_OUTBUFF_FULL \<and> 2 * first_room s h \<in> H"
    and "hint \<in> H"
  then obtain out where "bz_decompress lib (source_of s) (first_room s hint) = (BZ_OUTBUFF_FULL, out)"
    by (metis prod.collapse)
  with eq have "rec lib s (2 * first_room s hint) = Some r" by simp
  with IH H \<open>hint \<in> H\<close> show False by blast
qed

lemma decompress_stuck:
  assumes "\<And>h. h \<in> H \<Longrightarrow> fst (bz_decompress lib (source_of s) (first_room s h)) = BZ_OUTBUFF_FULL"
    and "\<And>h. h \<in> H \<Longrightarrow> 2 * first_room s h \<in> H" and "hint \<in> H"
  shows "decompress lib s hint = None"
  using decompress_returned [of lib s hint _ H] assms by (cases "decompress lib s hint") auto

section \<open>Properties\<close>

lemma decompress_never_gives_up_parts:
  "(\<forall>room. fst (bz_decompress lib (source_of s) room) = BZ_OUTBUFF_FULL) \<Longrightarrow> decompress lib s hint = None"
  "fst (bz_decompress lib [] 0) = BZ_OUTBUFF_FULL \<Longrightarrow> decompress lib [] 0 = None"
  by (rule decompress_stuck [where H = UNIV], simp_all)
    (rule decompress_stuck [where H = "{0}"], simp_all add: first_room_def source_of_def)

text \<open>C34. A string that does not fit any buffer whose size is an \<open>unsigned int\<close>, so that the library always asks for
  more room, is not reported as an error: the room doubles until it wraps to 0, which stands for the
  first guess, and \<open>decompress\<close> calls itself for ever.  So it does for data for which the
  library is not content with the empty buffer that an empty string gets.\<close>

theorem decompress_never_gives_up:
  "((\<forall>room. fst (bz_decompress lib (source_of s) room) = BZ_OUTBUFF_FULL) \<longrightarrow> decompress lib s hint = None)
   \<and> (fst (bz_decompress lib [] 0) = BZ_OUTBUFF_FULL \<longrightarrow> decompress lib [] 0 = None)"
  using decompress_never_gives_up_parts by blast

definition bz_toy :: bzip2 where
  "bz_toy = \<lparr>bz_compress = (\<lambda>s n. (BZ_OK, 0 # s)),
     bz_decompress = (\<lambda>c room. if length (tl c) \<le> unat room \<and> c \<noteq> [] then (BZ_OK, tl c) else (BZ_OUTBUFF_FULL, []))\<rparr>"

lemma bz_toy_works: "bz_works bz_toy"
  by (auto simp: bz_works_def bz_toy_def)

theorem decompress_never_gives_up_witness:
  "decompress \<lparr>bz_compress = bz_compress bz_toy, bz_decompress = \<lambda>c room. (BZ_OUTBUFF_FULL, [])\<rparr> [1, 2] 0 = None
   \<and> decompress bz_toy [] 0 = None"
proof
  show "decompress \<lparr>bz_compress = bz_compress bz_toy, bz_decompress = \<lambda>c room. (BZ_OUTBUFF_FULL, [])\<rparr> [1, 2] 0 = None"
    by (rule decompress_never_gives_up [THEN conjunct1, THEN mp]) simp
  show "decompress bz_toy [] 0 = None"
    by (rule decompress_never_gives_up [THEN conjunct2, THEN mp]) (simp add: bz_toy_def)
qed

end
