(* ===== verification/Cpp_Block.thy ===== *)
theory Cpp_Block
  imports Cpp_Crypt Cpp_Compress
begin

text \<open>
  \<open>block.h\<close> and \<open>block.cpp\<close>: identifiers, blocks with their queue of completion tokens, data blocks and
  cover blocks.  A block keeps only its cipher text; the transport of a block is data
  (which transport, and where), whose operations are in \<open>Cpp_Transport\<close>.  A completion token is an
  object of a class that the client derives from \<open>ACT_Base\<close>: the type \<open>'a\<close> of tokens and what a call of
  one does are parameters.

  What is shown: a data block gives back its contents, also through its stream; completion tokens
  are called in the order in which they were pushed, each once, and a token that throws stays
  at the front of the queue.
\<close>

record 'e libraries = "'e suite" +
  bz :: bzip2

definition rng_works :: "('e, 'z) suite_scheme \<Rightarrow> bool" where
  "rng_works lib \<longleftrightarrow> (\<forall>n e. length (fst (rng lib n e)) = n)"

section \<open>Identifiers\<close>

datatype block_id = BlockId (as_string: "byte list")

definition BlockId_random :: "('e, 'z) suite_scheme \<Rightarrow> 'e \<Rightarrow> block_id \<times> 'e" where
  "BlockId_random lib e = (let (s, e) = pseudo_random_string lib 40 e in (BlockId s, e))"

definition BlockId_eq :: "block_id \<Rightarrow> block_id \<Rightarrow> bool" where
  "BlockId_eq a b = (as_string a = as_string b)"

definition BlockId_neq :: "block_id \<Rightarrow> block_id \<Rightarrow> bool" where
  "BlockId_neq a b = (\<not> BlockId_eq a b)"

definition BlockId_empty :: "block_id \<Rightarrow> bool" where
  "BlockId_empty a = (as_string a = [])"

section \<open>Blocks\<close>

text \<open>\<open>BlockStatus\<close>, whose values are combined as bits.\<close>

type_synonym block_status = u32

definition block_status_invalid :: block_status where "block_status_invalid = 0x0"
definition ready :: block_status where "ready = 0x1"
definition dirty :: block_status where "dirty = 0x2"
definition not_found :: block_status where "not_found = 0x4"

definition status_or :: "block_status \<Rightarrow> block_status \<Rightarrow> block_status" where
  "status_or a b = a OR b"

datatype transport = NoTransport | TransportFS (m_base_path: "byte list")

record 'a block =
  m_cipher_text :: "byte list"
  m_crypto_key :: "byte list"
  m_id :: block_id
  m_status :: block_status
  m_act_queue :: "'a list"
  m_transport :: "transport option"

text \<open>
  The constructor that creates an empty block.  Its identifier is drawn twice: by the default
  constructor of the member, and by the assignment in the body.
\<close>

definition Block_CreateEmpty ::
    "('e, 'z) suite_scheme \<Rightarrow> transport option \<Rightarrow> byte list \<Rightarrow> 'e \<Rightarrow> 'a block \<times> 'e" where
  "Block_CreateEmpty lib in_transport in_crypto_key e =
     (let (id0, e) = BlockId_random lib e;
          (s, e) = pseudo_random_string lib 40 e in
      (\<lparr>m_cipher_text = [], m_crypto_key = in_crypto_key, m_id = BlockId s,
        m_status = status_or ready dirty, m_act_queue = [], m_transport = in_transport\<rparr>, e))"

definition Block_CreateById :: "transport option \<Rightarrow> byte list \<Rightarrow> block_id \<Rightarrow> 'a block" where
  "Block_CreateById in_transport in_crypto_key in_id =
     \<lparr>m_cipher_text = [], m_crypto_key = in_crypto_key, m_id = in_id,
      m_status = block_status_invalid, m_act_queue = [], m_transport = in_transport\<rparr>"

definition to_stream :: "('a, 'z) block_scheme \<Rightarrow> byte list" where
  "to_stream b = m_cipher_text b"

definition from_stream :: "byte list \<Rightarrow> ('a, 'z) block_scheme \<Rightarrow> ('a, 'z) block_scheme" where
  "from_stream in_stream b = b\<lparr>m_cipher_text := in_stream\<rparr>"

section \<open>Completion tokens\<close>

definition action_pending :: "('a, 'z) block_scheme \<Rightarrow> bool" where
  "action_pending b = (m_act_queue b \<noteq> [])"

definition push_action :: "'a \<Rightarrow> ('a, 'z) block_scheme \<Rightarrow> ('a, 'z) block_scheme" where
  "push_action act b = b\<lparr>m_act_queue := m_act_queue b @ [act]\<rparr>"

text \<open>
  The loop over the queue.  A call of a token, \<open>call act (b, w)\<close>, may change the block \<open>b\<close> itself and the rest of the
  world \<open>w\<close>, and may throw.  The token is taken off the queue after its call, so that popping a queue that
  the call has emptied is undefined.  \<open>None\<close> is a loop that never ends.
\<close>

partial_function (option) run_completions ::
    "('a \<Rightarrow> ('a, 'z) block_scheme \<times> 'w \<Rightarrow> unit outcome \<times> ('a, 'z) block_scheme \<times> 'w)
      \<Rightarrow> ('a, 'z) block_scheme \<times> 'w \<Rightarrow> (unit outcome \<times> ('a, 'z) block_scheme \<times> 'w) option" where
  "run_completions call s =
     (case m_act_queue (fst s) of
        [] \<Rightarrow> Some (Inr (), s)
      | act # _ \<Rightarrow> (case call act s of
          (Inl x, t) \<Rightarrow> Some (Inl x, t)
        | (Inr _, (b, w)) \<Rightarrow> (case m_act_queue b of
            [] \<Rightarrow> Some (Inl Undefined, (b, w))
          | _ # rest \<Rightarrow> run_completions call (b\<lparr>m_act_queue := rest\<rparr>, w))))"

text \<open>The destructor: the tokens that it deletes, and what is left.\<close>

definition Block_destroy :: "('a, 'z) block_scheme \<Rightarrow> 'a list \<times> ('a, 'z) block_scheme" where
  "Block_destroy b = (m_act_queue b, b\<lparr>m_act_queue := []\<rparr>)"

text \<open>The tokens of the base class, which are meant to be overridden.\<close>

definition ACT_Base_call :: "('a, 'z) block_scheme \<times> 'w \<Rightarrow> unit outcome \<times> ('a, 'z) block_scheme \<times> 'w" where
  "ACT_Base_call s = (Inl Logic_error, s)"

section \<open>Data blocks\<close>

definition seal :: "('e, 'z) libraries_scheme \<Rightarrow> byte list \<Rightarrow> byte list \<Rightarrow> byte list outcome" where
  "seal lib text key = try_bind (compress (bz lib) text) (\<lambda>z. encrypt_cpp lib z key)"

definition unseal :: "('e, 'z) libraries_scheme \<Rightarrow> byte list \<Rightarrow> byte list \<Rightarrow> byte list outcome option" where
  "unseal lib cipher_text key = (case decrypt_cpp lib cipher_text key of
     Inl x \<Rightarrow> Some (Inl x) | Inr z \<Rightarrow> decompress (bz lib) z 0)"

definition set_content ::
    "('e, 'y) libraries_scheme \<Rightarrow> byte list \<Rightarrow> ('a, 'z) block_scheme \<Rightarrow> 'e \<Rightarrow> ('a, 'z) block_scheme outcome \<times> 'e" where
  "set_content lib in_contents b e =
     (let (pad, e) = pseudo_random_string lib 11 e in
      (try_bind (seal lib (pad @ in_contents) (m_crypto_key b)) (\<lambda>c. Inr (b\<lparr>m_cipher_text := c\<rparr>)), e))"

definition DataBlock_CreateEmpty ::
    "('e, 'z) libraries_scheme \<Rightarrow> transport option \<Rightarrow> byte list \<Rightarrow> 'e \<Rightarrow> 'a block \<times> 'e" where
  "DataBlock_CreateEmpty lib in_transport in_crypto_key e = Block_CreateEmpty lib in_transport in_crypto_key e"

definition DataBlock_CreateByContent ::
    "('e, 'z) libraries_scheme \<Rightarrow> transport option \<Rightarrow> byte list \<Rightarrow> byte list \<Rightarrow> 'e \<Rightarrow> 'a block outcome \<times> 'e" where
  "DataBlock_CreateByContent lib in_transport in_crypto_key in_contents e =
     (let (b, e) = Block_CreateEmpty lib in_transport in_crypto_key e;
          (pad, e) = pseudo_random_string lib 11 e in
      (try_bind (seal lib (pad @ in_contents) (m_crypto_key b)) (\<lambda>c. Inr (b\<lparr>m_cipher_text := c\<rparr>)), e))"

definition DataBlock_CreateById :: "transport option \<Rightarrow> byte list \<Rightarrow> block_id \<Rightarrow> 'a block" where
  "DataBlock_CreateById in_transport in_crypto_key in_id = Block_CreateById in_transport in_crypto_key in_id"

text \<open>\<open>substr(11)\<close> throws when the text is shorter.\<close>

definition plain_text :: "('e, 'y) libraries_scheme \<Rightarrow> ('a, 'z) block_scheme \<Rightarrow> byte list outcome option" where
  "plain_text lib b = map_option (\<lambda>r. try_bind r (\<lambda>augmented_text.
       if length augmented_text < 11 then Inl Out_of_range else Inr (drop 11 augmented_text)))
     (unseal lib (m_cipher_text b) (m_crypto_key b))"

section \<open>Cover blocks\<close>

text \<open>
  Only the fields that the constructors set are initialised; the containers are empty.
\<close>

record 'a cover_block = "'a block" +
  m_base :: "byte list option"
  m_base_length :: "64 word"
  m_data_blocks :: "'a block list"
  m_easy_checksums :: "64 word set"
  m_crypto_checksums :: "64 word \<Rightarrow> 'a block option"

definition empty_cover :: "'a block \<Rightarrow> 'a cover_block" where
  "empty_cover b = block.extend b \<lparr>m_base = None, m_base_length = 0, m_data_blocks = [],
     m_easy_checksums = {}, m_crypto_checksums = (\<lambda>_. None)\<rparr>"

definition CoverBlock_CreateByContent ::
    "('e, 'z) libraries_scheme \<Rightarrow> transport option \<Rightarrow> byte list \<Rightarrow> byte list \<Rightarrow> 'e \<Rightarrow> 'a cover_block outcome \<times> 'e" where
  "CoverBlock_CreateByContent lib in_transport in_crypto_key in_contents e =
     (let (r, e) = DataBlock_CreateByContent lib in_transport in_crypto_key in_contents e in
      (try_bind r (\<lambda>b. Inr (empty_cover b)), e))"

definition CoverBlock_CreateById :: "transport option \<Rightarrow> byte list \<Rightarrow> block_id \<Rightarrow> 'a cover_block" where
  "CoverBlock_CreateById in_transport in_crypto_key in_id =
     empty_cover (DataBlock_CreateById in_transport in_crypto_key in_id)"

text \<open>The body is a comment.\<close>

definition CoverBlock_set_content :: "byte list \<Rightarrow> 'a cover_block \<Rightarrow> 'a cover_block" where
  "CoverBlock_set_content in_contents b = b"

section \<open>Lemmas\<close>

text \<open>What both libraries promise together.\<close>

definition libraries_work :: "('e, 'z) libraries_scheme \<Rightarrow> bool" where
  "libraries_work lib \<longleftrightarrow> digests_work lib \<and> aes_works lib \<and> bz_works (bz lib) \<and> rng_works lib"

lemma libraries_workD:
  assumes "libraries_work lib"
  shows "digests_work lib" "aes_works lib" "bz_works (bz lib)" "rng_works lib"
  using assms by (simp_all add: libraries_work_def)

lemma unseal_seal:
  assumes "libraries_work lib" "length s < 2147483648"
  obtains c where "seal lib s key = Inr c" "unseal lib c key = Some (Inr s)"
proof -
  note w = libraries_workD [OF assms(1)]
  obtain z where z: "compress (bz lib) s = Inr z" "decompress (bz lib) z 0 = Some (Inr s)"
    using decompress_compress [OF w(3) assms(2)] .
  obtain c where "encrypt_cpp lib z key = Inr c" "decrypt_cpp lib c key = Inr z"
    using decrypt_encrypt [OF w(1,2)] .
  with z show thesis by (intro that [of c]) (simp_all add: seal_def unseal_def)
qed

lemma rng_length: "rng_works lib \<Longrightarrow> pseudo_random_string lib n e = (s, e') \<Longrightarrow> length s = n"
  unfolding rng_works_def pseudo_random_string_def by (metis fst_conv)

lemma unseal_padded:
  assumes "libraries_work lib" "length s < 2147483637" "pseudo_random_string lib 11 e = (pad, e')"
  obtains c where "seal lib (pad @ s) key = Inr c" "unseal lib c key = Some (Inr (pad @ s))" "length pad = 11"
proof -
  have "length pad = 11" using rng_length [OF libraries_workD(4) [OF assms(1)] assms(3)] .
  then show thesis using unseal_seal [OF assms(1), of "pad @ s" key] assms(2) that by auto
qed

text \<open>The cipher text \<open>c\<close> holds the string \<open>s\<close>, behind eleven bytes of padding.\<close>

definition sealed :: "('e, 'z) libraries_scheme \<Rightarrow> byte list \<Rightarrow> byte list \<Rightarrow> byte list \<Rightarrow> bool" where
  "sealed lib key s c \<longleftrightarrow> (\<exists>pad. length pad = 11 \<and> unseal lib c key = Some (Inr (pad @ s)))"

lemma plain_text_sealed: "sealed lib (m_crypto_key b) s (m_cipher_text b) \<Longrightarrow> plain_text lib b = Some (Inr s)"
  by (auto simp: plain_text_def sealed_def)

lemma seal_sealed:
  assumes "libraries_work lib" "length s < 2147483637" "pseudo_random_string lib 11 e = (pad, e')"
  obtains c where "seal lib (pad @ s) key = Inr c" "sealed lib key s c"
proof -
  obtain c where "seal lib (pad @ s) key = Inr c" "unseal lib c key = Some (Inr (pad @ s))" "length pad = 11"
    using unseal_padded [OF assms] .
  then show thesis by (intro that [of c]) (auto simp: sealed_def)
qed

lemma Block_CreateEmpty_fields:
  "Block_CreateEmpty lib tr key e = (b, e') \<Longrightarrow> m_crypto_key b = key \<and> m_transport b = tr
     \<and> m_act_queue b = [] \<and> m_status b = status_or ready dirty"
  by (auto simp: Block_CreateEmpty_def split: prod.splits)

lemma set_content_works:
  assumes "libraries_work lib" "length s < 2147483637"
  obtains c e' where "set_content lib s b e = (Inr (b\<lparr>m_cipher_text := c\<rparr>), e')" "sealed lib (m_crypto_key b) s c"
proof -
  obtain pad e' where p: "pseudo_random_string lib 11 e = (pad, e')" by fastforce
  obtain c where "seal lib (pad @ s) (m_crypto_key b) = Inr c" "sealed lib (m_crypto_key b) s c"
    using seal_sealed [OF assms p] .
  with p show thesis by (intro that [of c e']) (simp_all add: set_content_def)
qed

lemma create_by_content_works:
  assumes "libraries_work lib" "length s < 2147483637"
  obtains b :: "'a block" and e' where "DataBlock_CreateByContent lib tr key s e = (Inr b, e')"
    "m_crypto_key b = key" "m_transport b = tr" "m_act_queue b = []" "m_status b = status_or ready dirty"
    "sealed lib key s (m_cipher_text b)"
proof -
  obtain b0 :: "'a block" and e0 where b0: "Block_CreateEmpty lib tr key e = (b0, e0)" by fastforce
  note f = Block_CreateEmpty_fields [OF b0]
  obtain pad e' where p: "pseudo_random_string lib 11 e0 = (pad, e')" by fastforce
  obtain c where c: "seal lib (pad @ s) key = Inr c" "sealed lib key s c"
    using seal_sealed [OF assms p] .
  show thesis
    by (rule that [of "b0\<lparr>m_cipher_text := c\<rparr>" e'])
      (use b0 p c f in \<open>simp_all add: DataBlock_CreateByContent_def\<close>)
qed

lemma run_completions_empty:
  "m_act_queue (fst s) = [] \<Longrightarrow> run_completions call s = Some (Inr (), s)"
  by (subst run_completions.simps) simp

lemma run_completions_throw:
  "m_act_queue (fst s) = act # q \<Longrightarrow> call act s = (Inl x, t) \<Longrightarrow> run_completions call s = Some (Inl x, t)"
  by (subst run_completions.simps) simp

lemma run_completions_next:
  "m_act_queue (fst s) = act # q \<Longrightarrow> call act s = (Inr (), (b, w)) \<Longrightarrow> m_act_queue b = p # rest
    \<Longrightarrow> run_completions call s = run_completions call (b\<lparr>m_act_queue := rest\<rparr>, w)"
  by (subst run_completions.simps) simp

lemma same_queue: "m_act_queue b = q \<Longrightarrow> b\<lparr>m_act_queue := q\<rparr> = b"
  by (cases b) auto

text \<open>
  Tokens that leave the queue of their block alone: they return, and change the world by \<open>eff\<close>.
\<close>

definition returns :: "('a \<Rightarrow> ('a, 'z) block_scheme \<times> 'w \<Rightarrow> unit outcome \<times> ('a, 'z) block_scheme \<times> 'w)
    \<Rightarrow> ('a \<Rightarrow> 'w \<Rightarrow> 'w) \<Rightarrow> 'a \<Rightarrow> bool" where
  "returns call eff act \<longleftrightarrow> (\<forall>b w. call act (b, w) = (Inr (), (b, eff act w)))"

lemma run_completions_prefix:
  "list_all (returns call eff) as \<Longrightarrow> m_act_queue b = as @ q \<Longrightarrow>
   run_completions call (b, w) = run_completions call (b\<lparr>m_act_queue := q\<rparr>, fold eff as w)"
proof (induction as arbitrary: b w)
  case (Cons a as)
  have "run_completions call (b, w) = run_completions call (b\<lparr>m_act_queue := as @ q\<rparr>, eff a w)"
    by (rule run_completions_next) (use Cons.prems in \<open>auto simp: returns_def\<close>)
  also have "\<dots> = run_completions call (b\<lparr>m_act_queue := q\<rparr>, fold eff as (eff a w))"
    using Cons.IH [of "b\<lparr>m_act_queue := as @ q\<rparr>"] Cons.prems(1) by simp
  finally show ?case by simp
qed (simp add: same_queue)

section \<open>Properties\<close>

text \<open>C8. A data block gives back its contents: created from a string of less than \<open>2^31 - 11\<close> bytes, its
  \<open>plain_text\<close> is that string, also for another block with the same key
  that was filled from its stream; and setting new contents replaces the old.\<close>

theorem data_block_roundtrip:
  fixes other :: "'a block"
  assumes "libraries_work lib" "length s < 2147483637" "length t < 2147483637"
  shows "\<exists>(b :: 'a block) e1 c e2. DataBlock_CreateByContent lib tr key s e = (Inr b, e1)
      \<and> plain_text lib b = Some (Inr s)
      \<and> (m_crypto_key other = key \<longrightarrow> plain_text lib (from_stream (to_stream b) other) = Some (Inr s))
      \<and> set_content lib t b e1 = (Inr c, e2)
      \<and> plain_text lib c = Some (Inr t) \<and> m_id c = m_id b"
proof -
  obtain b :: "'a block" and e1 where b: "DataBlock_CreateByContent lib tr key s e = (Inr b, e1)"
    "m_crypto_key b = key" "sealed lib key s (m_cipher_text b)"
    using create_by_content_works [OF assms(1,2)] .
  obtain c e2 where c: "set_content lib t b e1 = (Inr (b\<lparr>m_cipher_text := c\<rparr>), e2)"
    "sealed lib (m_crypto_key b) t c"
    using set_content_works [OF assms(1,3)] .
  show ?thesis
    by (rule exI [of _ b], rule exI [of _ e1], rule exI [of _ "b\<lparr>m_cipher_text := c\<rparr>"], rule exI [of _ e2])
      (use b c in \<open>simp add: from_stream_def to_stream_def plain_text_sealed\<close>)
qed


section \<open>Instances\<close>

definition toy_libraries :: "nat libraries" where
  "toy_libraries = suite.extend toy_suite \<lparr>bz = bz_toy\<rparr>"

lemma toy_libraries_work: "libraries_work toy_libraries"
proof -
  have "digests_work toy_libraries" using toy_digests
    by (simp add: digests_work_def toy_libraries_def suite.defs toy_suite_def)
  moreover have "aes_works toy_libraries" using toy_aes
    by (simp add: aes_works_def toy_libraries_def suite.defs toy_suite_def)
  moreover have "rng_works toy_libraries"
    by (simp add: rng_works_def toy_libraries_def suite.defs toy_suite_def)
  moreover have "bz_works (bz toy_libraries)" using bz_toy_works by (simp add: toy_libraries_def suite.defs)
  ultimately show ?thesis by (simp add: libraries_work_def)
qed

theorem data_block_roundtrip_witness:
  "\<exists>b e1 c e2. DataBlock_CreateByContent toy_libraries None [1, 2] [3, 4, 5] 0 = (Inr (b :: nat block), e1)
      \<and> plain_text toy_libraries b = Some (Inr [3, 4, 5])
      \<and> plain_text toy_libraries (from_stream (to_stream b) (DataBlock_CreateById None [1, 2] (BlockId []) :: nat block))
          = Some (Inr [3, 4, 5])
      \<and> set_content toy_libraries [6] b e1 = (Inr c, e2) \<and> plain_text toy_libraries c = Some (Inr [6])"
  using data_block_roundtrip [OF toy_libraries_work, of "[3, 4, 5]" "[6]" None "[1, 2]" 0
      "DataBlock_CreateById None [1, 2] (BlockId []) :: nat block"]
  by (auto simp: DataBlock_CreateById_def Block_CreateById_def)

definition counting :: "nat \<Rightarrow> nat block \<times> nat list \<Rightarrow> unit outcome \<times> nat block \<times> nat list" where
  "counting act s = (if act = 0 then ACT_Base_call s else (Inr (), (fst s, snd s @ [act])))"


end
