(* ===== verification/Cpp_Transport.thy ===== *)
theory Cpp_Transport
  imports Cpp_Block
begin

text \<open>
  \<open>transport.h\<close> and \<open>transport.cpp\<close>: where blocks are kept.  \<open>NoTransport\<close> does nothing; \<open>TransportFS\<close> keeps each block in a
  file whose name is the base path followed by the digest of its identifier.

  The disk maps literal path names to contents; directories are known by names that
  end in a slash, and the empty name is the current directory.  \<open>d_room\<close> is how many bytes the disk still takes
  (\<open>None\<close>: as many as come), \<open>d_buffer\<close> the size from which the output stream of the library gives a write to the system at once;
  a smaller one stays in the buffer of the stream until \<open>close\<close>, whose failure nothing reports.

  What is shown: the locale \<open>block_transport\<close> states what a transport owes to blocks, and what
  follows for a series of writes; \<open>TransportFS\<close> is an instance, so that a block that was written
  is recovered from its identifier and its key alone.
\<close>

section \<open>The disk\<close>

record disk =
  d_files :: "byte list \<Rightarrow> byte list option"
  d_dirs :: "byte list set"
  d_room :: "nat option"
  d_buffer :: nat

text \<open>The part of a name up to its last slash.\<close>

definition dir_part :: "byte list \<Rightarrow> byte list" where
  "dir_part name = rev (dropWhile (\<lambda>c. c \<noteq> slash) (rev name))"

definition dir_exists :: "disk \<Rightarrow> byte list \<Rightarrow> bool" where
  "dir_exists d p = (p = [] \<or> p \<in> d_dirs d)"

datatype mkdir_errno = EEXIST | ENOENT

definition mkdir_cpp :: "byte list \<Rightarrow> disk \<Rightarrow> mkdir_errno option \<times> disk" where
  "mkdir_cpp path d = (if path \<in> d_dirs d \<or> d_files d (butlast path) \<noteq> None then (Some EEXIST, d)
     else if \<not> dir_exists d (dir_part (butlast path)) then (Some ENOENT, d)
     else (None, d\<lparr>d_dirs := insert path (d_dirs d)\<rparr>))"

definition can_open_to_write :: "disk \<Rightarrow> byte list \<Rightarrow> bool" where
  "can_open_to_write d name = (dir_exists d (dir_part name) \<and> name @ [slash] \<notin> d_dirs d)"

text \<open>
  \<open>throw_system_error\<close> of \<open>system.cpp\<close> prints what \<open>errno\<close> says and throws its label.
\<close>

definition throw_system_error :: "string \<Rightarrow> 'a outcome" where
  "throw_system_error label = Inl (Thrown_string label)"

text \<open>
  The system gives a file the bytes there is room for; a write that is cut short fails.
\<close>

definition append_bytes :: "byte list \<Rightarrow> byte list \<Rightarrow> disk \<Rightarrow> bool \<times> disk" where
  "append_bytes name bytes d =
     (let n = (case d_room d of None \<Rightarrow> length bytes | Some room \<Rightarrow> min room (length bytes));
          old = (case d_files d name of None \<Rightarrow> [] | Some content \<Rightarrow> content)
      in (n = length bytes, d\<lparr>d_files := (d_files d)(name \<mapsto> old @ take n bytes),
                             d_room := map_option (\<lambda>room. room - n) (d_room d)\<rparr>))"

text \<open>
  An \<open>ofstream\<close>: opened with \<open>trunc\<close>, which frees the bytes the file had; \<open>write\<close>, which buffers what is
  smaller than the buffer and passes on the rest; and \<open>close\<close> (the destructor does the same), which passes on what is buffered.
\<close>

record ofstream =
  of_name :: "byte list"
  of_open :: bool
  of_pending :: "byte list"
  of_failed :: bool

definition ofstream_open :: "byte list \<Rightarrow> disk \<Rightarrow> ofstream \<times> disk" where
  "ofstream_open name d =
     (if \<not> can_open_to_write d name then (\<lparr>of_name = name, of_open = False, of_pending = [], of_failed = True\<rparr>, d)
      else (\<lparr>of_name = name, of_open = True, of_pending = [], of_failed = False\<rparr>,
            d\<lparr>d_files := (d_files d)(name \<mapsto> []),
              d_room := map_option (\<lambda>room. room + (case d_files d name of None \<Rightarrow> 0 | Some content \<Rightarrow> length content)) (d_room d)\<rparr>))"

definition ofstream_write :: "byte list \<Rightarrow> ofstream \<times> disk \<Rightarrow> ofstream \<times> disk" where
  "ofstream_write bytes s = (case s of (fs, d) \<Rightarrow>
     if of_failed fs then (fs, d)
     else if length (of_pending fs @ bytes) < d_buffer d then (fs\<lparr>of_pending := of_pending fs @ bytes\<rparr>, d)
     else case append_bytes (of_name fs) (of_pending fs @ bytes) d of
       (ok, d) \<Rightarrow> (fs\<lparr>of_pending := [], of_failed := \<not> ok\<rparr>, d))"

definition ofstream_close :: "ofstream \<times> disk \<Rightarrow> ofstream \<times> disk" where
  "ofstream_close s = (case s of (fs, d) \<Rightarrow>
     if \<not> of_open fs then (fs\<lparr>of_failed := True\<rparr>, d)
     else if of_pending fs = [] then (fs\<lparr>of_open := False\<rparr>, d)
     else case append_bytes (of_name fs) (of_pending fs) d of
       (ok, d) \<Rightarrow> (fs\<lparr>of_open := False, of_pending := [], of_failed := of_failed fs \<or> \<not> ok\<rparr>, d))"

text \<open>Open, one \<open>write\<close>, the test of the stream, and \<open>close\<close>.\<close>

definition write_through :: "string \<Rightarrow> byte list \<Rightarrow> byte list \<Rightarrow> disk \<Rightarrow> unit outcome \<times> disk" where
  "write_through label name payload d = (case ofstream_write payload (ofstream_open name d) of (fs, d) \<Rightarrow>
     if of_failed fs then (throw_system_error label, snd (ofstream_close (fs, d)))
     else (Inr (), snd (ofstream_close (fs, d))))"

lemma write_through_roomy:
  "d_room d = None \<Longrightarrow> write_through label name payload d =
     (if can_open_to_write d name then (Inr (), d\<lparr>d_files := (d_files d)(name \<mapsto> payload)\<rparr>) else (throw_system_error label, d))"
  by (cases "payload = []") (auto simp: write_through_def ofstream_write_def ofstream_open_def ofstream_close_def append_bytes_def)

text \<open>With room for \<open>room\<close> bytes, and those the file had before, that many bytes of a longer payload are kept.\<close>

lemma write_through_room:
  assumes "d_room d = Some room" "can_open_to_write d name"
    "keep = room + (case d_files d name of None \<Rightarrow> 0 | Some content \<Rightarrow> length content)"
  shows "write_through label name payload d =
     (if length payload \<le> keep \<or> length payload < d_buffer d then Inr () else throw_system_error label,
      d\<lparr>d_files := (d_files d)(name \<mapsto> take keep payload), d_room := Some (keep - length payload)\<rparr>)"
  using assms by (auto simp: write_through_def ofstream_write_def ofstream_open_def ofstream_close_def append_bytes_def Let_def min_def)

text \<open>
  The size of the file as an \<open>int\<close>, an array of that many characters, and a read of that many bytes.
\<close>

definition read_sized :: "byte list \<Rightarrow> byte list outcome" where
  "read_sized content = (let len = sint (of_nat (length content) :: 32 word) in
     if len < 0 then Inl Bad_alloc else Inr (take (nat len) content))"

section \<open>Transports\<close>

definition TransportFS_new :: "byte list \<Rightarrow> disk \<Rightarrow> transport outcome \<times> disk" where
  "TransportFS_new in_base_path d =
     (if in_base_path = [] then (Inr (TransportFS in_base_path), d)
      else if last in_base_path \<noteq> slash then (Inl Assertion, d)
      else case mkdir_cpp in_base_path d of
        (Some ENOENT, d) \<Rightarrow> (throw_system_error ''TransportFS::TransportFS()'', d)
      | (_, d) \<Rightarrow> (Inr (TransportFS in_base_path), d))"

definition block_to_filename ::
    "('e, 'y) suite_scheme \<Rightarrow> byte list \<Rightarrow> ('a, 'z) block_scheme \<Rightarrow> byte list outcome" where
  "block_to_filename lib base in_block =
     try_bind (message_digest lib (as_string (m_id in_block)) True) (\<lambda>d. Inr (base @ d))"

definition TransportFS_read ::
    "('e, 'y) suite_scheme \<Rightarrow> byte list \<Rightarrow> ('a, 'z) block_scheme \<Rightarrow> disk \<Rightarrow> ('a, 'z) block_scheme outcome" where
  "TransportFS_read lib base in_block d = try_bind (block_to_filename lib base in_block) (\<lambda>filename.
     case d_files d filename of
       None \<Rightarrow> Inl (Thrown_chars ''Block::read()'')
     | Some content \<Rightarrow> try_bind (read_sized content) (\<lambda>payload. Inr (from_stream payload in_block)))"

definition TransportFS_write ::
    "('e, 'y) suite_scheme \<Rightarrow> byte list \<Rightarrow> ('a, 'z) block_scheme \<Rightarrow> disk \<Rightarrow> unit outcome \<times> disk" where
  "TransportFS_write lib base in_block d = (case block_to_filename lib base in_block of
     Inl x \<Rightarrow> (Inl x, d)
   | Inr filename \<Rightarrow> write_through ''TransportFS::write()'' filename (to_stream in_block) d)"

definition transport_read ::
    "('e, 'y) suite_scheme \<Rightarrow> transport \<Rightarrow> ('a, 'z) block_scheme \<Rightarrow> disk \<Rightarrow> ('a, 'z) block_scheme outcome" where
  "transport_read lib tr in_block d = (case tr of NoTransport \<Rightarrow> Inr in_block
     | TransportFS base \<Rightarrow> TransportFS_read lib base in_block d)"

definition transport_write ::
    "('e, 'y) suite_scheme \<Rightarrow> transport \<Rightarrow> ('a, 'z) block_scheme \<Rightarrow> disk \<Rightarrow> unit outcome \<times> disk" where
  "transport_write lib tr in_block d = (case tr of NoTransport \<Rightarrow> (Inr (), d)
     | TransportFS base \<Rightarrow> TransportFS_write lib base in_block d)"

text \<open>\<open>Block::write\<close> and \<open>Block::read\<close>, which go through the transport of the block.\<close>

definition Block_write :: "('e, 'y) suite_scheme \<Rightarrow> ('a, 'z) block_scheme \<Rightarrow> disk \<Rightarrow> unit outcome \<times> disk" where
  "Block_write lib b d = (case m_transport b of None \<Rightarrow> (Inl Undefined, d)
     | Some tr \<Rightarrow> transport_write lib tr b d)"

definition Block_read :: "('e, 'y) suite_scheme \<Rightarrow> ('a, 'z) block_scheme \<Rightarrow> disk \<Rightarrow> ('a, 'z) block_scheme outcome" where
  "Block_read lib b d = (case m_transport b of None \<Rightarrow> Inl Undefined
     | Some tr \<Rightarrow> transport_read lib tr b d)"

section \<open>What a transport owes to blocks\<close>

text \<open>\<open>for_each\<close> over blocks; an exception ends it.\<close>

primrec for_each :: "('b \<Rightarrow> 's \<Rightarrow> unit outcome \<times> 's) \<Rightarrow> 'b list \<Rightarrow> 's \<Rightarrow> unit outcome \<times> 's" where
  "for_each f [] s = (Inr (), s)"
| "for_each f (b # bs) s = (case f b s of (Inl x, t) \<Rightarrow> (Inl x, t) | (Inr _, t) \<Rightarrow> for_each f bs t)"

lemma find_append: "find P (xs @ ys) = (case find P xs of None \<Rightarrow> find P ys | Some x \<Rightarrow> Some x)"
  by (induction xs) auto

text \<open>
  Blocks have a key and a stream that fills a block again.  In a good state a block of
  acceptable size can be written; reading a block with the same key then gives its stream, and
  reading any other block gives what it gave before.
\<close>

locale block_transport =
  fixes put :: "'b \<Rightarrow> 's \<Rightarrow> unit outcome \<times> 's"
    and get :: "'b \<Rightarrow> 's \<Rightarrow> 'b outcome"
    and key :: "'b \<Rightarrow> 'k"
    and filled :: "'b \<Rightarrow> 'b \<Rightarrow> 'b"
    and acceptable :: "'b \<Rightarrow> bool"
    and good :: "'s \<Rightarrow> bool"
  assumes write_read: "good s \<Longrightarrow> acceptable b \<Longrightarrow> \<exists>t. put b s = (Inr (), t) \<and> good t
     \<and> (\<forall>b'. get b' t = (if key b' = key b then Inr (filled b b') else get b' s))"
begin

lemma write_series:
  "good s \<Longrightarrow> list_all acceptable bs \<Longrightarrow> \<exists>t. for_each put bs s = (Inr (), t) \<and> good t
     \<and> (\<forall>b'. get b' t = (case find (\<lambda>b. key b = key b') (rev bs) of
          None \<Rightarrow> get b' s | Some b \<Rightarrow> Inr (filled b b')))"
proof (induction bs arbitrary: s)
  case (Cons a bs)
  obtain t where t: "put a s = (Inr (), t)" "good t"
    "\<forall>b'. get b' t = (if key b' = key a then Inr (filled a b') else get b' s)"
    using write_read [of s a] Cons.prems by auto
  obtain u where u: "for_each put bs t = (Inr (), u)" "good u"
    "\<forall>b'. get b' u = (case find (\<lambda>b. key b = key b') (rev bs) of None \<Rightarrow> get b' t | Some b \<Rightarrow> Inr (filled b b'))"
    using Cons.IH [OF t(2)] Cons.prems by auto
  have "get b' u = (case find (\<lambda>b. key b = key b') (rev (a # bs)) of
      None \<Rightarrow> get b' s | Some b \<Rightarrow> Inr (filled b b'))" for b'
    using spec [OF t(3), of b'] spec [OF u(3), of b']
    by (cases "find (\<lambda>b. key b = key b') (rev bs)") (auto simp: find_append)
  moreover have "for_each put (a # bs) s = (Inr (), u)" using t(1) u(1) by simp
  ultimately show ?case using u(2) by blast
qed simp

text \<open>The last block written under a key is the one that is read.\<close>

lemma written_is_read:
  assumes "good s" "list_all acceptable bs" "b \<in> set bs" "inj_on key (set bs)" "key b' = key b"
  shows "\<exists>t. for_each put bs s = (Inr (), t) \<and> good t \<and> get b' t = Inr (filled b b')"
proof -
  obtain t where t: "for_each put bs s = (Inr (), t)" "good t"
    "get b' t = (case find (\<lambda>b. key b = key b') (rev bs) of None \<Rightarrow> get b' s | Some b \<Rightarrow> Inr (filled b b'))"
    using write_series [OF assms(1,2)] by blast
  have "find (\<lambda>b. key b = key b') (rev bs) = Some b"
  proof (cases "find (\<lambda>b. key b = key b') (rev bs)")
    case None
    then show ?thesis using assms(3,5) by (auto simp: find_None_iff)
  next
    case (Some c)
    then obtain i where i: "i < length (rev bs)" "key (rev bs ! i) = key b'" "c = rev bs ! i"
      by (auto simp: find_Some_iff)
    then have "c \<in> set (rev bs)" by (metis nth_mem)
    then have "c \<in> set bs" "key c = key b'" using i by simp_all
    then show ?thesis using Some assms(3-5) by (auto dest: inj_onD)
  qed
  with t show ?thesis by auto
qed

end

text \<open>A disk with room on which files can be made in the directory \<open>base\<close>.\<close>

definition usable :: "('e, 'y) suite_scheme \<Rightarrow> byte list \<Rightarrow> disk \<Rightarrow> bool" where
  "usable lib base d \<longleftrightarrow> digests_work lib \<and> dir_exists d base \<and> (base = [] \<or> last base = slash) \<and> d_room d = None
     \<and> (\<forall>p \<in> d_dirs d. \<not> (\<exists>m f. message_digest lib m True = Inr f \<and> p = base @ f @ [slash]))"

definition block_key :: "('e, 'y) suite_scheme \<Rightarrow> ('a, 'z) block_scheme \<Rightarrow> byte list" where
  "block_key lib b = sha256 lib (as_string (m_id b))"

definition short :: "('a, 'z) block_scheme \<Rightarrow> bool" where
  "short b \<longleftrightarrow> length (to_stream b) < 2147483648"

lemma read_sized_short: "length c < 2147483648 \<Longrightarrow> read_sized c = Inr c"
proof -
  assume "length c < 2147483648"
  then have "sint (of_nat (length c) :: 32 word) = int (length c)"
    by (simp add: sint_uint uint_nat unat_of_nat signed_take_bit_int_eq_self_iff take_bit_eq_mod)
  then show ?thesis by (simp add: read_sized_def Let_def)
qed

section \<open>The file system as a transport\<close>

lemma dir_part_append: "base = [] \<or> last base = slash \<Longrightarrow> slash \<notin> set f \<Longrightarrow> dir_part (base @ f) = base"
proof -
  assume b: "base = [] \<or> last base = slash" and "slash \<notin> set f"
  then have "dropWhile (\<lambda>c. c \<noteq> slash) (rev f @ rev base) = dropWhile (\<lambda>c. c \<noteq> slash) (rev base)"
    by (intro dropWhile_append2) auto
  moreover have "dropWhile (\<lambda>c. c \<noteq> slash) (rev base) = rev base"
    using b by (cases base rule: rev_cases) auto
  ultimately show ?thesis by (simp add: dir_part_def)
qed

lemma filename_of:
  assumes "usable lib base d"
  obtains f where "message_digest lib (as_string (m_id b)) True = Inr f" "block_to_filename lib base b = Inr (base @ f)"
    "can_open_to_write d (base @ f)"
proof -
  have w: "digests_work lib" and u: "dir_exists d base" "base = [] \<or> last base = slash"
    and free: "\<And>m f. message_digest lib m True = Inr f \<Longrightarrow> base @ f @ [slash] \<notin> d_dirs d"
    using assms by (auto simp: usable_def)
  obtain f where f: "message_digest lib (as_string (m_id b)) True = Inr f" "slash \<notin> set f"
    using message_digest_name [OF w] .
  have "can_open_to_write d (base @ f)"
    using u free [OF f(1)] f(2) by (simp add: can_open_to_write_def dir_part_append)
  with f show thesis by (intro that) (simp_all add: block_to_filename_def)
qed

lemma TransportFS_write_read:
  assumes "usable lib base d" "short b"
  shows "\<exists>d'. TransportFS_write lib base b d = (Inr (), d') \<and> usable lib base d'
     \<and> (\<forall>b'. TransportFS_read lib base b' d'
          = (if block_key lib b' = block_key lib b then Inr (from_stream (to_stream b) b')
             else TransportFS_read lib base b' d))"
proof -
  obtain f where f: "message_digest lib (as_string (m_id b)) True = Inr f"
    "block_to_filename lib base b = Inr (base @ f)" "can_open_to_write d (base @ f)"
    using filename_of [OF assms(1)] .
  have w: "digests_work lib" "d_room d = None" using assms(1) by (simp_all add: usable_def)
  define d' where "d' = d\<lparr>d_files := (d_files d)(base @ f \<mapsto> to_stream b)\<rparr>"
  have "TransportFS_write lib base b d = (Inr (), d')"
    using f w(2) by (simp add: TransportFS_write_def write_through_roomy d'_def)
  moreover have "usable lib base d'" using assms(1) by (simp add: usable_def d'_def dir_exists_def)
  moreover have "TransportFS_read lib base b' d' = (if block_key lib b' = block_key lib b
      then Inr (from_stream (to_stream b) b') else TransportFS_read lib base b' d)" for b'
  proof -
    obtain f' where f': "message_digest lib (as_string (m_id b')) True = Inr f'"
      "block_to_filename lib base b' = Inr (base @ f')"
      using filename_of [OF assms(1)] by metis
    have "f' = f \<longleftrightarrow> block_key lib b' = block_key lib b"
      using message_digest_eq_iff [OF w(1), of "as_string (m_id b')" "as_string (m_id b)"] f(1) f'(1)
      by (simp add: block_key_def)
    then show ?thesis
      using f' assms(2) by (simp add: TransportFS_read_def d'_def short_def read_sized_short)
  qed
  ultimately show ?thesis by blast
qed

interpretation tfs: block_transport "TransportFS_write lib base" "TransportFS_read lib base" "block_key lib"
  "\<lambda>b. from_stream (to_stream b)" short "usable lib base" for lib base
  by unfold_locales (rule TransportFS_write_read)

lemma m_id_from_stream [simp]:
  "m_id (from_stream c b) = m_id b" "m_crypto_key (from_stream c b) = m_crypto_key b"
  "m_cipher_text (from_stream c b) = c" "m_status (from_stream c b) = m_status b"
  "m_act_queue (from_stream c b) = m_act_queue b"
  by (simp_all add: from_stream_def)

section \<open>Properties\<close>

text \<open>Blocks that were written to a usable directory are recovered from their identifiers and keys
  alone: of any series of blocks whose identifiers have different hashes, each one that holds a
  string \<open>s\<close> under a key is read back, by a new block made from its identifier, with the contents \<open>s\<close>.\<close>

theorem staged_blocks_recovered:
  fixes bs :: "'a block list"
  assumes "usable lib base d" "list_all short bs" "inj_on (block_key lib) (set bs)" "b \<in> set bs"
    "m_transport b = Some (TransportFS base)" "plain_text lib b = Some (Inr s)"
  shows "\<exists>d' b'. for_each (TransportFS_write lib base) bs d = (Inr (), d')
      \<and> Block_read lib (DataBlock_CreateById (m_transport b) (m_crypto_key b) (m_id b) :: 'a block) d' = Inr b'
      \<and> plain_text lib b' = Some (Inr s) \<and> m_status b' = block_status_invalid"
proof -
  let ?n = "DataBlock_CreateById (m_transport b) (m_crypto_key b) (m_id b) :: 'a block"
  have n: "m_id ?n = m_id b" "m_crypto_key ?n = m_crypto_key b" "m_status ?n = block_status_invalid"
    "m_transport ?n = Some (TransportFS base)"
    using assms(5) by (simp_all add: DataBlock_CreateById_def Block_CreateById_def)
  have "block_key lib ?n = block_key lib b" by (simp add: block_key_def n)
  then obtain d' where d': "for_each (TransportFS_write lib base) bs d = (Inr (), d')"
    "TransportFS_read lib base ?n d' = Inr (from_stream (to_stream b) ?n)"
    using tfs.written_is_read [OF assms(1,2,4,3)] by blast
  have "plain_text lib (from_stream (to_stream b) ?n) = plain_text lib b"
    by (simp add: plain_text_def to_stream_def n)
  then show ?thesis
    using d' assms(6) by (auto simp: Block_read_def transport_read_def n)
qed


section \<open>An instance\<close>

text \<open>The directory \<open>b/\<close>, and blocks that hold one byte under the key \<open>[1, 2]\<close>.\<close>

definition toy_base :: "byte list" where "toy_base = [98, slash]"

definition toy_disk :: disk where
  "toy_disk = \<lparr>d_files = (\<lambda>_. None), d_dirs = {toy_base}, d_room = None, d_buffer = 1024\<rparr>"

definition toy_cipher :: "byte \<Rightarrow> byte list" where
  "toy_cipher c = [1, 2] @ replicate 14 0 @ replicate 16 66 @ 0 # replicate 11 0 @ [c]"

definition toy_block :: "byte list \<Rightarrow> byte \<Rightarrow> nat block" where
  "toy_block i c = \<lparr>m_cipher_text = toy_cipher c, m_crypto_key = [1, 2], m_id = BlockId i,
     m_status = status_or ready dirty, m_act_queue = [], m_transport = Some (TransportFS toy_base)\<rparr>"

lemma toy_usable: "usable toy_libraries toy_base toy_disk"
  using libraries_workD(1) [OF toy_libraries_work]
  by (auto simp: usable_def toy_disk_def toy_base_def dir_exists_def)

lemma toy_suite_fields [simp]:
  "sha256 toy_libraries m = replicate 32 (if m = [] then 0 else 1)"
  "base64 toy_libraries d = replicate 44 (65 + hd d) @ [newline]"
  "aes_cbc_decrypt toy_libraries key iv c = (if take 32 c = key @ iv then Some (drop 32 c) else None)"
  "bz toy_libraries = bz_toy"
  by (simp_all add: toy_libraries_def suite.defs toy_suite_def)

lemma toy_block_text: "plain_text toy_libraries (toy_block i c) = Some (Inr [c])"
proof -
  have d: "decompress bz_toy (0 # replicate 11 0 @ [c]) 0 = Some (Inr (replicate 11 0 @ [c]))"
    by (rule decompress_enough_room) (simp add: bz_toy_def source_of_def first_room_def)
  have i: "init_key_iv toy_libraries [1, 2] = Inr ([1, 2] @ replicate 14 0, replicate 16 66)"
    by (simp add: init_key_iv_def message_digest_def fixed16_def)
  have "decrypt_cpp toy_libraries (toy_cipher c) [1, 2] = Inr (0 # replicate 11 0 @ [c])"
    by (simp add: decrypt_cpp_def i toy_cipher_def)
  then have "unseal toy_libraries (toy_cipher c) [1, 2] = Some (Inr (replicate 11 0 @ [c]))"
    using d by (simp add: unseal_def)
  then show ?thesis by (simp add: plain_text_def toy_block_def)
qed

theorem staged_blocks_recovered_witness:
  "\<exists>d' b'. for_each (TransportFS_write toy_libraries toy_base) [toy_block [] 7, toy_block [1] 8] toy_disk = (Inr (), d')
      \<and> Block_read toy_libraries (DataBlock_CreateById (Some (TransportFS toy_base)) [1, 2] (BlockId []) :: nat block) d' = Inr b'
      \<and> plain_text toy_libraries b' = Some (Inr [7])"
proof -
  have "list_all short [toy_block [] 7, toy_block [1] 8]"
    by (simp add: short_def to_stream_def toy_block_def toy_cipher_def)
  moreover have "inj_on (block_key toy_libraries) (set [toy_block [] 7, toy_block [1] 8])"
    by (simp add: block_key_def toy_block_def)
  ultimately show ?thesis
    using staged_blocks_recovered [OF toy_usable, of "[toy_block [] 7, toy_block [1] 8]" "toy_block [] 7" "[7]"] toy_block_text
    by (auto simp: toy_block_def)
qed

lemma toy_filename: "block_to_filename toy_libraries toy_base (toy_block [] 7) = Inr (toy_base @ replicate 44 65)"
  by (simp add: block_to_filename_def message_digest_def toy_block_def)


end
