(* ===== verification/Cpp_Communicator.thy ===== *)
theory Cpp_Communicator
  imports Cpp_Transport
begin

text \<open>
  \<open>communicate.h\<close> and \<open>communicate.cpp\<close>: the queue of blocks to send, and the thread that sends them in batches.
  Blocks are pointers of type \<open>'p\<close>.  The calls of the transport and of the completion tokens are
  \<open>put p w\<close> and \<open>complete p w\<close> on the rest of the world \<open>w\<close>; a completion that never returns is \<open>None\<close>.

  \<open>comm_batch\<close> is one pass of the loop as a function, which is what a program without threads runs.
  \<open>comm_step\<close> interleaves the steps of the thread with those of any number of clients, which push, change the world as
  \<open>client\<close> allows, and wait, as often as they like: a step is what happens between two accesses to what the threads share.
  The lists \<open>pushed\<close>, \<open>written\<close> and \<open>completed\<close> only record what happened; \<open>called\<close> and \<open>seen\<close> are how many blocks
  had been pushed when a client called \<open>wait\<close> and when it last found the queue empty, and \<open>stopped_by\<close> are the clients that
  told the thread to stop.

  What is shown: the steps of the thread do what \<open>comm_batch\<close> does; blocks are written, and completed, in the
  order in which they were pushed, in batches of bounded size; and when \<open>wait\<close> returns through \<open>join\<close>, what was pushed
  before is done, while its other exit is open to every later \<open>wait\<close>.
\<close>

section \<open>The communicator\<close>

definition communicator_prod_batch_size :: nat where "communicator_prod_batch_size = 100"
definition communicator_test_batch_size :: nat where "communicator_test_batch_size = 3"

record 'p communicator =
  m_batch_size :: nat
  m_needed :: bool
  m_queue :: "'p list"

definition Communicator_new :: "modes \<Rightarrow> 'p communicator" where
  "Communicator_new modes =
     \<lparr>m_batch_size = (if mode modes Testing then communicator_test_batch_size else communicator_prod_batch_size),
      m_needed = True, m_queue = []\<rparr>"

definition push :: "'p \<Rightarrow> ('p, 'z) communicator_scheme \<Rightarrow> ('p, 'z) communicator_scheme" where
  "push bp c = c\<lparr>m_queue := m_queue c @ [bp]\<rparr>"

definition queue_empty :: "('p, 'z) communicator_scheme \<Rightarrow> bool" where
  "queue_empty c = (m_queue c = [])"

definition pop :: "('p, 'z) communicator_scheme \<Rightarrow> ('p \<times> ('p, 'z) communicator_scheme) outcome" where
  "pop c = (case m_queue c of [] \<Rightarrow> Inl Undefined | bp # q \<Rightarrow> Inr (bp, c\<lparr>m_queue := q\<rparr>))"

text \<open>The loop of \<open>comm_batch\<close> under the lock, \<open>n\<close> times.\<close>

fun gather :: "nat \<Rightarrow> ('p, 'z) communicator_scheme \<Rightarrow> 'p list \<Rightarrow> 'p list \<times> ('p, 'z) communicator_scheme" where
  "gather 0 c acc = (acc, c)"
| "gather (Suc n) c acc = gather n (c\<lparr>m_queue := tl (m_queue c)\<rparr>) (acc @ [hd (m_queue c)])"

definition take_batch :: "('p, 'z) communicator_scheme \<Rightarrow> 'p list \<times> ('p, 'z) communicator_scheme" where
  "take_batch c = gather (min (length (m_queue c)) (m_batch_size c)) c []"

fun for_each_opt :: "('p \<Rightarrow> 'w \<Rightarrow> (unit outcome \<times> 'w) option) \<Rightarrow> 'p list \<Rightarrow> 'w \<Rightarrow> (unit outcome \<times> 'w) option" where
  "for_each_opt f [] w = Some (Inr (), w)"
| "for_each_opt f (p # ps) w = (case f p w of None \<Rightarrow> None
     | Some (Inl x, v) \<Rightarrow> Some (Inl x, v)
     | Some (Inr _, v) \<Rightarrow> for_each_opt f ps v)"

definition comm_batch ::
    "('p \<Rightarrow> 'w \<Rightarrow> unit outcome \<times> 'w) \<Rightarrow> ('p \<Rightarrow> 'w \<Rightarrow> (unit outcome \<times> 'w) option)
      \<Rightarrow> ('p, 'z) communicator_scheme \<times> 'w \<Rightarrow> (unit outcome \<times> ('p, 'z) communicator_scheme \<times> 'w) option" where
  "comm_batch put complete s = (case s of (c, w) \<Rightarrow>
     if m_queue c = [] then Some (Inr (), (c, w))
     else case take_batch c of (blocks_to_stage, c) \<Rightarrow>
       (case for_each put blocks_to_stage w of
          (Inl x, w) \<Rightarrow> Some (Inl x, (c, w))
        | (Inr _, w) \<Rightarrow> map_option (\<lambda>(r, w). (r, (c, w))) (for_each_opt complete blocks_to_stage w)))"

text \<open>\<open>operator()\<close>: one pass without threads, and with threads passes until the communicator is not needed.\<close>

partial_function (option) comm_loop ::
    "('p \<Rightarrow> 'w \<Rightarrow> unit outcome \<times> 'w) \<Rightarrow> ('p \<Rightarrow> 'w \<Rightarrow> (unit outcome \<times> 'w) option)
      \<Rightarrow> ('p, 'z) communicator_scheme \<times> 'w \<Rightarrow> (unit outcome \<times> ('p, 'z) communicator_scheme \<times> 'w) option" where
  "comm_loop put complete s = (if \<not> m_needed (fst s) then Some (Inr (), s)
     else case comm_batch put complete s of
       None \<Rightarrow> None
     | Some (Inl x, t) \<Rightarrow> Some (Inl x, t)
     | Some (Inr _, t) \<Rightarrow> comm_loop put complete t)"

definition run_communicator ::
    "modes \<Rightarrow> ('p \<Rightarrow> 'w \<Rightarrow> unit outcome \<times> 'w) \<Rightarrow> ('p \<Rightarrow> 'w \<Rightarrow> (unit outcome \<times> 'w) option)
      \<Rightarrow> ('p, 'z) communicator_scheme \<times> 'w \<Rightarrow> (unit outcome \<times> ('p, 'z) communicator_scheme \<times> 'w) option" where
  "run_communicator modes put complete s =
     (if \<not> mode modes Threads then comm_batch put complete s else comm_loop put complete s)"

section \<open>Threads\<close>

text \<open>
  Where the thread is: at the head of the loop, in \<open>comm_batch\<close> before the queue is read, writing
  or completing the rest of a batch, returned, or ended by an exception (which ends the process).
  Without threads there is none.  Where a client is: not in \<open>wait\<close>, at the head of its loop, after \<open>queue_empty\<close>
  said yes or no, joining the thread, returned after the join, or returned by the other exit; joining a thread that does not exist is
  undefined, and joining one that was joined before returns or fails, as the version of the library has it.
\<close>

datatype 'p thread = No_thread | At_loop | In_batch | Putting "'p list" "'p list" | Completing "'p list"
  | Returned | Died exn

datatype waiter = Not_waiting | Polling | Found_empty | Found_work | Joining | Wait_returned | Gave_up | Wait_undefined

record ('p, 'w) machine = "'p communicator" +
  thread :: "'p thread"
  waiter :: "nat \<Rightarrow> waiter"
  world :: 'w
  pushed :: "'p list"
  written :: "'p list"
  completed :: "'p list"
  called :: "nat \<Rightarrow> nat"
  seen :: "nat \<Rightarrow> nat"
  stopped_by :: "nat list"

definition machine_new :: "modes \<Rightarrow> 'w \<Rightarrow> ('p, 'w) machine" where
  "machine_new modes w = communicator.extend (Communicator_new modes)
     \<lparr>thread = (if mode modes Threads then At_loop else No_thread), waiter = (\<lambda>_. Not_waiting), world = w,
      pushed = [], written = [], completed = [], called = (\<lambda>_. 0), seen = (\<lambda>_. 0), stopped_by = []\<rparr>"

text \<open>Client \<open>i\<close> moves on in \<open>wait\<close>.\<close>

definition moves :: "nat \<Rightarrow> waiter \<Rightarrow> ('p, 'w) machine \<Rightarrow> ('p, 'w) machine" where
  "moves i at m = m\<lparr>waiter := (waiter m)(i := at)\<rparr>"

definition alive :: "('p, 'w) machine \<Rightarrow> bool" where
  "alive m \<longleftrightarrow> (case thread m of Died x \<Rightarrow> False | _ \<Rightarrow> True)"

inductive comm_step ::
    "('w \<Rightarrow> 'w \<Rightarrow> bool) \<Rightarrow> ('p \<Rightarrow> 'w \<Rightarrow> unit outcome \<times> 'w) \<Rightarrow> ('p \<Rightarrow> 'w \<Rightarrow> (unit outcome \<times> 'w) option)
      \<Rightarrow> ('p, 'w) machine \<Rightarrow> ('p, 'w) machine \<Rightarrow> bool"
  for client put complete where
  client_push: "alive m \<Longrightarrow> comm_step client put complete m ((push bp m)\<lparr>pushed := pushed m @ [bp]\<rparr>)"
| client_changes: "alive m \<Longrightarrow> client (world m) w \<Longrightarrow> comm_step client put complete m (m\<lparr>world := w\<rparr>)"
| loop_needed: "thread m = At_loop \<Longrightarrow> m_needed m \<Longrightarrow> comm_step client put complete m (m\<lparr>thread := In_batch\<rparr>)"
| loop_ends: "thread m = At_loop \<Longrightarrow> \<not> m_needed m \<Longrightarrow> comm_step client put complete m (m\<lparr>thread := Returned\<rparr>)"
| batch_sleeps: "thread m = In_batch \<Longrightarrow> queue_empty m \<Longrightarrow> comm_step client put complete m (m\<lparr>thread := At_loop\<rparr>)"
| batch_taken: "thread m = In_batch \<Longrightarrow> \<not> queue_empty m \<Longrightarrow> take_batch m = (blocks, m')
    \<Longrightarrow> comm_step client put complete m (m'\<lparr>thread := Putting blocks blocks\<rparr>)"
| put_one: "thread m = Putting (bp # bps) blocks \<Longrightarrow> put bp (world m) = (Inr (), w)
    \<Longrightarrow> comm_step client put complete m (m\<lparr>thread := Putting bps blocks, world := w, written := written m @ [bp]\<rparr>)"
| put_throws: "thread m = Putting (bp # bps) blocks \<Longrightarrow> put bp (world m) = (Inl x, w)
    \<Longrightarrow> comm_step client put complete m (m\<lparr>thread := Died x, world := w\<rparr>)"
| put_done: "thread m = Putting [] blocks \<Longrightarrow> comm_step client put complete m (m\<lparr>thread := Completing blocks\<rparr>)"
| complete_one: "thread m = Completing (bp # bps) \<Longrightarrow> complete bp (world m) = Some (Inr (), w)
    \<Longrightarrow> comm_step client put complete m (m\<lparr>thread := Completing bps, world := w, completed := completed m @ [bp]\<rparr>)"
| complete_throws: "thread m = Completing (bp # bps) \<Longrightarrow> complete bp (world m) = Some (Inl x, w)
    \<Longrightarrow> comm_step client put complete m (m\<lparr>thread := Died x, world := w\<rparr>)"
| complete_done: "thread m = Completing [] \<Longrightarrow> comm_step client put complete m (m\<lparr>thread := At_loop\<rparr>)"
| wait_called: "alive m \<Longrightarrow> waiter m i \<in> {Not_waiting, Wait_returned, Gave_up}
    \<Longrightarrow> comm_step client put complete m ((moves i Polling m)\<lparr>called := (called m)(i := length (pushed m))\<rparr>)"
| wait_empty: "alive m \<Longrightarrow> waiter m i = Polling \<Longrightarrow> queue_empty m
    \<Longrightarrow> comm_step client put complete m ((moves i Found_empty m)\<lparr>seen := (seen m)(i := length (pushed m))\<rparr>)"
| wait_not_empty: "alive m \<Longrightarrow> waiter m i = Polling \<Longrightarrow> \<not> queue_empty m
    \<Longrightarrow> comm_step client put complete m (moves i Found_work m)"
| wait_stops: "alive m \<Longrightarrow> waiter m i = Found_empty
    \<Longrightarrow> comm_step client put complete m ((moves i Joining m)\<lparr>m_needed := False, stopped_by := stopped_by m @ [i]\<rparr>)"
| wait_gives_up: "alive m \<Longrightarrow> waiter m i = Found_work \<Longrightarrow> \<not> m_needed m
    \<Longrightarrow> comm_step client put complete m (moves i Gave_up m)"
| wait_sleeps: "alive m \<Longrightarrow> waiter m i = Found_work \<Longrightarrow> m_needed m
    \<Longrightarrow> comm_step client put complete m (moves i Polling m)"
| wait_joined: "waiter m i = Joining \<Longrightarrow> thread m = Returned
    \<Longrightarrow> comm_step client put complete m (moves i Wait_returned m)"
| wait_joined_again: "waiter m i = Joining \<Longrightarrow> thread m = Returned \<Longrightarrow> 1 < length (stopped_by m)
    \<Longrightarrow> comm_step client put complete m (moves i Wait_undefined m)"
| wait_no_thread: "waiter m i = Joining \<Longrightarrow> thread m = No_thread
    \<Longrightarrow> comm_step client put complete m (moves i Wait_undefined m)"

inductive comm_run ::
    "('w \<Rightarrow> 'w \<Rightarrow> bool) \<Rightarrow> ('p \<Rightarrow> 'w \<Rightarrow> unit outcome \<times> 'w) \<Rightarrow> ('p \<Rightarrow> 'w \<Rightarrow> (unit outcome \<times> 'w) option)
      \<Rightarrow> ('p, 'w) machine \<Rightarrow> ('p, 'w) machine \<Rightarrow> bool"
  for client put complete where
  run_nothing: "comm_run client put complete m m"
| run_step: "comm_run client put complete m n \<Longrightarrow> comm_step client put complete n k \<Longrightarrow> comm_run client put complete m k"

lemma gather_take:
  "n \<le> length (m_queue c) \<Longrightarrow> gather n c acc = (acc @ take n (m_queue c), c\<lparr>m_queue := drop n (m_queue c)\<rparr>)"
proof (induction n c acc rule: gather.induct)
  case (2 n c acc)
  then show ?case by (cases "m_queue c") auto
qed simp

lemma take_batch_take: "take_batch c
    = (take (m_batch_size c) (m_queue c), c\<lparr>m_queue := drop (m_batch_size c) (m_queue c)\<rparr>)"
  by (simp add: take_batch_def gather_take min_def)

text \<open>
  What the lists of a machine have to do with each other: of what was pushed, some is completed, some is in flight, and the rest is
  queued; of what is in flight, \<open>d\<close> has been written and \<open>r\<close> has not.
\<close>

definition flow :: "nat \<Rightarrow> ('p, 'w) machine \<Rightarrow> bool" where
  "flow n m \<longleftrightarrow> m_batch_size m = n \<and> (\<exists>d r. pushed m = completed m @ d @ r @ m_queue m \<and> written m = completed m @ d
     \<and> length d + length r \<le> n \<and> (case thread m of
         Putting ps blocks \<Rightarrow> blocks = d @ r \<and> ps = r
       | Completing ps \<Rightarrow> ps = d \<and> r = []
       | Died x \<Rightarrow> d @ r \<noteq> []
       | _ \<Rightarrow> d = [] \<and> r = []))"

definition waits_at :: "('p, 'w) machine \<Rightarrow> nat \<Rightarrow> bool" where
  "waits_at m i \<longleftrightarrow> (case waiter m i of
      Found_empty \<Rightarrow> called m i \<le> seen m i \<and> seen m i + length (m_queue m) \<le> length (pushed m)
    | Joining \<Rightarrow> called m i \<le> seen m i \<and> seen m i + length (m_queue m) \<le> length (pushed m)
    | Wait_returned \<Rightarrow> called m i \<le> seen m i \<and> seen m i + length (m_queue m) \<le> length (pushed m) \<and> thread m = Returned
    | Gave_up \<Rightarrow> stopped_by m \<noteq> []
    | Not_waiting \<Rightarrow> True
    | Wait_undefined \<Rightarrow> thread m = No_thread \<or> 1 < length (stopped_by m)
    | _ \<Rightarrow> called m i \<le> length (pushed m))"

definition waits :: "('p, 'w) machine \<Rightarrow> bool" where
  "waits m \<longleftrightarrow> (m_needed m \<longleftrightarrow> stopped_by m = []) \<and> (thread m = Returned \<longrightarrow> stopped_by m \<noteq> []) \<and> (\<forall>i. waits_at m i)"

lemma moves_fields [simp]:
  "thread (moves i at m) = thread m" "waiter (moves i at m) = (waiter m)(i := at)" "world (moves i at m) = world m"
  "pushed (moves i at m) = pushed m" "written (moves i at m) = written m" "completed (moves i at m) = completed m"
  "called (moves i at m) = called m" "seen (moves i at m) = seen m" "stopped_by (moves i at m) = stopped_by m"
  "m_needed (moves i at m) = m_needed m" "m_queue (moves i at m) = m_queue m" "m_batch_size (moves i at m) = m_batch_size m"
  by (simp_all add: moves_def)

lemma push_fields [simp]:
  "thread (push p m) = thread m" "waiter (push p m) = waiter m" "world (push p m) = world m"
  "pushed (push p m) = pushed m" "written (push p m) = written m" "completed (push p m) = completed m"
  "called (push p m) = called m" "seen (push p m) = seen m" "stopped_by (push p m) = stopped_by m"
  "m_needed (push p m) = m_needed m" "m_queue (push p m) = m_queue m @ [p]" "m_batch_size (push p m) = m_batch_size m"
  by (simp_all add: push_def)

lemma flow_step:
  assumes "comm_step client put complete m m'" and "flow n m"
  shows "flow n m'"
  using assms
proof cases
  case (batch_taken blocks k)
  with assms(2) show ?thesis by (auto simp: flow_def take_batch_take)
next
  case (put_one bp bps blocks w)
  with assms(2) obtain d where "pushed m = completed m @ d @ (bp # bps) @ m_queue m" "written m = completed m @ d"
    "length d + length (bp # bps) \<le> n" "blocks = d @ bp # bps" "m_batch_size m = n"
    by (auto simp: flow_def)
  with put_one show ?thesis by (auto simp: flow_def intro!: exI [of _ "d @ [bp]"])
next
  case (complete_throws bp bps x w)
  with assms(2) show ?thesis by (auto simp: flow_def intro!: exI [of _ "bp # bps"])
qed (auto simp: flow_def queue_empty_def split: thread.splits)

lemma waits_at_step:
  assumes "comm_step client put complete m m'" and "waits_at m i" and "m_needed m \<longleftrightarrow> stopped_by m = []"
  shows "waits_at m' i"
  using assms
  by cases (auto simp: waits_at_def queue_empty_def take_batch_take split: waiter.splits)

lemma waits_step:
  assumes "comm_step client put complete m m'" and "waits m"
  shows "waits m'"
proof -
  have "(m_needed m' \<longleftrightarrow> stopped_by m' = []) \<and> (thread m' = Returned \<longrightarrow> stopped_by m' \<noteq> [])"
    using assms by cases (auto simp: waits_def take_batch_take)
  then show ?thesis using assms waits_at_step [OF assms(1)] by (auto simp: waits_def)
qed

lemma run_invariant:
  assumes "comm_run client put complete m0 m" and "P m0"
    and "\<And>m m'. comm_step client put complete m m' \<Longrightarrow> P m \<Longrightarrow> P m'"
  shows "P m"
  using assms(1,2) by induction (auto intro: assms(3))

lemmas new_simps = machine_new_def communicator.defs Communicator_new_def
  communicator_test_batch_size_def communicator_prod_batch_size_def

lemma flow_run:
  assumes "comm_run client put complete (machine_new modes w) m"
  shows "flow (if mode modes Testing then 3 else 100) m" and "waits m"
proof -
  show "flow (if mode modes Testing then 3 else 100) m"
    by (rule run_invariant [OF assms], simp add: flow_def new_simps) (rule flow_step)
  show "waits m"
    by (rule run_invariant [OF assms], simp add: waits_def waits_at_def new_simps) (rule waits_step)
qed

lemma no_thread_step: "comm_step client put complete m m' \<Longrightarrow> thread m = No_thread \<Longrightarrow> thread m' = No_thread"
  by (erule comm_step.cases) auto

lemma no_thread_run:
  "comm_run client put complete (machine_new modes w) m \<Longrightarrow> \<not> mode modes Threads \<Longrightarrow> thread m = No_thread"
  by (erule run_invariant) (auto simp: new_simps intro: no_thread_step)

section \<open>The thread does what the function does\<close>

lemma run_trans: "comm_run client put complete n k \<Longrightarrow> comm_run client put complete m n \<Longrightarrow> comm_run client put complete m k"
  by (induction rule: comm_run.induct) (auto intro: comm_run.intros)

lemma run_first: "comm_step client put complete m n \<Longrightarrow> comm_run client put complete n k \<Longrightarrow> comm_run client put complete m k"
  by (rule run_trans) (auto intro: comm_run.intros)

lemma puts_run:
  "for_each put ps (world m) = (Inr (), w) \<Longrightarrow> thread m = Putting ps blocks \<Longrightarrow>
     comm_run client put complete m (m\<lparr>thread := Completing blocks, world := w, written := written m @ ps\<rparr>)"
proof (induction ps arbitrary: m)
  case Nil
  then have "comm_step client put complete m (m\<lparr>thread := Completing blocks\<rparr>)" by (intro put_done)
  with Nil show ?case by (auto intro!: run_first [OF _ run_nothing])
next
  case (Cons p ps)
  then obtain v where v: "put p (world m) = (Inr (), v)" "for_each put ps v = (Inr (), w)"
    by (auto split: prod.splits sum.splits)
  let ?n = "m\<lparr>thread := Putting ps blocks, world := v, written := written m @ [p]\<rparr>"
  have "comm_step client put complete m ?n" by (rule put_one) (simp_all add: Cons.prems v)
  moreover have "comm_run client put complete ?n (?n\<lparr>thread := Completing blocks, world := w, written := written ?n @ ps\<rparr>)"
    by (rule Cons.IH) (simp_all add: v)
  ultimately show ?case using run_first by fastforce
qed

lemma completes_run:
  "for_each_opt complete ps (world m) = Some (Inr (), w) \<Longrightarrow> thread m = Completing ps \<Longrightarrow>
     comm_run client put complete m (m\<lparr>thread := At_loop, world := w, completed := completed m @ ps\<rparr>)"
proof (induction ps arbitrary: m)
  case Nil
  then have "comm_step client put complete m (m\<lparr>thread := At_loop\<rparr>)" by (intro complete_done)
  with Nil show ?case by (auto intro!: run_first [OF _ run_nothing])
next
  case (Cons p ps)
  then obtain v where v: "complete p (world m) = Some (Inr (), v)" "for_each_opt complete ps v = Some (Inr (), w)"
    by (auto split: prod.splits sum.splits option.splits)
  let ?n = "m\<lparr>thread := Completing ps, world := v, completed := completed m @ [p]\<rparr>"
  have "comm_step client put complete m ?n" by (rule complete_one) (simp_all add: Cons.prems v)
  moreover have "comm_run client put complete ?n (?n\<lparr>thread := At_loop, world := w, completed := completed ?n @ ps\<rparr>)"
    by (rule Cons.IH) (simp_all add: v)
  ultimately show ?case using run_first by fastforce
qed

lemma batch_run:
  assumes "comm_batch put complete (m, world m) = Some (Inr (), (m', w))" "thread m = In_batch"
  shows "comm_run client put complete m (m'\<lparr>written := written m @ fst (take_batch m),
    thread := At_loop, world := w, completed := completed m @ fst (take_batch m)\<rparr>)"
proof (cases "m_queue m = []")
  case True
  then have "m' = m" "w = world m" using assms(1) by (auto simp: comm_batch_def)
  moreover have "comm_step client put complete m (m\<lparr>thread := At_loop\<rparr>)"
    by (rule batch_sleeps) (simp_all add: assms(2) True queue_empty_def)
  ultimately show ?thesis using True by (auto simp: take_batch_take intro!: run_first [OF _ run_nothing])
next
  case False
  obtain blocks k where b: "take_batch m = (blocks, k)" by fastforce
  then have k: "world k = world m" "written k = written m" "completed k = completed m"
    by (auto simp: take_batch_take)
  obtain v where v: "for_each put blocks (world m) = (Inr (), v)"
    "for_each_opt complete blocks v = Some (Inr (), w)" "m' = k"
    using assms(1) False b by (auto simp: comm_batch_def split: prod.splits sum.splits)
  let ?n = "k\<lparr>thread := Putting blocks blocks\<rparr>"
  let ?o = "?n\<lparr>thread := Completing blocks, world := v, written := written ?n @ blocks\<rparr>"
  have "comm_step client put complete m ?n"
    by (rule batch_taken [OF assms(2) _ b]) (simp add: queue_empty_def False)
  moreover have "comm_run client put complete ?n ?o" by (rule puts_run) (simp_all add: k v(1))
  moreover have "comm_run client put complete ?o (?o\<lparr>thread := At_loop, world := w, completed := completed ?o @ blocks\<rparr>)"
    by (rule completes_run) (simp_all add: v(2))
  ultimately have "comm_run client put complete m (?o\<lparr>thread := At_loop, world := w, completed := completed ?o @ blocks\<rparr>)"
    using run_first run_trans by blast
  then show ?thesis by (simp add: b v(3) k)
qed


section \<open>Properties\<close>


lemma wait_returned:
  assumes "comm_run client put complete (machine_new modes w) m" "waiter m i = Wait_returned"
  shows "thread m = Returned" "pushed m = completed m @ m_queue m" "written m = completed m"
    "called m i \<le> seen m i" "seen m i \<le> length (completed m)"
proof -
  have f: "flow (if mode modes Testing then 3 else 100) m" and v: "waits_at m i"
    using flow_run [OF assms(1)] by (auto simp: waits_def)
  show t: "thread m = Returned" using v assms(2) by (simp add: waits_at_def)
  show p: "pushed m = completed m @ m_queue m" and "written m = completed m" using f by (auto simp: flow_def t)
  show "called m i \<le> seen m i" "seen m i \<le> length (completed m)" using v assms(2) p by (simp_all add: waits_at_def)
qed


text \<open>C21. One pass of the thread does what \<open>comm_batch\<close> does when nothing throws: from the point where it enters the
  pass, its steps lead to the head of its loop with the queue and the world that the function
  returns, and exactly the blocks of the batch were written and completed.\<close>

theorem thread_refines_batch:
  assumes "comm_batch put complete (m, world m) = Some (Inr (), (m', w))" "thread m = In_batch"
  shows "\<exists>n. comm_run client put complete m n \<and> thread n = At_loop \<and> world n = w \<and> m_queue n = m_queue m'
    \<and> written n = written m @ take (m_batch_size m) (m_queue m)
    \<and> completed n = completed m @ take (m_batch_size m) (m_queue m)"
  using batch_run [where client = client, OF assms] by (auto simp: take_batch_take)

section \<open>An instance\<close>

text \<open>One block through the machine: client 0 pushes it, the thread sends it, and client 0 waits for it.\<close>

lemma one_block_run:
  assumes "mode modes Threads" "put p w = (Inr (), v)" "complete p v = Some (Inr (), u)"
  obtains m where "comm_run client put complete (machine_new modes w) m" "waiter m 0 = Wait_returned" "world m = u"
    "pushed m = [p]" "m_queue m = []" "seen m 0 = 1" "called m 0 = 1" "completed m = [p]" "stopped_by m = [0]"
proof -
  define m0 where "m0 = (push p (machine_new modes w))\<lparr>pushed := [p]\<rparr>"
  define m1 where "m1 = m0\<lparr>thread := In_batch\<rparr>"
  have f1: "thread m1 = In_batch" "m_needed m1" "m_queue m1 = [p]" "0 < m_batch_size m1" "world m1 = w"
    "pushed m1 = [p]" "waiter m1 0 = Not_waiting" "completed m1 = []" "stopped_by m1 = []"
    by (simp_all add: m1_def m0_def push_def new_simps)
  have "comm_step client put complete (machine_new modes w) m0"
    using client_push [of "machine_new modes w" client put complete p]
    by (simp add: m0_def alive_def new_simps)
  moreover have "comm_step client put complete m0 m1"
    unfolding m1_def by (rule loop_needed) (simp_all add: m0_def push_def new_simps assms(1))
  ultimately have r1: "comm_run client put complete (machine_new modes w) m1"
    by (metis run_first run_nothing)
  have t: "take_batch m1 = ([p], m1\<lparr>m_queue := []\<rparr>)" using f1 by (simp add: take_batch_take)
  have "comm_batch put complete (m1, world m1) = Some (Inr (), (m1\<lparr>m_queue := []\<rparr>, u))"
    by (simp add: comm_batch_def f1 t assms(2,3))
  from batch_run [where client = client, OF this f1(1)] obtain m2 where r2: "comm_run client put complete m1 m2"
    and f2: "thread m2 = At_loop" "m_queue m2 = []" "world m2 = u" "pushed m2 = [p]" "waiter m2 0 = Not_waiting"
      "completed m2 = [p]" "stopped_by m2 = []"
    using f1 by (simp add: t)
  define m3 where "m3 = (moves 0 Polling m2)\<lparr>called := (called m2)(0 := length (pushed m2))\<rparr>"
  define m4 where "m4 = (moves 0 Found_empty m3)\<lparr>seen := (seen m3)(0 := length (pushed m3))\<rparr>"
  define m5 where "m5 = (moves 0 Joining m4)\<lparr>m_needed := False, stopped_by := stopped_by m4 @ [0]\<rparr>"
  define m6 where "m6 = m5\<lparr>thread := Returned\<rparr>"
  note ms = m3_def m4_def m5_def m6_def
  have "comm_step client put complete m2 m3" unfolding m3_def by (rule wait_called) (simp_all add: f2 alive_def)
  moreover have "comm_step client put complete m3 m4"
    unfolding m4_def by (rule wait_empty) (simp_all add: m3_def f2 queue_empty_def alive_def)
  moreover have "comm_step client put complete m4 m5"
    unfolding m5_def by (rule wait_stops) (simp_all add: m3_def m4_def f2 alive_def)
  moreover have "comm_step client put complete m5 m6"
    unfolding m6_def by (rule loop_ends) (simp_all add: m3_def m4_def m5_def f2)
  moreover have "comm_step client put complete m6 (moves 0 Wait_returned m6)"
    by (rule wait_joined) (simp_all add: m5_def m6_def)
  ultimately have "comm_run client put complete m2 (moves 0 Wait_returned m6)"
    by (metis run_first run_nothing)
  with r1 r2 have "comm_run client put complete (machine_new modes w) (moves 0 Wait_returned m6)"
    by (metis run_trans)
  then show thesis by (rule that) (simp_all add: ms f2)
qed

text \<open>The communicator cannot be used again: a client that pushes, waits, pushes and waits is told by the second \<open>wait\<close>,
  which returns, nothing of its second block, which nothing will ever send.\<close>

theorem second_wait_gives_up:
  assumes "mode modes Threads" "put p w = (Inr (), v)" "complete p v = Some (Inr (), u)"
  shows "\<exists>m. comm_run client put complete (machine_new modes w) m \<and> waiter m 0 = Gave_up \<and> thread m = Returned
    \<and> pushed m = [p, q] \<and> completed m = [p] \<and> m_queue m = [q]"
proof -
  obtain m where m: "comm_run client put complete (machine_new modes w) m" "waiter m 0 = Wait_returned" "world m = u"
    "pushed m = [p]" "m_queue m = []" "completed m = [p]" "stopped_by m = [0]"
    by (rule one_block_run [of modes put p w v complete u client]) (use assms in auto)
  have t: "thread m = Returned" and "\<not> m_needed m"
    using wait_returned(1) [OF m(1,2)] flow_run(2) [OF m(1)] m(7) by (auto simp: waits_def)
  define m1 where "m1 = (push q m)\<lparr>pushed := [p, q]\<rparr>"
  define m2 where "m2 = (moves 0 Polling m1)\<lparr>called := (called m1)(0 := length (pushed m1))\<rparr>"
  define m3 where "m3 = moves 0 Found_work m2"
  have "comm_step client put complete m m1"
    using client_push [of m client put complete q] t m(4) by (simp add: m1_def alive_def)
  moreover have "comm_step client put complete m1 m2"
    unfolding m2_def by (rule wait_called) (simp_all add: m1_def alive_def t m(2))
  moreover have "comm_step client put complete m2 m3"
    unfolding m3_def by (rule wait_not_empty) (simp_all add: m2_def m1_def alive_def t queue_empty_def)
  moreover have "comm_step client put complete m3 (moves 0 Gave_up m3)"
    by (rule wait_gives_up) (simp_all add: m3_def m2_def m1_def alive_def t \<open>\<not> m_needed m\<close>)
  ultimately have "comm_run client put complete (machine_new modes w) (moves 0 Gave_up m3)"
    using m(1) by (metis run_step)
  then show ?thesis by (intro exI [of _ "moves 0 Gave_up m3"]) (simp add: m3_def m2_def m1_def t m)
qed

definition toy_put :: "nat \<Rightarrow> nat list \<Rightarrow> unit outcome \<times> nat list" where
  "toy_put p w = (Inr (), w @ [p])"

definition toy_complete :: "nat \<Rightarrow> nat list \<Rightarrow> (unit outcome \<times> nat list) option" where
  "toy_complete p w = Some (Inr (), w)"

definition toy_client :: "nat list \<Rightarrow> nat list \<Rightarrow> bool" where
  "toy_client w v = False"



definition toy_machine :: "(nat, nat list) machine" where
  "toy_machine = \<lparr>m_batch_size = 3, m_needed = True, m_queue = [5, 6, 7, 8], thread = In_batch, waiter = (\<lambda>_. Not_waiting),
     world = [], pushed = [5, 6, 7, 8], written = [], completed = [], called = (\<lambda>_. 0), seen = (\<lambda>_. 0), stopped_by = []\<rparr>"

theorem thread_refines_batch_witness:
  "\<exists>n. comm_run toy_client toy_put toy_complete toy_machine n \<and> world n = [5, 6, 7] \<and> m_queue n = [8] \<and> completed n = [5, 6, 7]"
proof -
  have "comm_batch toy_put toy_complete (toy_machine, world toy_machine)
      = Some (Inr (), (toy_machine\<lparr>m_queue := [8]\<rparr>, [5, 6, 7]))"
    by (simp add: comm_batch_def take_batch_take toy_machine_def toy_put_def toy_complete_def)
  from thread_refines_batch [OF this] show ?thesis by (auto simp: toy_machine_def)
qed

end
