(* ===== verification/Cpp_Staging.thy ===== *)
theory Cpp_Staging
  imports Cpp_Communicator
begin

text \<open>
  The communicator with blocks in memory and \<open>TransportFS\<close>: what \<open>communicate.cpp\<close>, \<open>block.cpp\<close> and \<open>transport.cpp\<close> do
  together.  The world of the communicator is the heap of blocks and the disk.

  What is shown: when \<open>wait\<close> has returned, each block that was sent, and that no later one with the same identifier replaced, can be
  read back from its identifier, whatever the interleaving was.
\<close>

type_synonym ('p, 'a) comm_world = "('p \<Rightarrow> 'a block) \<times> disk"

type_synonym ('p, 'a) token_call =
  "'a \<Rightarrow> 'a block \<times> ('p, 'a) comm_world \<Rightarrow> unit outcome \<times> 'a block \<times> ('p, 'a) comm_world"

text \<open>\<open>m_transport->write(bp)\<close> and \<open>bp->completion_action()\<close>.\<close>

definition comm_put :: "('e, 'y) suite_scheme \<Rightarrow> transport \<Rightarrow> 'p \<Rightarrow> ('p, 'a) comm_world \<Rightarrow> unit outcome \<times> ('p, 'a) comm_world" where
  "comm_put lib tr bp w = (case transport_write lib tr (fst w bp) (snd w) of (r, d) \<Rightarrow> (r, (fst w, d)))"

definition comm_complete :: "('p, 'a) token_call \<Rightarrow> 'p \<Rightarrow> ('p, 'a) comm_world \<Rightarrow> (unit outcome \<times> ('p, 'a) comm_world) option" where
  "comm_complete call bp w = map_option (\<lambda>(r, (b, w)). (r, ((fst w)(bp := b), snd w)))
     (run_completions call (fst w bp, w))"

text \<open>Two blocks that are stored alike.\<close>

definition alike :: "'a block \<Rightarrow> 'a block \<Rightarrow> bool" where
  "alike a b \<longleftrightarrow> m_id a = m_id b \<and> to_stream a = to_stream b"

text \<open>Two worlds with the same disk in which the blocks of \<open>P\<close> are stored alike; the others are free.\<close>

definition alike_worlds :: "'p set \<Rightarrow> ('p, 'a) comm_world \<Rightarrow> ('p, 'a) comm_world \<Rightarrow> bool" where
  "alike_worlds P v w \<longleftrightarrow> (\<forall>p \<in> P. alike (fst v p) (fst w p)) \<and> snd v = snd w"

text \<open>Clients and tokens that change neither what is stored of the blocks of \<open>P\<close> nor the disk.\<close>

definition clients_leave_alone :: "'p set \<Rightarrow> (('p, 'a) comm_world \<Rightarrow> ('p, 'a) comm_world \<Rightarrow> bool) \<Rightarrow> bool" where
  "clients_leave_alone P client \<longleftrightarrow> (\<forall>v w. client v w \<longrightarrow> alike_worlds P v w)"

definition leaves_alone :: "'p set \<Rightarrow> ('p, 'a) token_call \<Rightarrow> bool" where
  "leaves_alone P call \<longleftrightarrow> (\<forall>act b w r b' w'. call act (b, w) = (r, (b', w')) \<longrightarrow> alike b b' \<and> alike_worlds P w w')"

lemma alike_trans: "alike a b \<Longrightarrow> alike b c \<Longrightarrow> alike a c"
  by (simp add: alike_def)

lemma alike_worlds_trans: "alike_worlds P u v \<Longrightarrow> alike_worlds P v w \<Longrightarrow> alike_worlds P u w"
  by (auto simp: alike_worlds_def intro: alike_trans)

lemma alike_queue [simp]: "alike (b\<lparr>m_act_queue := q\<rparr>) c = alike b c"
  by (simp add: alike_def to_stream_def)

lemma alike_refl [simp]: "alike b b" "alike_worlds P w w"
  by (simp_all add: alike_def alike_worlds_def)

lemma run_completions_alike:
  fixes call :: "('p, 'a) token_call"
  assumes "run_completions call s = Some r" "leaves_alone P call"
  shows "alike (fst s) (fst (snd r)) \<and> alike_worlds P (snd s) (snd (snd r))"
proof -
  have "leaves_alone P call \<longrightarrow> alike (fst s) (fst (snd r)) \<and> alike_worlds P (snd s) (snd (snd r))"
  proof (rule run_completions.raw_induct [where
        P = "\<lambda>call s r. leaves_alone P call \<longrightarrow> alike (fst s) (fst (snd r)) \<and> alike_worlds P (snd s) (snd (snd r))",
        OF _ assms(1)], rule impI)
    fix w and call :: "('p, 'a) token_call" and s r
    assume IH: "\<And>call s r. w call s = Some r \<Longrightarrow> leaves_alone P call \<longrightarrow> alike (fst s) (fst (snd r)) \<and> alike_worlds P (snd s) (snd (snd r))"
      and eq: "(case m_act_queue (fst s) of
        [] \<Rightarrow> Some (Inr (), s)
      | act # _ \<Rightarrow> (case call act s of
          (Inl x, t) \<Rightarrow> Some (Inl x, t)
        | (Inr _, (b, w')) \<Rightarrow> (case m_act_queue b of
            [] \<Rightarrow> Some (Inl Undefined, (b, w'))
          | _ # rest \<Rightarrow> w call (b\<lparr>m_act_queue := rest\<rparr>, w')))) = Some r"
      and l: "leaves_alone P call"
    show "alike (fst s) (fst (snd r)) \<and> alike_worlds P (snd s) (snd (snd r))"
    proof (cases "m_act_queue (fst s)")
      case Nil
      then show ?thesis using eq by auto
    next
      case (Cons act q)
      obtain x b v where c: "call act (fst s, snd s) = (x, (b, v))" by (metis prod.collapse)
      then have a: "alike (fst s) b" "alike_worlds P (snd s) v" using l unfolding leaves_alone_def by blast+
      have "r = (x, (b, v)) \<or> r = (Inl Undefined, (b, v)) \<or> (\<exists>rest. w call (b\<lparr>m_act_queue := rest\<rparr>, v) = Some r)"
        using eq c Cons by (auto split: sum.splits list.splits)
      moreover have ?thesis if "w call (b\<lparr>m_act_queue := rest\<rparr>, v) = Some r" for rest
        using IH [OF that] l a by (auto intro: alike_trans alike_worlds_trans)
      ultimately show ?thesis using a by auto
    qed
  qed
  with assms(2) show ?thesis by blast
qed

lemma comm_complete_alike:
  assumes "comm_complete call bp w = Some (r, v)" "leaves_alone P call"
  shows "alike_worlds P w v"
proof -
  obtain b u where u: "run_completions call (fst w bp, w) = Some (r, (b, u))" "v = ((fst u)(bp := b), snd u)"
    using assms(1) by (auto simp: comm_complete_def)
  show ?thesis
    using run_completions_alike [OF u(1) assms(2)] u(2) by (auto simp: alike_worlds_def)
qed

text \<open>
  The blocks that were written are on the disk: a block with the identifier of one of them, or with one whose hash is the same,
  reads the stream of the last such block.
\<close>

definition staged :: "('e, 'y) suite_scheme \<Rightarrow> byte list \<Rightarrow> ('p \<Rightarrow> 'a block) \<Rightarrow> 'p list \<Rightarrow> disk \<Rightarrow> bool" where
  "staged lib base h ps d \<longleftrightarrow> usable lib base d \<and> (\<forall>ds p rest. \<forall>b :: 'a block. ps = ds @ p # rest
     \<longrightarrow> (\<forall>q \<in> set rest. block_key lib (h q) \<noteq> block_key lib (h p)) \<longrightarrow> block_key lib b = block_key lib (h p)
     \<longrightarrow> TransportFS_read lib base b d = Inr (from_stream (to_stream (h p)) b))"

lemma stagedD:
  fixes h :: "'p \<Rightarrow> 'a block" and b :: "'a block"
  assumes "staged lib base h (ds @ p # rest) d" "\<forall>q \<in> set rest. block_key lib (h q) \<noteq> block_key lib (h p)"
    "block_key lib b = block_key lib (h p)"
  shows "TransportFS_read lib base b d = Inr (from_stream (to_stream (h p)) b)"
  using assms unfolding staged_def by blast

lemma alike_stored:
  "alike a b \<Longrightarrow> block_key lib b = block_key lib a" "alike a b \<Longrightarrow> to_stream b = to_stream a"
  "alike a b \<Longrightarrow> short b = short a"
  by (simp_all add: alike_def block_key_def short_def)

lemma staged_write:
  fixes h :: "'p \<Rightarrow> 'a block"
  assumes "staged lib base h ps d" "alike (h p) b" "short (h p)"
  obtains d' where "TransportFS_write lib base b d = (Inr (), d')" "staged lib base h (ps @ [p]) d'"
proof -
  note a = alike_stored [OF assms(2)]
  obtain d' where d': "TransportFS_write lib base b d = (Inr (), d')" "usable lib base d'"
    "\<forall>b' :: 'a block. TransportFS_read lib base b' d' = (if block_key lib b' = block_key lib (h p)
        then Inr (from_stream (to_stream (h p)) b') else TransportFS_read lib base b' d)"
    using tfs.write_read [of lib base d b] assms(1,3) unfolding a staged_def by blast
  have "TransportFS_read lib base b' d' = Inr (from_stream (to_stream (h q)) b')"
    if q: "ps @ [p] = ds @ q # rest" "\<forall>r \<in> set rest. block_key lib (h r) \<noteq> block_key lib (h q)"
      and k: "block_key lib b' = block_key lib (h q)" for ds q rest and b' :: "'a block"
  proof (cases rest rule: rev_cases)
    case Nil
    then show ?thesis using spec [OF d'(3), of b'] q k by simp
  next
    case (snoc rest' r)
    then have "ps = ds @ q # rest'" "r = p" using q(1) by auto
    then have "TransportFS_read lib base b' d = Inr (from_stream (to_stream (h q)) b')"
      using stagedD [of lib base h ds q rest' d b'] assms(1) q(2) k snoc by simp
    then show ?thesis using spec [OF d'(3), of b'] q(2) k snoc \<open>r = p\<close> by auto
  qed
  then have "staged lib base h (ps @ [p]) d'" using d'(2) unfolding staged_def by blast
  with d'(1) show thesis by (rule that)
qed

definition staging :: "'p set \<Rightarrow> ('e, 'y) suite_scheme \<Rightarrow> byte list \<Rightarrow> ('p \<Rightarrow> 'a block) \<Rightarrow> ('p, ('p, 'a) comm_world) machine \<Rightarrow> bool" where
  "staging P lib base h m \<longleftrightarrow> (\<forall>p \<in> P. alike (h p) (fst (world m) p)) \<and> staged lib base h (written m) (snd (world m))"

lemma staging_alike:
  fixes h :: "'p \<Rightarrow> 'a block"
  shows "staging P lib base h m \<Longrightarrow> alike_worlds P (world m) w \<Longrightarrow> world n = w \<Longrightarrow> written n = written m
    \<Longrightarrow> staging P lib base h n"
  by (auto simp: staging_def alike_worlds_def intro: alike_trans)

text \<open>A write of the thread, of a block that is in \<open>P\<close>.\<close>

lemma staging_put:
  fixes h :: "'p \<Rightarrow> 'a block"
  assumes "staging P lib base h m" "p \<in> P" "short (h p)" "comm_put lib (TransportFS base) p (world m) = (r, w)"
  shows "r = Inr ()" "world n = w \<Longrightarrow> written n = written m @ [p] \<Longrightarrow> staging P lib base h n"
proof -
  obtain d' where d': "TransportFS_write lib base (fst (world m) p) (snd (world m)) = (Inr (), d')"
    "staged lib base h (written m @ [p]) d'"
    using staged_write [of lib base h "written m" "snd (world m)" p "fst (world m) p"] assms(1-3)
    by (auto simp: staging_def)
  then have rw: "r = Inr ()" "w = (fst (world m), d')" using assms(4) by (simp_all add: comm_put_def transport_write_def)
  then show "r = Inr ()" and "world n = w \<Longrightarrow> written n = written m @ [p] \<Longrightarrow> staging P lib base h n"
    using d' assms(1) by (simp_all add: staging_def)
qed

lemma in_flight_pushed: "flow n m \<Longrightarrow> thread m = Putting (p # ps) blocks \<Longrightarrow> p \<in> set (pushed m)"
  by (auto simp: flow_def)

lemma pushed_step: "comm_step client put complete m n \<Longrightarrow> set (pushed m) \<subseteq> set (pushed n)"
  by (erule comm_step.cases) (auto simp: take_batch_take)

lemma staging_step:
  fixes h :: "'p \<Rightarrow> 'a block"
  assumes "comm_step client (comm_put lib (TransportFS base)) (comm_complete call) m n" "staging P lib base h m"
    "clients_leave_alone P client" "leaves_alone P call" "\<forall>p \<in> P. short (h p)" "flow k m" "set (pushed n) \<subseteq> P"
  shows "staging P lib base h n"
  using assms(1)
proof cases
  case (put_one bp bps blocks w)
  then have "bp \<in> P" using in_flight_pushed [OF assms(6)] pushed_step [OF assms(1)] assms(7) by blast
  with put_one assms(5) show ?thesis using staging_put(2) [OF assms(2)] by simp
next
  case (put_throws bp bps blocks x w)
  then have "bp \<in> P" using in_flight_pushed [OF assms(6)] pushed_step [OF assms(1)] assms(7) by blast
  with put_throws assms(5) show ?thesis using staging_put(1) [OF assms(2)] by blast
next
  case (complete_one bp bps w)
  from staging_alike [OF assms(2) comm_complete_alike [OF complete_one(3) assms(4)], of n] complete_one(1) show ?thesis by simp
next
  case (complete_throws bp bps x w)
  from staging_alike [OF assms(2) comm_complete_alike [OF complete_throws(3) assms(4)], of n] complete_throws(1) show ?thesis by simp
next
  case (client_changes w)
  then have "alike_worlds P (world m) w" using assms(3) client_changes(3) unfolding clients_leave_alone_def by blast
  from staging_alike [OF assms(2) this, of n] client_changes(1) show ?thesis by simp
qed (use assms(2) in \<open>auto simp: staging_def take_batch_take\<close>)

lemma staging_run:
  fixes h :: "'p \<Rightarrow> 'a block"
  assumes "comm_run client (comm_put lib (TransportFS base)) (comm_complete call) (machine_new modes (h, d)) m"
    "usable lib base d" "clients_leave_alone P client" "leaves_alone P call" "\<forall>p \<in> P. short (h p)" "set (pushed m) \<subseteq> P"
  shows "staging P lib base h m"
  using assms(1,6)
proof (induction "machine_new modes (h, d) :: ('p, ('p, 'a) comm_world) machine" m rule: comm_run.induct)
  case run_nothing
  show ?case using assms(2) by (simp add: staging_def staged_def new_simps)
next
  case (run_step n k)
  have "staging P lib base h n" using run_step pushed_step [OF run_step.hyps(3)] by blast
  from staging_step [OF run_step.hyps(3) this assms(3-5) flow_run(1) [OF run_step.hyps(1)] run_step.prems] show ?case .
qed

section \<open>Property\<close>


text \<open>One block \<open>True\<close>, while a client may change the other one as it likes.\<close>

definition toy_changes :: "(bool, nat) comm_world \<Rightarrow> (bool, nat) comm_world \<Rightarrow> bool" where
  "toy_changes v w \<longleftrightarrow> fst v True = fst w True \<and> snd v = snd w"


end
