(* ===== verification/Cpp_Config.thy ===== *)
theory Cpp_Config
  imports Cpp_Transport
begin

text \<open>
  \<open>config.h\<close> and \<open>config.cpp\<close>: the parameters of a new configuration, and configurations, which are kept
  encrypted in a file.  Boost's text archive is a pair of functions: what \<open>serialize\<close> writes is the identifier of the root and the
  key of the configuration.  The transport of a configuration is a shared pointer, which may be null.

  What is shown: a transport is made once and has the requested type; and what survives saving and loading.
\<close>

datatype transport_type = invalid_transport | base_transport | no_transport | fs_transport

definition transport_type_of :: "transport \<Rightarrow> transport_type" where
  "transport_type_of tr = (case tr of NoTransport \<Rightarrow> no_transport | TransportFS base \<Rightarrow> fs_transport)"

section \<open>Parameters\<close>

record config_param =
  param_config_name :: "byte list"
  param_passphrase :: "byte list"
  param_local_dir :: "byte list"
  param_remote_dir :: "byte list"
  param_remote_host :: "byte list"
  param_transport_type :: transport_type
  param_transport :: "transport option"

definition ConfigParam :: "transport_type \<Rightarrow> config_param outcome" where
  "ConfigParam in_transport = (if in_transport = invalid_transport then Inl Assertion
     else Inr \<lparr>param_config_name = [], param_passphrase = [], param_local_dir = [], param_remote_dir = [],
       param_remote_host = [], param_transport_type = in_transport, param_transport = None\<rparr>)"

definition make_transport :: "config_param \<Rightarrow> disk \<Rightarrow> transport outcome \<times> disk" where
  "make_transport p d =
     (if param_transport_type p = invalid_transport then (Inl Runtime_error, d)
      else if param_transport_type p = no_transport then (Inr NoTransport, d)
      else if param_transport_type p = fs_transport then TransportFS_new (param_local_dir p) d
      else (Inl Runtime_error, d))"

text \<open>\<open>ConfigParam::transport\<close>; the member \<open>m_transport\<close> is mutable.\<close>

definition get_transport :: "config_param \<times> disk \<Rightarrow> transport outcome \<times> config_param \<times> disk" where
  "get_transport s = (case s of (p, d) \<Rightarrow> case param_transport p of
     Some tr \<Rightarrow> (Inr tr, p, d)
   | None \<Rightarrow> (case make_transport p d of
       (Inl x, d) \<Rightarrow> (Inl x, p, d)
     | (Inr tr, d) \<Rightarrow> (Inr tr, p\<lparr>param_transport := Some tr\<rparr>, d)))"

section \<open>Configurations\<close>

record 'e boost = "'e libraries" +
  oarchive :: "block_id \<times> byte list \<Rightarrow> byte list"
  iarchive :: "byte list \<Rightarrow> (block_id \<times> byte list) option"

record config =
  cfg_transport :: "transport option"
  cfg_root_id :: block_id
  cfg_root_crypto_key :: "byte list"
  cfg_config_name :: "byte list"
  cfg_crypto_key :: "byte list"

text \<open>The members before the body of a constructor; the identifier of the root is a random one.\<close>

definition blank_config :: "('e, 'z) boost_scheme \<Rightarrow> 'e \<Rightarrow> config \<times> 'e" where
  "blank_config lib e = (let (i, e) = BlockId_random lib e in
     (\<lparr>cfg_transport = None, cfg_root_id = i, cfg_root_crypto_key = [], cfg_config_name = [], cfg_crypto_key = []\<rparr>, e))"

definition Config_new ::
    "('e, 'z) boost_scheme \<Rightarrow> 'e \<Rightarrow> config_param \<times> disk \<Rightarrow> config outcome \<times> 'e \<times> config_param \<times> disk" where
  "Config_new lib e s = (let (c, e) = blank_config lib e;
       c = (if param_passphrase (fst s) \<noteq> [] then c\<lparr>cfg_crypto_key := phrase_to_key lib (param_passphrase (fst s))\<rparr> else c);
       (r, s) = get_transport s in
     (try_bind r (\<lambda>tr. Inr (c\<lparr>cfg_transport := Some tr\<rparr>)), e, s))"

text \<open>\<open>serialize\<close>, in both directions.\<close>

definition serialize_out :: "('e, 'z) boost_scheme \<Rightarrow> config \<Rightarrow> byte list" where
  "serialize_out lib c = oarchive lib (cfg_root_id c, cfg_crypto_key c)"

definition serialize_in :: "('e, 'z) boost_scheme \<Rightarrow> byte list \<Rightarrow> config \<Rightarrow> config outcome" where
  "serialize_in lib big_text c = (case iarchive lib big_text of
     None \<Rightarrow> Inl Archive_exception
   | Some (i, k) \<Rightarrow> Inr (c\<lparr>cfg_root_id := i, cfg_crypto_key := k\<rparr>))"

text \<open>
  The constructor that loads a file.  For a file that does not exist \<open>tellg\<close> is \<open>-1\<close>, and an array of that size
  cannot be allocated.
\<close>

definition Config_load ::
    "('e, 'z) boost_scheme \<Rightarrow> byte list \<Rightarrow> byte list \<Rightarrow> 'e \<Rightarrow> disk \<Rightarrow> config outcome option \<times> 'e" where
  "Config_load lib in_config_name in_passphrase e d = (let (c, e) = blank_config lib e in
     (if in_config_name = [] then Some (Inr c)
      else let c = c\<lparr>cfg_config_name := in_config_name, cfg_crypto_key := phrase_to_key lib in_passphrase\<rparr> in
        case d_files d in_config_name of
          None \<Rightarrow> Some (Inl Bad_alloc)
        | Some content \<Rightarrow> (case read_sized content of
            Inl x \<Rightarrow> Some (Inl x)
          | Inr cipher_text \<Rightarrow> map_option (\<lambda>r. try_bind r (\<lambda>big_text. serialize_in lib big_text c))
              (unseal lib cipher_text (cfg_crypto_key c))), e))"

definition Config_save :: "('e, 'z) boost_scheme \<Rightarrow> config \<Rightarrow> disk \<Rightarrow> unit outcome \<times> disk" where
  "Config_save lib c d =
     (if cfg_config_name c = [] \<or> cfg_crypto_key c = [] then (Inl Assertion, d)
      else case seal lib (serialize_out lib c) (cfg_crypto_key c) of
        Inl x \<Rightarrow> (Inl x, d)
      | Inr cipher_text \<Rightarrow> write_through ''Config::save()'' (cfg_config_name c) cipher_text d)"

definition Config_save_as ::
    "('e, 'z) boost_scheme \<Rightarrow> byte list \<Rightarrow> byte list \<Rightarrow> config \<Rightarrow> disk \<Rightarrow> unit outcome \<times> config \<times> disk" where
  "Config_save_as lib in_config_name in_passphrase c d =
     (if in_config_name = [] \<or> in_passphrase = [] then (Inl Assertion, c, d)
      else let c = c\<lparr>cfg_config_name := in_config_name, cfg_crypto_key := phrase_to_key lib in_passphrase\<rparr>;
               (r, d) = Config_save lib c d in (r, c, d))"

definition set_root_id :: "('e, 'z) boost_scheme \<Rightarrow> block_id \<Rightarrow> config \<Rightarrow> disk \<Rightarrow> unit outcome \<times> config \<times> disk" where
  "set_root_id lib in_id c d = (let c = c\<lparr>cfg_root_id := in_id\<rparr>; (r, d) = Config_save lib c d in (r, c, d))"

section \<open>Lemmas\<close>

definition archive_works :: "('e, 'z) boost_scheme \<Rightarrow> bool" where
  "archive_works lib \<longleftrightarrow> (\<forall>x. iarchive lib (oarchive lib x) = Some x)"

lemma phrase_to_key_nonempty: "p \<noteq> [] \<Longrightarrow> phrase_to_key lib p \<noteq> []"
proof -
  have "p \<noteq> [] \<Longrightarrow> (phrase_round lib ^^ n) p \<noteq> []" for n
    by (induction n) (auto simp: phrase_round_def Let_def)
  then show "p \<noteq> [] \<Longrightarrow> phrase_to_key lib p \<noteq> []" by (simp add: phrase_to_key_def)
qed

lemma make_transport_type:
  "make_transport p d = (Inr tr, d') \<Longrightarrow> transport_type_of tr = param_transport_type p"
  by (auto simp: make_transport_def transport_type_of_def TransportFS_new_def throw_system_error_def
      split: if_splits prod.splits option.splits mkdir_errno.splits)

lemma save_works:
  assumes "libraries_work lib" "cfg_config_name c \<noteq> []" "cfg_crypto_key c \<noteq> []"
    "length (serialize_out lib c) < 2147483648" "can_open_to_write d (cfg_config_name c)" "d_room d = None"
  obtains x where "seal lib (serialize_out lib c) (cfg_crypto_key c) = Inr x"
    "unseal lib x (cfg_crypto_key c) = Some (Inr (serialize_out lib c))"
    "Config_save lib c d = (Inr (), d\<lparr>d_files := (d_files d)(cfg_config_name c \<mapsto> x)\<rparr>)"
proof -
  obtain x where x: "seal lib (serialize_out lib c) (cfg_crypto_key c) = Inr x"
    "unseal lib x (cfg_crypto_key c) = Some (Inr (serialize_out lib c))"
    using unseal_seal [OF assms(1,4)] .
  with assms show thesis by (intro that) (simp_all add: Config_save_def write_through_roomy)
qed

section \<open>Properties\<close>

text \<open>C23. A configuration that was saved under a name and a passphrase is loaded with the same name and passphrase: the
  identifier of its root and its key come back, but not its transport, which is a null pointer
  (a block with it cannot be written or read), and not the key of the root.\<close>

theorem config_roundtrip:
  fixes b :: "'a block"
  assumes "libraries_work lib" "archive_works lib" "name \<noteq> []" "phrase \<noteq> []"
    "length (oarchive lib (cfg_root_id c, phrase_to_key lib phrase)) < 2147483648"
    "\<forall>x. seal lib (oarchive lib (cfg_root_id c, phrase_to_key lib phrase)) (phrase_to_key lib phrase) = Inr x
      \<longrightarrow> length x < 2147483648"
    "can_open_to_write d name" "d_room d = None"
  shows "\<exists>c' d' l e'. Config_save_as lib name phrase c d = (Inr (), c', d')
      \<and> Config_load lib name phrase e d' = (Some (Inr l), e')
      \<and> cfg_root_id l = cfg_root_id c \<and> cfg_crypto_key l = cfg_crypto_key c' \<and> cfg_config_name l = name
      \<and> cfg_root_crypto_key l = [] \<and> cfg_transport l = None
      \<and> (m_transport b = cfg_transport l \<longrightarrow> fst (Block_write lib b d') = Inl Undefined \<and> Block_read lib b d' = Inl Undefined)"
proof -
  let ?k = "phrase_to_key lib phrase"
  let ?c = "c\<lparr>cfg_config_name := name, cfg_crypto_key := ?k\<rparr>"
  have k: "?k \<noteq> []" using assms(4) by (rule phrase_to_key_nonempty)
  obtain x where x: "seal lib (serialize_out lib ?c) ?k = Inr x" "unseal lib x ?k = Some (Inr (serialize_out lib ?c))"
    "Config_save lib ?c d = (Inr (), d\<lparr>d_files := (d_files d)(name \<mapsto> x)\<rparr>)"
    using save_works [OF assms(1), of ?c d] assms k by (auto simp: serialize_out_def)
  have "length x < 2147483648" using assms(6) x(1) by (simp add: serialize_out_def)
  then have r: "read_sized x = Inr x" by (rule read_sized_short)
  obtain l0 e' where l0: "blank_config lib e = (l0, e')" by fastforce
  then have b: "cfg_transport l0 = None" "cfg_root_crypto_key l0 = []"
    by (auto simp: blank_config_def split: prod.splits)
  let ?d = "d\<lparr>d_files := (d_files d)(name \<mapsto> x)\<rparr>"
  let ?l = "l0\<lparr>cfg_config_name := name, cfg_crypto_key := ?k, cfg_root_id := cfg_root_id c\<rparr>"
  have "Config_save_as lib name phrase c d = (Inr (), ?c, ?d)"
    using assms(3,4) x(3) by (simp add: Config_save_as_def)
  moreover have "Config_load lib name phrase e ?d = (Some (Inr ?l), e')"
    using assms(2,3) x(2) r by (simp add: Config_load_def l0 serialize_in_def serialize_out_def archive_works_def)
  ultimately show ?thesis
    by (intro exI [of _ ?c] exI [of _ ?d] exI [of _ ?l] exI [of _ e'])
      (simp add: b Block_write_def Block_read_def)
qed

text \<open>The transport of a parameter set has the type that was asked for, is made once, and every later request
  gives the same one without touching the disk; asking for the base class passes the assertion of the constructor and fails
  here, and a failed request leaves nothing behind, so that it can be repeated.\<close>

theorem transport_made_once:
  assumes "param_transport p = None" "get_transport (p, d) = (r, p', d')"
  shows "r = Inr tr \<Longrightarrow> transport_type_of tr = param_transport_type p
      \<and> param_transport_type p' = param_transport_type p \<and> get_transport (p', d'') = (Inr tr, p', d'')"
    and "r = Inl x \<Longrightarrow> p' = p \<and> d' = d"
    and "param_transport_type p \<in> {invalid_transport, base_transport} \<Longrightarrow> r = Inl Runtime_error"
proof -
  show "r = Inr tr \<Longrightarrow> transport_type_of tr = param_transport_type p
      \<and> param_transport_type p' = param_transport_type p \<and> get_transport (p', d'') = (Inr tr, p', d'')"
    using assms make_transport_type by (auto simp: get_transport_def split: prod.splits sum.splits)
  show "r = Inl x \<Longrightarrow> p' = p \<and> d' = d"
    using assms by (auto simp: get_transport_def make_transport_def TransportFS_new_def throw_system_error_def mkdir_cpp_def
        split: prod.splits sum.splits if_splits option.splits mkdir_errno.splits)
  show "param_transport_type p \<in> {invalid_transport, base_transport} \<Longrightarrow> r = Inl Runtime_error"
    using assms by (auto simp: get_transport_def make_transport_def)
qed

section \<open>An instance\<close>

definition toy_boost :: "nat boost" where
  "toy_boost = libraries.extend toy_libraries
     \<lparr>oarchive = \<lambda>(i, k). replicate (length (as_string i)) 1 @ 0 # as_string i @ k,
      iarchive = \<lambda>x. let n = length (takeWhile (\<lambda>b. b = 1) x); y = drop (Suc n) x in Some (BlockId (take n y), drop n y)\<rparr>"

lemma toy_boost_fields [simp]:
  "sha256 toy_boost = sha256 toy_libraries" "base64 toy_boost = base64 toy_libraries"
  "aes_cbc_encrypt toy_boost = (\<lambda>key iv p. Some (key @ iv @ p))" "aes_cbc_decrypt toy_boost = aes_cbc_decrypt toy_libraries"
  "rng toy_boost = rng toy_libraries" "bz toy_boost = bz_toy"
  by (simp_all add: toy_boost_def toy_libraries_def libraries.defs suite.defs toy_suite_def)

lemma toy_boost_works: "libraries_work toy_boost" "archive_works toy_boost"
proof -
  note w = libraries_workD [OF toy_libraries_work]
  show "libraries_work toy_boost"
    using w(1,4) bz_toy_works
    by (auto simp: libraries_work_def digests_work_def aes_works_def rng_works_def)
  have "takeWhile (\<lambda>b. b = 1) (replicate n 1 @ 0 # xs) = replicate n (1 :: byte)" for n xs
    by (induction n) auto
  then show "archive_works toy_boost"
    by (auto simp: archive_works_def toy_boost_def libraries.defs Let_def split: block_id.splits)
qed

theorem config_roundtrip_witness:
  "\<exists>c' d' l e'. Config_save_as toy_boost [99] [1, 2] (fst (blank_config toy_boost 0)) toy_disk = (Inr (), c', d')
      \<and> Config_load toy_boost [99] [1, 2] 5 d' = (Some (Inr l), e') \<and> cfg_transport l = None
      \<and> cfg_root_id l = cfg_root_id (fst (blank_config toy_boost 0)) \<and> cfg_crypto_key l = cfg_crypto_key c'"
proof -
  let ?c = "fst (blank_config toy_boost 0)"
  let ?k = "phrase_to_key toy_boost [1, 2]"
  have k: "length ?k = 1602"
    using phrase_rounds [of toy_boost 50 "[1, 2]"] by (simp add: phrase_to_key_def)
  have i: "length (as_string (cfg_root_id ?c)) = 40"
    by (simp add: blank_config_def BlockId_random_def pseudo_random_string_def toy_libraries_def suite.defs toy_suite_def)
  have a: "length (oarchive toy_boost (cfg_root_id ?c, ?k)) = 1683"
    using k i by (simp add: toy_boost_def libraries.defs)
  have z: "\<forall>x. seal toy_boost (oarchive toy_boost (cfg_root_id ?c, ?k)) ?k = Inr x \<longrightarrow> length x < 2147483648"
  proof (intro allI impI)
    fix x
    assume "seal toy_boost (oarchive toy_boost (cfg_root_id ?c, ?k)) ?k = Inr x"
    moreover obtain iv where "init_key_iv toy_boost ?k = Inr (fixed16 ?k, iv)" "length iv = 16"
      using init_key_iv_ok [OF libraries_workD(1) [OF toy_boost_works(1)]] .
    ultimately show "length x < 2147483648"
      using a by (auto simp: seal_def compress_def output_max_size_def bz_toy_def encrypt_cpp_def)
  qed
  have o: "can_open_to_write toy_disk [99]" "d_room toy_disk = None"
    by (simp_all add: can_open_to_write_def dir_part_def dir_exists_def toy_disk_def toy_base_def)
  show ?thesis
    using config_roundtrip [OF toy_boost_works, of "[99]" "[1, 2]" ?c toy_disk, where b = "toy_block [] 0" and e = 5] a z o by auto
qed

theorem transport_made_once_witness:
  "\<exists>p p' d'. ConfigParam fs_transport = Inr p
      \<and> get_transport (p\<lparr>param_local_dir := toy_base\<rparr>, toy_disk\<lparr>d_dirs := {}\<rparr>) = (Inr (TransportFS toy_base), p', d')
      \<and> get_transport (p', toy_disk) = (Inr (TransportFS toy_base), p', toy_disk) \<and> toy_base \<in> d_dirs d'"
proof -
  obtain p where p: "ConfigParam fs_transport = Inr p" "param_transport p = None" "param_transport_type p = fs_transport"
    by (simp add: ConfigParam_def)
  let ?p = "p\<lparr>param_local_dir := toy_base\<rparr>" and ?d = "toy_disk\<lparr>d_dirs := {}\<rparr>"
  have g: "get_transport (?p, ?d) = (Inr (TransportFS toy_base), ?p\<lparr>param_transport := Some (TransportFS toy_base)\<rparr>,
      ?d\<lparr>d_dirs := {toy_base}\<rparr>)"
    using p by (simp add: get_transport_def make_transport_def TransportFS_new_def mkdir_cpp_def dir_part_def dir_exists_def
        toy_base_def toy_disk_def)
  have "param_transport ?p = None" using p(2) by simp
  from transport_made_once(1) [OF this g refl, of toy_disk] g p(1) show ?thesis by auto
qed

end
