(* ===== verification/Cpp_Root.thy ===== *)
theory Cpp_Root
  imports Cpp_Config "HOL-Library.List_Lexorder"
begin

text \<open>
  \<open>root.h\<close> and \<open>root.cpp\<close>: the root block, which maps names of stores to transports, and the two synchronous
  completion tokens.  \<open>std::map\<close> is the list of its entries in the order of its keys: strings compare
  bytewise, a proper prefix is smaller.  A stored transport is a shared pointer and may be null.

  What is shown: the stores refine a finite map, their names are listed in order and once each, and
  the token for waiting lets the waiter pass exactly after it was called.
\<close>

section \<open>The map of stores\<close>

type_synonym stores = "(byte list \<times> transport option) list"

fun stores_find :: "stores \<Rightarrow> byte list \<Rightarrow> transport option option" where
  "stores_find [] name = None"
| "stores_find ((key, tr) # rest) name =
     (if key = name then Some tr else if name < key then None else stores_find rest name)"

fun stores_put :: "byte list \<Rightarrow> transport option \<Rightarrow> stores \<Rightarrow> stores" where
  "stores_put name tr [] = [(name, tr)]"
| "stores_put name tr ((key, t) # rest) =
     (if name < key then (name, tr) # (key, t) # rest
      else if name = key then (name, tr) # rest
      else (key, t) # stores_put name tr rest)"

fun stores_erase :: "byte list \<Rightarrow> stores \<Rightarrow> stores" where
  "stores_erase name [] = []"
| "stores_erase name ((key, t) # rest) = (if name = key then rest else (key, t) # stores_erase name rest)"

record 'a root_block = "'a block" +
  m_stores :: stores

definition RootBlock_of :: "'a block \<Rightarrow> 'a root_block" where
  "RootBlock_of b = block.extend b \<lparr>m_stores = []\<rparr>"

definition RootBlock_CreateEmpty ::
    "('e, 'z) suite_scheme \<Rightarrow> transport option \<Rightarrow> byte list \<Rightarrow> 'e \<Rightarrow> 'a root_block \<times> 'e" where
  "RootBlock_CreateEmpty lib in_transport in_crypto_key e =
     (let (b, e) = Block_CreateEmpty lib in_transport in_crypto_key e in (RootBlock_of b, e))"

text \<open>The contents are ignored.\<close>

definition RootBlock_CreateByContent ::
    "('e, 'z) suite_scheme \<Rightarrow> transport option \<Rightarrow> byte list \<Rightarrow> byte list \<Rightarrow> 'e \<Rightarrow> 'a root_block \<times> 'e" where
  "RootBlock_CreateByContent lib in_transport in_crypto_key in_contents e =
     RootBlock_CreateEmpty lib in_transport in_crypto_key e"

definition RootBlock_CreateById :: "transport option \<Rightarrow> byte list \<Rightarrow> block_id \<Rightarrow> 'a root_block" where
  "RootBlock_CreateById in_transport in_crypto_key in_id =
     RootBlock_of (Block_CreateById in_transport in_crypto_key in_id)"

text \<open>
  \<open>m_stores[in_name] = param.transport()\<close>: whether the left side is evaluated first, which inserts a null pointer, is up to
  the compiler (\<open>lhs_first\<close>); it matters when the right side throws.  The second call of \<open>transport\<close> returns what the first
  one made.
\<close>

definition add_store ::
    "bool \<Rightarrow> byte list \<Rightarrow> ('a, 'z) root_block_scheme \<Rightarrow> config_param \<times> disk
      \<Rightarrow> transport outcome \<times> ('a, 'z) root_block_scheme \<times> config_param \<times> disk" where
  "add_store lhs_first in_name root s =
     (if stores_find (m_stores root) in_name \<noteq> None then (Inl Assertion, root, s)
      else let early = root\<lparr>m_stores := stores_put in_name None (m_stores root)\<rparr> in
        case get_transport s of
          (Inl x, s) \<Rightarrow> (Inl x, if lhs_first then early else root, s)
        | (Inr tr, s) \<Rightarrow> (case get_transport s of
            (r, s) \<Rightarrow> (r, root\<lparr>m_stores := stores_put in_name (Some tr) (m_stores root)\<rparr>, s)))"

definition get_store :: "byte list \<Rightarrow> ('a, 'z) root_block_scheme \<Rightarrow> transport option outcome" where
  "get_store in_name root = (case stores_find (m_stores root) in_name of
     None \<Rightarrow> Inl Assertion | Some tr \<Rightarrow> Inr tr)"

definition remove_store :: "byte list \<Rightarrow> ('a, 'z) root_block_scheme \<Rightarrow> ('a, 'z) root_block_scheme outcome" where
  "remove_store in_name root = (case stores_find (m_stores root) in_name of
     None \<Rightarrow> Inl Assertion
   | Some _ \<Rightarrow> Inr (root\<lparr>m_stores := stores_erase in_name (m_stores root)\<rparr>))"

definition stores_of :: "('a, 'z) root_block_scheme \<Rightarrow> byte list list" where
  "stores_of root = map fst (m_stores root)"

section \<open>Synchronous tokens\<close>

text \<open>
  The mutex is locked by the constructor.  Unlocking a mutex that is not locked is undefined; locking one
  that is locked waits, which is \<open>None\<close>.
\<close>

definition ACT_Synchronous_new :: bool where "ACT_Synchronous_new = True"

definition ACT_Synchronous_call :: "bool \<Rightarrow> bool outcome" where
  "ACT_Synchronous_call locked = (if locked then Inr False else Inl Undefined)"

definition ACT_Synchronous_wait :: "bool \<Rightarrow> bool option" where
  "ACT_Synchronous_wait locked = (if locked then None else Some True)"

text \<open>
  The promise, for the type of identifiers: what was set, and whether its future was taken.  Both can
  be done once.
\<close>

record promise_token =
  tok_id :: block_id
  tok_value :: "block_id option"
  tok_retrieved :: bool

definition Promise_new :: "block_id \<Rightarrow> promise_token" where
  "Promise_new in_id = \<lparr>tok_id = in_id, tok_value = None, tok_retrieved = False\<rparr>"

definition Promise_call :: "promise_token \<Rightarrow> promise_token outcome" where
  "Promise_call t = (if tok_value t \<noteq> None then Inl Future_error else Inr (t\<lparr>tok_value := Some (tok_id t)\<rparr>))"

definition get_block :: "promise_token \<Rightarrow> (block_id outcome \<times> promise_token) option" where
  "get_block t = (if tok_retrieved t then Some (Inl Future_error, t)
     else map_option (\<lambda>v. (Inr v, t\<lparr>tok_retrieved := True\<rparr>)) (tok_value t))"

section \<open>Lemmas\<close>

abbreviation ordered :: "stores \<Rightarrow> bool" where
  "ordered st \<equiv> sorted_wrt (<) (map fst st)"

lemma stores_find_map_of: "ordered st \<Longrightarrow> stores_find st name = map_of st name"
proof (induction st name rule: stores_find.induct)
  case (2 key tr rest name)
  have "name < key \<Longrightarrow> map_of rest name = None"
    using 2(2) by (auto simp: map_of_eq_None_iff)
  with 2 show ?case by auto
qed simp

lemma map_of_stores_put: "ordered st \<Longrightarrow> map_of (stores_put name tr st) = (map_of st)(name \<mapsto> tr)"
  by (induction name tr st rule: stores_put.induct) (auto simp: fun_eq_iff)

lemma map_of_stores_erase: "ordered st \<Longrightarrow> map_of (stores_erase name st) = (map_of st)(name := None)"
proof (induction name st rule: stores_erase.induct)
  case (2 name key t rest)
  have "map_of rest key = None" using 2(2) by (auto simp: map_of_eq_None_iff)
  with 2 show ?case by (auto simp: fun_eq_iff)
qed simp

lemma keys_stores_put: "fst ` set (stores_put name tr st) = insert name (fst ` set st)"
  by (induction name tr st rule: stores_put.induct) auto

lemma keys_stores_erase: "fst ` set (stores_erase name st) \<subseteq> fst ` set st"
  by (induction name st rule: stores_erase.induct) auto

lemma ordered_put: "ordered st \<Longrightarrow> ordered (stores_put name tr st)"
proof (induction name tr st rule: stores_put.induct)
  case (2 name tr key t rest)
  have "\<forall>k \<in> fst ` set (stores_put name tr rest). k = name \<or> k \<in> fst ` set rest"
    by (simp add: keys_stores_put)
  with 2 show ?case by (fastforce simp: not_less_iff_gr_or_eq)
qed simp

lemma ordered_erase: "ordered st \<Longrightarrow> ordered (stores_erase name st)"
proof (induction name st rule: stores_erase.induct)
  case (2 name key t rest)
  with keys_stores_erase [of name rest] show ?case by fastforce
qed simp

lemma get_transport_again:
  "get_transport s = (Inr tr, s') \<Longrightarrow> get_transport s' = (Inr tr, s')"
  by (auto simp: get_transport_def split: prod.splits sum.splits option.splits)

section \<open>Properties\<close>

lemma stores_refine_map_parts:
  assumes "ordered (m_stores root)"
  shows "name \<in> dom (map_of (m_stores root)) \<Longrightarrow> fst (add_store b name root s) = Inl Assertion"
    and "add_store b name root s = (Inr tr, root', s')
      \<Longrightarrow> map_of (m_stores root') = (map_of (m_stores root))(name \<mapsto> Some tr) \<and> ordered (m_stores root')"
    and "name \<notin> dom (map_of (m_stores root)) \<Longrightarrow> add_store b name root s = (Inl x, root', s')
      \<Longrightarrow> map_of (m_stores root') = (if b then (map_of (m_stores root))(name \<mapsto> None) else map_of (m_stores root))"
    and "get_store name root = (case map_of (m_stores root) name of None \<Rightarrow> Inl Assertion | Some tr \<Rightarrow> Inr tr)"
    and "remove_store name root = Inr root'
      \<Longrightarrow> map_of (m_stores root') = (map_of (m_stores root))(name := None) \<and> ordered (m_stores root')"
    and "remove_store name root = Inl x \<longleftrightarrow> name \<notin> dom (map_of (m_stores root)) \<and> x = Assertion"
    and "set (stores_of root) = dom (map_of (m_stores root)) \<and> sorted_wrt (<) (stores_of root)"
proof -
  note find = stores_find_map_of [OF assms] and put = map_of_stores_put [OF assms]
  show "name \<in> dom (map_of (m_stores root)) \<Longrightarrow> fst (add_store b name root s) = Inl Assertion"
    by (auto simp: add_store_def find)
  show "add_store b name root s = (Inr tr, root', s')
      \<Longrightarrow> map_of (m_stores root') = (map_of (m_stores root))(name \<mapsto> Some tr) \<and> ordered (m_stores root')"
    using get_transport_again by (auto simp: add_store_def put ordered_put [OF assms] Let_def
        split: if_splits prod.splits sum.splits)
  show "name \<notin> dom (map_of (m_stores root)) \<Longrightarrow> add_store b name root s = (Inl x, root', s')
      \<Longrightarrow> map_of (m_stores root') = (if b then (map_of (m_stores root))(name \<mapsto> None) else map_of (m_stores root))"
    using get_transport_again by (auto simp: add_store_def find put Let_def split: if_splits prod.splits sum.splits)
  show "get_store name root = (case map_of (m_stores root) name of None \<Rightarrow> Inl Assertion | Some tr \<Rightarrow> Inr tr)"
    by (simp add: get_store_def find)
  show "remove_store name root = Inr root'
      \<Longrightarrow> map_of (m_stores root') = (map_of (m_stores root))(name := None) \<and> ordered (m_stores root')"
    by (auto simp: remove_store_def map_of_stores_erase [OF assms] ordered_erase [OF assms] split: option.splits)
  show "remove_store name root = Inl x \<longleftrightarrow> name \<notin> dom (map_of (m_stores root)) \<and> x = Assertion"
    by (auto simp: remove_store_def find split: option.splits)
  show "set (stores_of root) = dom (map_of (m_stores root)) \<and> sorted_wrt (<) (stores_of root)"
    using assms by (simp add: stores_of_def dom_map_of_conv_image_fst)
qed

text \<open>C19. The stores of a root block behave like a finite map from names to transports: adding a name that is there
  and asking for or removing one that is not stop the program, otherwise the map is updated, queried or restricted;
  the names are listed in increasing order, each once, and the order is kept.  When the transport of a new store
  cannot be made, a compiler that evaluates the left side of the assignment first leaves a null transport under the name.\<close>

theorem stores_refine_map:
  assumes "ordered (m_stores root)"
  shows "(name \<in> dom (map_of (m_stores root)) \<longrightarrow> fst (add_store b name root s) = Inl Assertion)
    \<and> (\<forall>tr root' s'. add_store b name root s = (Inr tr, root', s') \<longrightarrow>
         map_of (m_stores root') = (map_of (m_stores root))(name \<mapsto> Some tr) \<and> ordered (m_stores root'))
    \<and> (\<forall>x root' s'. name \<notin> dom (map_of (m_stores root)) \<longrightarrow> add_store b name root s = (Inl x, root', s') \<longrightarrow>
         map_of (m_stores root') = (if b then (map_of (m_stores root))(name \<mapsto> None) else map_of (m_stores root)))
    \<and> get_store name root = (case map_of (m_stores root) name of None \<Rightarrow> Inl Assertion | Some tr \<Rightarrow> Inr tr)
    \<and> (\<forall>root'. remove_store name root = Inr root' \<longrightarrow>
         map_of (m_stores root') = (map_of (m_stores root))(name := None) \<and> ordered (m_stores root'))
    \<and> (\<forall>x. remove_store name root = Inl x \<longleftrightarrow> name \<notin> dom (map_of (m_stores root)) \<and> x = Assertion)
    \<and> set (stores_of root) = dom (map_of (m_stores root)) \<and> sorted_wrt (<) (stores_of root)"
proof -
  note p = stores_refine_map_parts [OF assms]
  have "name \<in> dom (map_of (m_stores root)) \<longrightarrow> fst (add_store b name root s) = Inl Assertion"
    by (rule impI) (rule p(1))
  moreover have "\<forall>tr root' s'. add_store b name root s = (Inr tr, root', s') \<longrightarrow>
       map_of (m_stores root') = (map_of (m_stores root))(name \<mapsto> Some tr) \<and> ordered (m_stores root')"
    by (intro allI impI) (rule p(2))
  moreover have "\<forall>x root' s'. name \<notin> dom (map_of (m_stores root)) \<longrightarrow> add_store b name root s = (Inl x, root', s') \<longrightarrow>
       map_of (m_stores root') = (if b then (map_of (m_stores root))(name \<mapsto> None) else map_of (m_stores root))"
    by (intro allI impI) (rule p(3))
  moreover note p(4) [of name]
  moreover have "\<forall>root'. remove_store name root = Inr root' \<longrightarrow>
       map_of (m_stores root') = (map_of (m_stores root))(name := None) \<and> ordered (m_stores root')"
    by (intro allI impI) (rule p(5))
  moreover have "\<forall>x. remove_store name root = Inl x \<longleftrightarrow> name \<notin> dom (map_of (m_stores root)) \<and> x = Assertion"
    by (rule allI) (rule p(6))
  moreover note p(7) [THEN conjunct1] and p(7) [THEN conjunct2]
  ultimately show ?thesis by (intro conjI)
qed

definition toy_root :: "nat root_block" where
  "toy_root = (RootBlock_of (toy_block [] 0))\<lparr>m_stores := [([1], Some NoTransport), ([2], None)]\<rparr>"

definition toy_param :: config_param where
  "toy_param = \<lparr>param_config_name = [], param_passphrase = [], param_local_dir = toy_base, param_remote_dir = [],
     param_remote_host = [], param_transport_type = fs_transport, param_transport = None\<rparr>"

theorem stores_refine_map_witness:
  "fst (add_store True [2] toy_root (toy_param, toy_disk)) = Inl Assertion \<and> get_store [1] toy_root = Inr (Some NoTransport)
   \<and> get_store [3] toy_root = Inl Assertion \<and> set (stores_of toy_root) = {[1], [2]}"
proof -
  have o: "ordered (m_stores toy_root)" by (simp add: toy_root_def)
  show ?thesis
    using stores_refine_map [OF o, of "[2]" True "(toy_param, toy_disk)"] stores_refine_map [OF o, of "[1]"] stores_refine_map [OF o, of "[3]"]
    by (simp add: toy_root_def insert_commute)
qed

text \<open>A waiter passes exactly after the token was called: while it was not, \<open>wait\<close> and \<open>get_block\<close> do not return; afterwards
  they return once, the second with the identifier that was asked for; calling a token twice is undefined or throws.\<close>

theorem synchronous_tokens:
  "ACT_Synchronous_wait ACT_Synchronous_new = None"
  "ACT_Synchronous_call ACT_Synchronous_new = Inr l \<Longrightarrow> ACT_Synchronous_call l = Inl Undefined
     \<and> (\<exists>l'. ACT_Synchronous_wait l = Some l' \<and> ACT_Synchronous_wait l' = None)"
  "get_block (Promise_new i) = None"
  "Promise_call (Promise_new i) = Inr t \<Longrightarrow> Promise_call t = Inl Future_error
     \<and> (\<exists>t'. get_block t = Some (Inr i, t') \<and> get_block t' = Some (Inl Future_error, t'))"
  by (auto simp: ACT_Synchronous_wait_def ACT_Synchronous_call_def ACT_Synchronous_new_def
      get_block_def Promise_call_def Promise_new_def)

end
