(* ===== verification/Cpp_Main.thy ===== *)
theory Cpp_Main
  imports Cpp_Crypt
begin

text \<open>
  \<open>main.cpp\<close>: the options that are declared, and what \<open>main\<close> does with them.  The parser of
  \<open>boost::program_options\<close> is a parameter: from the declared names and the arguments it gives the options that are present with their
  values, or throws.  The result of \<open>main\<close> is its exit status, the modes it leaves, and how much of the standard input it
  read (one line, for the password).

  What is shown: of its options the program uses \<open>help\<close> and \<open>verbose\<close> only.
\<close>

definition general_options :: "string list" where
  "general_options = [''help'', ''verbose'', ''action'', ''name'']"

definition create_options :: "string list" where
  "create_options = [''user'', ''password'', ''host'', ''root'']"

definition backup_restore_options :: "string list" where
  "backup_restore_options = [''begins'', ''ends'', ''contains'']"

definition restore_options :: "string list" where
  "restore_options = [''restore-to'']"

definition all_options :: "string list" where
  "all_options = general_options @ create_options @ backup_restore_options @ restore_options"

type_synonym option_map = "string \<Rightarrow> string option"

datatype parsed = Help_exception | Options option_map

definition parse_options_cpp :: "(string list \<Rightarrow> string list \<Rightarrow> option_map outcome) \<Rightarrow> string list \<Rightarrow> parsed outcome" where
  "parse_options_cpp boost_parse argv = try_bind (boost_parse all_options argv) (\<lambda>opt_map.
     Inr (if opt_map ''help'' \<noteq> None then Help_exception else Options opt_map))"

record main_state =
  main_modes :: modes
  main_input :: "byte list"
  main_prompted :: bool

text \<open>
  An exception of \<open>get_password\<close> is not caught.
\<close>

definition main_cpp ::
    "('e, 'z) suite_scheme \<Rightarrow> (string list \<Rightarrow> string list \<Rightarrow> option_map outcome) \<Rightarrow> string list \<Rightarrow> main_state
      \<Rightarrow> (int \<times> main_state) outcome" where
  "main_cpp lib boost_parse argv s = (case parse_options_cpp boost_parse argv of
     Inl _ \<Rightarrow> Inr (1, s)
   | Inr Help_exception \<Rightarrow> Inr (0, s)
   | Inr (Options options) \<Rightarrow>
       (let verbose = (options ''verbose'' \<noteq> None);
            s = s\<lparr>main_modes := set_mode Verbose verbose (main_modes s)\<rparr>;
            is_test = (options ''TEST'' \<noteq> None);
            s = s\<lparr>main_modes := set_mode Testing is_test (main_modes s)\<rparr> in
        try_bind
          (if is_test then Inr ([], s)
           else try_bind (get_password lib (main_input s)) (\<lambda>(passwd, _).
               Inr (passwd, s\<lparr>main_input := after_phrase (main_input s), main_prompted := True\<rparr>)))
          (\<lambda>(passwd, s). if options ''passwd'' \<noteq> None then Inr (0, s) else Inr (0, s))))"

text \<open>The parser only gives options that were declared.\<close>

definition parses_declared :: "(string list \<Rightarrow> string list \<Rightarrow> option_map outcome) \<Rightarrow> bool" where
  "parses_declared boost_parse \<longleftrightarrow> (\<forall>names argv opts. boost_parse names argv = Inr opts \<longrightarrow> dom opts \<subseteq> set names)"

lemma hash_rounds_ok: "digests_work lib \<Longrightarrow> \<exists>d. hash_rounds lib n m = Inr d"
proof (induction n arbitrary: m)
  case (Suc n)
  then show ?case using message_digest_ok [of lib m False] by auto
qed simp

lemma get_password_ok: "digests_work lib \<Longrightarrow> \<exists>r. get_password lib line = Inr r"
  using hash_rounds_ok [of lib 50 "c_string (read_phrase line @ [0])"] by (auto simp: get_password_def Let_def)

text \<open>The program asks for a password and does nothing with it: no option selects an action, the options that would select the test mode or the change of the
  password are never declared, so that the test mode is off and the password is always prompted for, and the exit status is 0 unless the
  command line cannot be parsed.\<close>

theorem main_only_prompts:
  assumes "digests_work lib" "parses_declared boost_parse"
  shows "\<exists>status t. main_cpp lib boost_parse argv s = Inr (status, t)
      \<and> (status = 0 \<longleftrightarrow> (\<exists>opts. boost_parse all_options argv = Inr opts))
      \<and> (\<forall>opts. boost_parse all_options argv = Inr opts \<longrightarrow> opts ''help'' = None \<longrightarrow>
           main_prompted t \<and> main_input t = after_phrase (main_input s) \<and> \<not> mode (main_modes t) Testing
           \<and> mode (main_modes t) Verbose = (opts ''verbose'' \<noteq> None))"
proof (cases "boost_parse all_options argv")
  case (Inl x)
  then show ?thesis by (simp add: main_cpp_def parse_options_cpp_def)
next
  case (Inr opts)
  then have "dom opts \<subseteq> set all_options" using assms(2) by (simp add: parses_declared_def)
  then have t: "opts ''TEST'' = None" "opts ''passwd'' = None"
    by (auto simp: all_options_def general_options_def create_options_def backup_restore_options_def
        restore_options_def domIff subset_iff)
  obtain pw buf where "get_password lib (main_input s) = Inr (pw, buf)"
    using get_password_ok [OF assms(1)] by fastforce
  then show ?thesis by (auto simp: main_cpp_def parse_options_cpp_def Inr t)
qed

theorem main_only_prompts_witness:
  "\<exists>t. main_cpp toy_suite (\<lambda>names argv. if argv = [''-v''] then Inr [''verbose'' \<mapsto> ''''] else Inl Runtime_error) [''-v'']
      \<lparr>main_modes = ModeInit Map.empty, main_input = [1, 2, newline], main_prompted = False\<rparr> = Inr (0, t)
    \<and> main_prompted t \<and> mode (main_modes t) Verbose"
proof -
  let ?b = "\<lambda>names argv. if argv = [''-v''] then Inr [''verbose'' \<mapsto> ''''] else Inl Runtime_error"
  let ?c = "\<lambda>names argv. if ''verbose'' \<in> set names then ?b names argv else Inl Runtime_error"
  have "parses_declared ?c" by (auto simp: parses_declared_def split: if_splits)
  moreover have "main_cpp toy_suite ?b argv s = main_cpp toy_suite ?c argv s" for argv s
    by (simp add: main_cpp_def parse_options_cpp_def all_options_def general_options_def)
  ultimately show ?thesis
    using main_only_prompts [OF toy_digests, of ?c "[''-v'']"
        "\<lparr>main_modes = ModeInit Map.empty, main_input = [1, 2, newline], main_prompted = False\<rparr>"]
    by (auto simp: all_options_def general_options_def)
qed

end
