(* ===== verification/Coprocess.thy ===== *)
theory Coprocess
  imports Commands
begin

text \<open>
  The plumbing of \<open>coprocess.c\<close>: how the client gets a server on the other end of two pairs of descriptors.  The
  kernel has descriptions, which are numbers with a non-blocking flag and a peer; a process has a table from
  descriptors to descriptions.  A new descriptor is the lowest free one below the limit of the process.  After \<open>fork\<close> the two
  processes have tables of their own and share the descriptions.  The result of \<open>fork\<close> is a parameter, and the child is followed
  up to \<open>execvp\<close>.

  What is shown: whatever was open before, the child talks to the parent over its standard input
  and output, and neither holds an end of the other.
\<close>

section \<open>Descriptors\<close>

type_synonym fd_table = "nat \<Rightarrow> nat option"

record kernel =
  k_nonblock :: "nat \<Rightarrow> bool"
  k_peer :: "nat \<Rightarrow> nat"
  k_next :: nat

definition lowest_free :: "nat \<Rightarrow> fd_table \<Rightarrow> nat option" where
  "lowest_free limit t = find (\<lambda>fd. t fd = None) [0..<limit]"

definition set_nonblocking :: "fd_table \<Rightarrow> nat \<Rightarrow> kernel \<Rightarrow> kernel" where
  "set_nonblocking t fd k = (case t fd of None \<Rightarrow> k | Some d \<Rightarrow>
     if \<not> k_nonblock k d then k\<lparr>k_nonblock := (k_nonblock k)(d := True)\<rparr> else k)"

definition set_blocking :: "fd_table \<Rightarrow> nat \<Rightarrow> kernel \<Rightarrow> kernel" where
  "set_blocking t fd k = (case t fd of None \<Rightarrow> k | Some d \<Rightarrow>
     if k_nonblock k d then k\<lparr>k_nonblock := (k_nonblock k)(d := False)\<rparr> else k)"

text \<open>\<open>socketpair\<close> (or \<open>pipe\<close>): two descriptions, each the peer of the other; \<open>None\<close> is a result of \<open>-1\<close>.\<close>

definition socketpair :: "nat \<Rightarrow> kernel \<times> fd_table \<Rightarrow> ((nat \<times> nat) \<times> kernel \<times> fd_table) option" where
  "socketpair limit s = (case s of (k, t) \<Rightarrow> case lowest_free limit t of None \<Rightarrow> None
     | Some a \<Rightarrow> (case lowest_free limit (t(a \<mapsto> k_next k)) of None \<Rightarrow> None
     | Some b \<Rightarrow> let d = k_next k in
         Some ((a, b), \<lparr>k_nonblock = (k_nonblock k)(d := False, Suc d := False),
           k_peer = (k_peer k)(d := Suc d, Suc d := d), k_next = Suc (Suc d)\<rparr>, t(a \<mapsto> d, b \<mapsto> Suc d))))"

definition fd_pair :: "nat \<Rightarrow> kernel \<times> fd_table \<Rightarrow> ((nat \<times> nat) \<times> kernel \<times> fd_table) option" where
  "fd_pair limit s = (case socketpair limit s of None \<Rightarrow> None
     | Some ((a, b), k, t) \<Rightarrow> Some ((a, b), set_nonblocking t b (set_nonblocking t a k), t))"

definition close_fd :: "nat \<Rightarrow> fd_table \<Rightarrow> bool \<times> fd_table" where
  "close_fd fd t = (t fd \<noteq> None, t(fd := None))"

definition dup2 :: "nat \<Rightarrow> nat \<Rightarrow> fd_table \<Rightarrow> bool \<times> fd_table" where
  "dup2 old new t = (if t old = None then (False, t) else (True, t(new := t old)))"

section \<open>The child and the parent\<close>

text \<open>The child moves an end to a standard descriptor, unless it is there already.\<close>

definition move_to :: "nat \<Rightarrow> nat \<Rightarrow> fd_table \<Rightarrow> fd_table result" where
  "move_to fd std t = (if fd = std then Inr t
     else case dup2 fd std t of (ok, t) \<Rightarrow> if \<not> ok then Inl Abort else Inr (snd (close_fd fd t)))"

definition in_child :: "nat \<times> nat \<Rightarrow> nat \<times> nat \<Rightarrow> kernel \<times> fd_table \<Rightarrow> (kernel \<times> fd_table) result" where
  "in_child to_child from_child s = (case s of (k, t) \<Rightarrow>
     let t = snd (close_fd (snd to_child) t); t = snd (close_fd (fst from_child) t) in
     rbind (move_to (fst to_child) 0 t) (\<lambda>t.
     rbind (move_to (snd from_child) 1 t) (\<lambda>t.
     Inr (set_blocking t 1 (set_blocking t 0 k), t))))"

definition in_parent :: "nat \<times> nat \<Rightarrow> nat \<times> nat \<Rightarrow> kernel \<times> fd_table \<Rightarrow> ((nat \<times> nat) \<times> kernel \<times> fd_table) result" where
  "in_parent to_child from_child s = (case s of (k, t) \<Rightarrow>
     case close_fd (snd from_child) t of (ok1, t) \<Rightarrow>
     if \<not> ok1 then Inl Abort
     else case close_fd (fst to_child) t of (ok2, t) \<Rightarrow>
     if \<not> ok2 then Inl Abort
     else let f_out = snd to_child; f_in = fst from_child in
       Inr ((f_in, f_out), set_nonblocking t f_in (set_nonblocking t f_out k), t))"

text \<open>
  \<open>piped_child\<close>: the process identifier, the two descriptors of the parent, the kernel, the table of the parent, and
  that of the child when it calls \<open>execvp\<close> (or its fault).  The steps of the two processes work on different
  descriptions, so that their order does not matter.
\<close>

definition piped_child ::
    "nat \<Rightarrow> int \<Rightarrow> kernel \<times> fd_table \<Rightarrow> (int \<times> (nat \<times> nat) \<times> kernel \<times> fd_table \<times> fd_table result) result" where
  "piped_child limit fork_result s = (case fd_pair limit s of None \<Rightarrow> Inl Abort
     | Some (to_child, s) \<Rightarrow> (case fd_pair limit s of None \<Rightarrow> Inl Abort
     | Some (from_child, (k, t)) \<Rightarrow>
         if fork_result < 0 then Inl Abort
         else case (case in_child to_child from_child (k, t) of
             Inl x \<Rightarrow> (k, Inl x) | Inr (k, child) \<Rightarrow> (k, Inr child)) of (k, child) \<Rightarrow>
           rbind (in_parent to_child from_child (k, t)) (\<lambda>(f, k, parent). Inr (fork_result, f, k, parent, child))))"

section \<open>Lemmas\<close>

lemma lowest_freeD:
  assumes "lowest_free limit t = Some a"
  shows "t a = None" "a < limit" "\<forall>b < a. t b \<noteq> None"
  using assms by (auto simp: lowest_free_def find_Some_iff)

lemma fd_pair_result:
  assumes "fd_pair limit (k, t) = Some ((a, b), k', t')"
  shows "a < b" "t a = None" "t b = None" "\<forall>c < b. c = a \<or> t c \<noteq> None" "b < limit"
    "t' = t(a \<mapsto> k_next k, b \<mapsto> Suc (k_next k))" "k_next k' = Suc (Suc (k_next k))"
    "k_peer k' = (k_peer k)(k_next k := Suc (k_next k), Suc (k_next k) := k_next k)"
    "k_nonblock k' = (k_nonblock k)(k_next k := True, Suc (k_next k) := True)"
proof -
  obtain k0 where p: "socketpair limit (k, t) = Some ((a, b), k0, t')" and k': "k' = set_nonblocking t' b (set_nonblocking t' a k0)"
    using assms by (auto simp: fd_pair_def split: option.splits)
  have l: "lowest_free limit t = Some a" "lowest_free limit (t(a \<mapsto> k_next k)) = Some b"
    and t': "t' = t(a \<mapsto> k_next k, b \<mapsto> Suc (k_next k))"
    and k0: "k0 = \<lparr>k_nonblock = (k_nonblock k)(k_next k := False, Suc (k_next k) := False),
           k_peer = (k_peer k)(k_next k := Suc (k_next k), Suc (k_next k) := k_next k), k_next = Suc (Suc (k_next k))\<rparr>"
    using p by (auto simp: socketpair_def Let_def split: option.splits)
  note a = lowest_freeD [OF l(1)] and b = lowest_freeD [OF l(2)]
  show "t a = None" "b < limit" by (rule a, rule b)
  have "b \<noteq> a" using b(1) by auto
  then show tb: "t b = None" using b(1) by simp
  show "\<forall>c < b. c = a \<or> t c \<noteq> None" using b(3) by (metis fun_upd_other)
  show "a < b" using a(3) tb \<open>b \<noteq> a\<close> by (meson linorder_neqE_nat)
  show "t' = t(a \<mapsto> k_next k, b \<mapsto> Suc (k_next k))" by (rule t')
  show "k_next k' = Suc (Suc (k_next k))"
    "k_peer k' = (k_peer k)(k_next k := Suc (k_next k), Suc (k_next k) := k_next k)"
    "k_nonblock k' = (k_nonblock k)(k_next k := True, Suc (k_next k) := True)"
    using \<open>b \<noteq> a\<close> by (auto simp: k' t' k0 set_nonblocking_def)
qed

lemma move_to_ok:
  assumes "t fd = Some d"
  shows "\<exists>t'. move_to fd std t = Inr t' \<and> t' std = Some d \<and> (\<forall>x. x \<noteq> std \<longrightarrow> t' x = (if x = fd then None else t x))"
  using assms by (auto simp: move_to_def dup2_def close_fd_def)

text \<open>
  The ends of the pairs are four new descriptors in increasing order, so that the last two are not standard ones.
\<close>

lemma in_child_ok:
  assumes "t a0 = Some d0" "t b1 = Some d3" "a0 < a1" "a1 < b0" "b0 < b1"
  shows "\<exists>c. in_child (a0, a1) (b0, b1) (k, t) = Inr (set_blocking c 1 (set_blocking c 0 k), c)
    \<and> c 0 = Some d0 \<and> c 1 = Some d3 \<and> (\<forall>x \<ge> 2. c x = (if x \<in> {a0, a1, b0, b1} then None else t x))"
proof -
  let ?t = "t(a1 := None, b0 := None)"
  have "?t a0 = Some d0" using assms by simp
  then obtain t1 where t1: "move_to a0 0 ?t = Inr t1" "t1 0 = Some d0"
    "\<forall>x. x \<noteq> 0 \<longrightarrow> t1 x = (if x = a0 then None else ?t x)"
    using move_to_ok by metis
  have "t1 b1 = Some d3" using t1(3) assms by simp
  then obtain t2 where t2: "move_to b1 1 t1 = Inr t2" "t2 1 = Some d3"
    "\<forall>x. x \<noteq> 1 \<longrightarrow> t2 x = (if x = b1 then None else t1 x)"
    using move_to_ok by metis
  have "in_child (a0, a1) (b0, b1) (k, t) = Inr (set_blocking t2 1 (set_blocking t2 0 k), t2)"
    by (simp add: in_child_def close_fd_def t1(1) t2(1) del: One_nat_def)
  moreover have "t2 0 = Some d0" using t2(3) t1(2) assms by simp
  moreover have "\<forall>x \<ge> 2. t2 x = (if x \<in> {a0, a1, b0, b1} then None else t x)"
    using t1(3) t2(3) by auto
  ultimately show ?thesis using t2(2) by blast
qed

section \<open>Property\<close>

text \<open>C27. When the plumbing succeeds, the standard input of the child is the other end of the descriptor that the parent writes to,
  and its standard output that of the one that the parent reads from, whichever descriptors were open before; the ends of the child block and those of the
  parent do not; everything else stays as it was, and neither process holds an end of the other, so that each sees the end of
  the stream when the other is gone.\<close>

theorem child_is_connected:
  assumes "piped_child limit pid (k, t) = Inr (r, (f_in, f_out), k', parent, child)"
    "\<forall>fd d. t fd = Some d \<longrightarrow> d < k_next k"
  shows "r = pid \<and> (\<exists>c d0 d1 p0 p1. child = Inr c \<and> c 0 = Some d0 \<and> c 1 = Some d1 \<and> parent f_out = Some p0 \<and> parent f_in = Some p1
      \<and> k_peer k' d0 = p0 \<and> k_peer k' p0 = d0 \<and> k_peer k' d1 = p1 \<and> k_peer k' p1 = d1
      \<and> \<not> k_nonblock k' d0 \<and> \<not> k_nonblock k' d1 \<and> k_nonblock k' p0 \<and> k_nonblock k' p1
      \<and> (\<forall>fd \<ge> 2. c fd = t fd) \<and> (\<forall>fd. fd \<noteq> f_in \<longrightarrow> fd \<noteq> f_out \<longrightarrow> parent fd = t fd)
      \<and> {p0, p1} \<inter> ran c = {} \<and> {d0, d1} \<inter> ran parent = {})"
proof -
  obtain a0 a1 k1 t1 b0 b1 k2 t2 where p: "fd_pair limit (k, t) = Some ((a0, a1), k1, t1)"
    "fd_pair limit (k1, t1) = Some ((b0, b1), k2, t2)" "\<not> pid < 0"
    using assms(1) by (auto simp: piped_child_def split: option.splits if_splits)
  let ?n = "k_next k"
  note a = fd_pair_result [OF p(1)] and b = fd_pair_result [OF p(2)]
  have t2: "t2 = t(a0 \<mapsto> ?n, a1 \<mapsto> ?n + 1, b0 \<mapsto> ?n + 2, b1 \<mapsto> ?n + 3)" by (simp add: a b eval_nat_numeral)
  have n: "t b0 = None" "b0 \<noteq> a0" "b0 \<noteq> a1" "t b1 = None" "b1 \<noteq> a0" "b1 \<noteq> a1"
    using b(2,3) a(6) by (auto split: if_splits)
  have "a1 < b0" using a(4) n(1-3) by (metis linorder_neqE_nat)
  then have o: "a0 < a1" "a1 < b0" "b0 < b1" "t a0 = None" "t a1 = None" "t b0 = None" "t b1 = None"
    using a(1-3) b(1) n(1,4) by auto
  obtain c where c: "in_child (a0, a1) (b0, b1) (k2, t2) = Inr (set_blocking c 1 (set_blocking c 0 k2), c)"
    "c 0 = Some ?n" "c 1 = Some (?n + 3)" "\<forall>x \<ge> 2. c x = (if x \<in> {a0, a1, b0, b1} then None else t2 x)"
    using in_child_ok [of t2 a0 ?n b1 "?n + 3" a1 b0 k2] o by (auto simp: t2)
  let ?k = "set_blocking c 1 (set_blocking c 0 k2)" and ?p = "t2(b1 := None, a0 := None)"
  have k2: "k_nonblock k2 = (k_nonblock k)(?n := True, ?n + 1 := True, ?n + 2 := True, ?n + 3 := True)"
    "k_peer k2 = (k_peer k)(?n := ?n + 1, ?n + 1 := ?n, ?n + 2 := ?n + 3, ?n + 3 := ?n + 2)"
    by (simp_all add: a b eval_nat_numeral)
  have nb: "k_nonblock ?k = (k_nonblock k2)(?n := False, ?n + 3 := False)" "k_peer ?k = k_peer k2"
    using c(2,3) by (auto simp: set_blocking_def k2 fun_eq_iff)
  have pt: "?p a1 = Some (?n + 1)" "?p b0 = Some (?n + 2)" using o by (auto simp: t2)
  have "in_parent (a0, a1) (b0, b1) (?k, t2) = Inr ((b0, a1), ?k, ?p)"
    using o pt by (simp add: in_parent_def close_fd_def t2 set_nonblocking_def nb k2 del: One_nat_def)
  then have r: "r = pid" "f_in = b0" "f_out = a1" "k' = ?k" "parent = ?p" "child = Inr c"
    using assms(1) p c(1) by (simp_all add: piped_child_def del: One_nat_def)
  have cd: "\<forall>fd \<ge> 2. c fd = t fd" using c(4) o by (auto simp: t2)
  have pd: "\<forall>fd. fd \<noteq> b0 \<longrightarrow> fd \<noteq> a1 \<longrightarrow> ?p fd = t fd" using o by (auto simp: t2)
  have "?n + 1 \<notin> ran c" "?n + 2 \<notin> ran c"
  proof -
    have "d \<in> ran c \<Longrightarrow> d = ?n \<or> d = ?n + 3 \<or> d < ?n" for d
    proof -
      assume "d \<in> ran c"
      then obtain x where "c x = Some d" by (auto simp: ran_def)
      then show ?thesis using c(2,3) cd assms(2) by (cases "x = 0"; cases "x = 1") auto
    qed
    then show "?n + 1 \<notin> ran c" "?n + 2 \<notin> ran c" by fastforce+
  qed
  moreover have "?n \<notin> ran ?p" "?n + 3 \<notin> ran ?p"
  proof -
    have "d \<in> ran ?p \<Longrightarrow> d = ?n + 1 \<or> d = ?n + 2 \<or> d < ?n" for d
    proof -
      assume "d \<in> ran ?p"
      then obtain x where "?p x = Some d" by (auto simp: ran_def)
      then show ?thesis using pt pd assms(2) by (cases "x = b0"; cases "x = a1") auto
    qed
    then show "?n \<notin> ran ?p" "?n + 3 \<notin> ran ?p" by fastforce+
  qed
  ultimately have disj: "{?n + 1, ?n + 2} \<inter> ran c = {}" "{?n, ?n + 3} \<inter> ran ?p = {}" by auto
  show ?thesis
    unfolding r
    by (rule conjI, rule refl, rule exI [of _ c], rule exI [of _ ?n], rule exI [of _ "?n + 3"],
        rule exI [of _ "?n + 1"], rule exI [of _ "?n + 2"])
      (use c(2,3) pt cd pd disj in \<open>simp add: nb k2 del: One_nat_def\<close>)
qed

text \<open>A process whose standard output is closed.\<close>

definition toy_fds :: fd_table where
  "toy_fds = (\<lambda>_. None)(0 \<mapsto> 0, 2 \<mapsto> 2)"

definition toy_kernel :: kernel where
  "toy_kernel = \<lparr>k_nonblock = (\<lambda>_. False), k_peer = (\<lambda>d. d), k_next = 5\<rparr>"

theorem child_is_connected_witness:
  "\<exists>k parent c. piped_child 10 42 (toy_kernel, toy_fds) = Inr (42, (4, 3), k, parent, Inr c)
     \<and> c 0 \<noteq> None \<and> c 1 \<noteq> None \<and> k_peer k (the (c 0)) = the (parent 3) \<and> k_peer k (the (c 1)) = the (parent 4)"
proof -
  obtain k parent child where p: "piped_child 10 42 (toy_kernel, toy_fds) = Inr (42, (4, 3), k, parent, child)"
    by (simp add: piped_child_def fd_pair_def socketpair_def lowest_free_def toy_fds_def toy_kernel_def upt_rec
        in_child_def in_parent_def move_to_def dup2_def close_fd_def set_nonblocking_def set_blocking_def Let_def)
  have "\<forall>fd d. toy_fds fd = Some d \<longrightarrow> d < k_next toy_kernel" by (simp add: toy_fds_def toy_kernel_def)
  from child_is_connected [OF p this] p show ?thesis by auto
qed

end
