(* ===== verification/Diagnostics.thy ===== *)
theory Diagnostics
  imports Commands
begin

text \<open>
  What the program says about itself: the log handler of \<open>log.c\<close> as the bytes that it writes to the
  standard error, the exit of \<open>cleanup.c\<close>, and the self test of \<open>compress.c\<close>.

  What is shown: a message is written whole, behind a header that depends only on who writes and at which level;
  the exit code is never lowered by that of the child; and when the self test is silent.
\<close>

section \<open>The log\<close>

datatype log_entity = kLog_none | kLog_client | kLog_server

definition log_am_client :: "log_entity \<Rightarrow> log_entity" where "log_am_client e = kLog_client"
definition log_am_server :: "log_entity \<Rightarrow> log_entity" where "log_am_server e = kLog_server"

text \<open>The levels of GLib; two bits above them are flags.\<close>

definition G_LOG_FLAG_RECURSION :: u32 where "G_LOG_FLAG_RECURSION = 1"
definition G_LOG_FLAG_FATAL :: u32 where "G_LOG_FLAG_FATAL = 2"
definition G_LOG_LEVEL_MASK :: u32 where "G_LOG_LEVEL_MASK = NOT 3"

definition entity_domain :: "log_entity \<Rightarrow> byte list" where
  "entity_domain e = (case e of kLog_none \<Rightarrow> [] | kLog_client \<Rightarrow> cstr ''client'' | kLog_server \<Rightarrow> cstr ''  server'')"

text \<open>What stands before the name of a level: a line break for the severe ones.\<close>

definition severe_lead :: "byte list option \<Rightarrow> byte list" where
  "severe_lead domain = (case domain of Some d \<Rightarrow> [10] @ d @ cstr ''-'' | None \<Rightarrow> [10] @ cstr ''** '')"

definition mild_lead :: "byte list option \<Rightarrow> byte list" where
  "mild_lead domain = (case domain of Some d \<Rightarrow> d @ cstr ''-'' | None \<Rightarrow> [])"

definition end_of_message :: "bool \<Rightarrow> byte list" where
  "end_of_message is_fatal = (if is_fatal then [10] @ cstr ''aborting...'' @ [10] else [10])"

text \<open>
  A level that GLib does not define: its number, from \<open>g_bit_nth_msf\<close>.  The first digit is written as the number itself, not as a
  character.
\<close>

definition odd_level :: "u32 \<Rightarrow> byte list" where
  "odd_level i = (let lo = of_char CHR ''0'' + ucast (i AND 0xF);
       lo = (if lo > of_char CHR ''9'' then lo + (of_char CHR ''A'' - of_char CHR ''9'' - 1) else lo) in
     cstr ''0x'' @ [ucast (drop_bit 4 i), lo] @ cstr ''): '')"

definition log_header :: "(u32 \<Rightarrow> u32) \<Rightarrow> byte list option \<Rightarrow> bool \<Rightarrow> u32 \<Rightarrow> byte list" where
  "log_header bit_nth_msf domain in_recursion log_level =
     (if log_level = 4 then severe_lead domain @ cstr (if in_recursion then ''ERROR (recursed) **: '' else ''ERROR **: '')
      else if log_level = 8 then severe_lead domain @ cstr (if in_recursion then ''CRITICAL (recursed) **: '' else ''CRITICAL **: '')
      else if log_level = 16 then severe_lead domain @ cstr (if in_recursion then ''WARNING (recursed) **: '' else ''WARNING **: '')
      else if log_level = 32 then mild_lead domain @ cstr (if in_recursion then ''Message (recursed): '' else ''Message: '')
      else if log_level = 64 then mild_lead domain @ cstr (if in_recursion then ''INFO (recursed): '' else ''INFO: '')
      else if log_level = 128 then mild_lead domain @ cstr (if in_recursion then ''DEBUG (recursed): '' else ''DEBUG: '')
      else (case domain of
          Some d \<Rightarrow> d @ cstr (if in_recursion then ''-LOG (recursed:'' else ''-LOG ('')
        | None \<Rightarrow> cstr (if in_recursion then ''LOG (recursed:'' else ''LOG (''))
        @ (if log_level \<noteq> 0 then odd_level (bit_nth_msf log_level) else cstr ''): ''))"

definition log_default_log_handler ::
    "(u32 \<Rightarrow> u32) \<Rightarrow> log_entity \<Rightarrow> byte list option \<Rightarrow> u32 \<Rightarrow> byte list option \<Rightarrow> byte list" where
  "log_default_log_handler bit_nth_msf e log_domain log_level message =
     (let domain = (case log_domain of None \<Rightarrow> Some (entity_domain e) | Some d \<Rightarrow> Some (c_string d));
          in_recursion = (log_level AND G_LOG_FLAG_RECURSION \<noteq> 0);
          is_fatal = (log_level AND G_LOG_FLAG_FATAL \<noteq> 0);
          msg = (case message of None \<Rightarrow> cstr ''g_log_default_handler(): (NULL) message'' | Some m \<Rightarrow> c_string m) in
      log_header bit_nth_msf domain in_recursion (log_level AND G_LOG_LEVEL_MASK) @ msg @ end_of_message is_fatal)"

section \<open>The exit\<close>

text \<open>
  \<open>child\<close> is the exit status of the child when \<open>waitpid\<close> finds that it has ended, which is asked only when its
  identifier is known.
\<close>

definition exit_cleanup :: "int \<Rightarrow> int option \<Rightarrow> int \<Rightarrow> 'a result" where
  "exit_cleanup cleanup_child_pid child code =
     (let code = (if cleanup_child_pid \<noteq> - 1
          then (case child of Some status \<Rightarrow> if status > code then status else code | None \<Rightarrow> code) else code)
      in Inl (Exit code))"

section \<open>The self test\<close>

text \<open>\<open>strncmp\<close> compares up to the first NUL; the result is what was warned of: a different text, a different length.\<close>

definition strncmp_differs :: "byte list \<Rightarrow> byte list \<Rightarrow> nat \<Rightarrow> bool" where
  "strncmp_differs a b n = (c_string (take n a) \<noteq> c_string (take n b))"

definition do_crypt_test :: "'e external \<Rightarrow> iosbuf \<Rightarrow> ('e peer, bool \<times> bool) prog" where
  "do_crypt_test ext ios_in = (let len = ios_buffer_size ios_in in
     andthen (lifted (do_compress ext ios_in)) (\<lambda>ios_compressed.
     andthen (encrypt ext ios_compressed) (\<lambda>r. case r of None \<Rightarrow> fail Segv
     | Some ios_encrypted \<Rightarrow>
       andthen (decrypt ext ios_encrypted) (\<lambda>ios_decrypted.
       andthen (lifted (do_decompress ext ios_decrypted len)) (\<lambda>ios_decompressed.
       case (ios_buffer ios_in, ios_buffer ios_decompressed) of
         (Some a, Some b) \<Rightarrow> ret (strncmp_differs a b (unat len), ios_buffer_size ios_in \<noteq> ios_buffer_size ios_decompressed)
       | _ \<Rightarrow> fail Segv)))))"

text \<open>\<open>crypt_test\<close> on two texts, which are literals in the source.\<close>

definition crypt_test :: "'e external \<Rightarrow> byte list \<Rightarrow> byte list \<Rightarrow> ('e peer, (bool \<times> bool) \<times> (bool \<times> bool)) prog" where
  "crypt_test ext text1 text2 =
     andthen (lifted (rbind (ios_append_string text1 ios_new) (\<lambda>(_, ios). Inr ios))) (\<lambda>ios.
     andthen (do_crypt_test ext ios) (\<lambda>w1.
     andthen (lifted (rbind (ios_append_string text2 (ios_reset ios)) (\<lambda>(_, ios). Inr ios))) (\<lambda>ios.
     andthen (do_crypt_test ext ios) (\<lambda>w2. ret (w1, w2)))))"

text \<open>
  \<open>do_self_test\<close>, which \<open>main\<close> calls in builds for maintainers: the test of the text, then a ping to a server of the
  same program.
\<close>

definition do_self_test :: "'e external \<Rightarrow> 'e surroundings \<Rightarrow> byte list \<Rightarrow> byte list \<Rightarrow> pointer \<Rightarrow> ('e peer, int) prog" where
  "do_self_test ext su text1 text2 program = (case program of None \<Rightarrow> fail Abort
     | Some name \<Rightarrow> andthen (crypt_test ext text1 text2) (\<lambda>_.
         andthen (do_cmd su (name @ cstr '' --daemon --verbose=127'')) (\<lambda>pid.
         andthen (do_ping ext su) (\<lambda>_. ret 0))))"

section \<open>Lemmas\<close>

lemma do_crypt_test_pack:
  "do_crypt_test ext ios_in = andthen (pack ext ios_in) (\<lambda>r. case r of None \<Rightarrow> fail Segv
     | Some enc \<Rightarrow> andthen (unpack ext enc (ios_buffer_size ios_in)) (\<lambda>out.
         case (ios_buffer ios_in, ios_buffer out) of
           (Some a, Some b) \<Rightarrow> ret (strncmp_differs a b (unat (ios_buffer_size ios_in)), ios_buffer_size ios_in \<noteq> ios_buffer_size out)
         | _ \<Rightarrow> fail Segv))"
  by (rule HOL.ext) (auto simp: do_crypt_test_def pack_def unpack_def andthen_def Let_def split: sum.splits option.splits prod.splits)

text \<open>
  A serialised string begins with its length, whose first byte is 0 for texts of less than 16 MiB: the comparison of the
  self test ends there, and accepts every result that begins with a zero byte.
\<close>

lemma self_test_compares_first_byte:
  assumes "length t < 16777216" "0 < n"
  shows "strncmp_differs (be32 (of_nat (length t)) @ t) b n \<longleftrightarrow> b \<noteq> [] \<and> hd b \<noteq> 0"
proof -
  have "unat (of_nat (length t) :: u32) = length t" using assms(1) by (simp add: unat_of_nat take_bit_nat_eq_self)
  then have "unat (drop_bit 24 (of_nat (length t) :: u32)) = 0"
    using assms(1) unfolding unat_drop_bit_eq by (simp add: drop_bit_eq_div)
  then have z: "drop_bit 24 (of_nat (length t) :: u32) = 0" by (simp only: unat_eq_0)
  obtain m where m: "n = Suc m" using assms(2) by (cases n) auto
  show ?thesis
    by (cases b) (auto simp: strncmp_differs_def be32_def z m c_string_def)
qed

section \<open>Properties\<close>

text \<open>On data of less than 16 MiB that is not empty the self test is silent: what was packed comes back, with its length.\<close>

theorem self_test_silent:
  assumes "crypt_works ext" and "g_crypto s = Some c" and "0 < ci_ivsize c" and "ci_ivsize c \<le> 128"
    and "ios_holds d ios" and "d \<noteq> []" and "length d < 16777216"
    and "0 \<notin> set (fst (ex_yarrow_read ext (ci_ivsize c) (env s)))"
  shows "\<exists>s'. do_crypt_test ext ios s = Inr ((False, False), s')"
proof -
  have p: "unat (ios_buffer_size ios) = length d" "ios_buffer ios = Some d"
    using assms(5,6) by (auto simp: ios_holds_def ios_buffer_size_data ios_buffer_data)
  obtain out s' r where r: "pack ext ios s = Inr (Some out, s')"
    "unpack ext out (of_nat (length d)) s' = Inr (r, s')" "ios_holds d r"
    using packed_is_restored [OF assms(1-6) _ assms(8)] small_compresses [OF assms(1,7)] assms(7) by fastforce
  have q: "ios_buffer_size r = ios_buffer_size ios" "ios_buffer r = Some d"
    using r(3) assms(5,6) by (simp_all add: ios_holds_size) (auto simp: ios_holds_def ios_buffer_data)
  have "of_nat (length d) = ios_buffer_size ios" using assms(5) by (simp add: ios_holds_size)
  then show ?thesis using r(1,2) by (simp add: do_crypt_test_pack p q strncmp_differs_def)
qed

theorem self_test_silent_witness:
  "\<exists>s'. do_crypt_test map_db (ios_of [1, 2, 3]) idle_peer = Inr ((False, False), s')"
  using self_test_silent [OF map_db_crypt, of idle_peer "\<lparr>ci_ivsize = 16, ci_ks = 32, ci_hashkey = replicate 32 9\<rparr>"
      "[1, 2, 3]" "ios_of [1, 2, 3]"]
  by (simp add: idle_peer_def map_db_def ios_holds_def)

text \<open>The message, whole and in its place.\<close>

lemma log_shape:
  "\<exists>header. log_default_log_handler msf e domain lvl (Some m) = header @ c_string m @ end_of_message (lvl AND 2 \<noteq> 0)
     \<and> (\<forall>m'. log_default_log_handler msf e domain lvl (Some m') = header @ c_string m' @ end_of_message (lvl AND 2 \<noteq> 0))"
  by (auto simp: log_default_log_handler_def Let_def G_LOG_FLAG_FATAL_def)

lemma exit_code_not_lowered: "exit_cleanup pid child code = Inl (Exit c) \<Longrightarrow> code \<le> c"
  by (auto simp: exit_cleanup_def Let_def split: if_splits option.splits)

end
