(* ===== verification/Browser.thy ===== *)
theory Browser
  imports Commands
begin

text \<open>
  \<open>cryptar-db.c\<close>, the program that looks into the databases of an archive, and the functions that print a
  record (\<open>db_filename_display\<close> and its like).  The variables of the file and what it has printed extend the state of a
  process.  A function pointer is the database whose function it is.  \<open>getopt_long\<close> is the C library's: its results are
  an argument, as for \<open>main.c\<close>.  What is printed on the standard error is left out.

  What is shown: all records of a database are printed, in the order of its cursor; a summary is found by its number;
  a stored block cannot be shown at all.
\<close>

section \<open>State\<close>

datatype actions = kFind_By_ID | kShow_All_IDs | kShow_All

definition action_number :: "actions \<Rightarrow> int" where
  "action_number a = (case a of kFind_By_ID \<Rightarrow> 0 | kShow_All_IDs \<Rightarrow> 1 | kShow_All \<Rightarrow> 2)"

record 'e browser = "'e proc" +
  the_database :: "databases option"
  the_action :: "actions option"
  the_fetch_func :: "databases option"
  the_display_func :: "databases option"
  the_key :: pointer
  printed_out :: "byte list"

definition printf :: "byte list \<Rightarrow> ('e browser, unit) prog" where
  "printf bs = update (\<lambda>s. s\<lparr>printed_out := printed_out s @ bs\<rparr>)"

section \<open>Printing a record\<close>

definition hex_digit :: "nat \<Rightarrow> byte" where
  "hex_digit n = of_nat (if n < 10 then 48 + n else 55 + n)"

definition hex2 :: "byte \<Rightarrow> byte list" where
  "hex2 b = [hex_digit (unat b div 16), hex_digit (unat b mod 16)]"

fun octal :: "nat \<Rightarrow> byte list" where
  "octal n = (if n < 8 then [of_nat (48 + n)] else octal (n div 8) @ [of_nat (48 + n mod 8)])"

declare octal.simps [simp del]

text \<open>\<open>%d\<close> of a \<open>guint32\<close> and of the narrower types, which are promoted.\<close>

definition d32 :: "u32 \<Rightarrow> byte list" where "d32 w = decimal (sint w)"
definition d16 :: "u16 \<Rightarrow> byte list" where "d16 w = decimal (uint w)"
definition d8 :: "byte \<Rightarrow> byte list" where "d8 w = decimal (uint w)"

abbreviation (input) line :: "string \<Rightarrow> byte list \<Rightarrow> byte list" where
  "line label v \<equiv> cstr label @ v @ [10]"

fun hex_pairs :: "byte list \<Rightarrow> byte list" where
  "hex_pairs (a # b # bs) = hex2 a @ hex2 b @ cstr '' '' @ hex_pairs bs"
| "hex_pairs _ = []"

text \<open>\<open>SCsum_print\<close>: pairs of bytes, with another space after the fifth.\<close>

definition SCsum_print :: "byte list \<Rightarrow> byte list" where
  "SCsum_print sc = hex_pairs (take 10 sc) @ cstr '' '' @ hex_pairs (take 10 (drop 10 sc))"

definition db_filename_display :: "dbfile \<Rightarrow> byte list" where
  "db_filename_display dbf = line ''DBFile:'' []
     @ line ''  dbf->filename = '' (case dbf_filename dbf of Some n \<Rightarrow> n | None \<Rightarrow> [])
     @ line ''  dbf->file_id = '' (d32 (dbf_file_id dbf))
     @ line ''  dbf->version = '' (d8 (dbf_version dbf))"

definition db_summary_display :: "dbsummary \<Rightarrow> byte list" where
  "db_summary_display dbs = line ''DBSummary:'' []
     @ cstr ''  dbs->summary_id = '' @ d32 (summary_id dbs)
     @ cstr ''  dbs->version = '' @ d8 (sm_version dbs)
     @ cstr ''  dbs->file_id = '' @ d32 (sm_file_id dbs)
     @ cstr ''  dbs->summary_time = '' @ d32 (summary_time dbs)
     @ cstr ''  dbs->mod_time = '' @ d32 (mod_time dbs)
     @ cstr ''  dbs->file_length = '' @ d32 (file_length dbs)
     @ cstr ''  dbs->inode_number = '' @ d32 (inode_number dbs)
     @ cstr ''  dbs->permssions = o'' @ octal (unat (permissions dbs)) @ cstr ''d''
     @ cstr ''  dbs->block_list_length = '' @ d32 (block_list_length dbs)
     @ cstr ''  dbs->block_list_remote_id = '' @ d32 (block_list_remote_id dbs)
     @ [10] @ cstr ''dbs->file_sha1 = '' @ SCsum_print (file_sha1 dbs)
     @ [10] @ cstr ''dbs->block_list_sha1 = '' @ SCsum_print (block_list_sha1 dbs) @ [10]"

definition db_block_display :: "dbblock \<Rightarrow> byte list" where
  "db_block_display dbb = line ''DBBlock:'' []
     @ line ''  dbb->local_id = '' (d32 (local_id dbb))
     @ line ''  dbb->version = '' (d8 (bl_version dbb))
     @ line ''  dbb->remote_id = '' (d32 (remote_id dbb))
     @ line ''  dbb->offset = '' (d32 (offset dbb))
     @ line ''  dbb->length = '' (d16 (bl_length dbb))
     @ line ''  dbb->weak_checksum = '' (d32 (weak_checksum dbb))
     @ line ''  dbb->strong_checksum = '' (hex_pairs (take 20 (strong_checksum dbb)))
     @ line ''  dbb->data = <omitted>'' []"

text \<open>An archive without a buffer fails the assertion of \<open>ios_buffer_size\<close>.\<close>

definition db_archive_display :: "dbarchive \<Rightarrow> byte list result" where
  "db_archive_display a = (case ar_ios a of None \<Rightarrow> Inl Abort
     | Some ios \<Rightarrow> Inr (line ''DBArchive:'' []
         @ line ''  a->archive_id = '' (d32 (ar_archive_id a))
         @ line ''  a->version = '' (d8 (ar_version a))
         @ line ''  a->(length) = '' (d32 (ios_buffer_size ios))
         @ line ''  a->(data) = <omitted>'' []))"

definition db_key_display :: "dbkey \<Rightarrow> byte list" where
  "db_key_display dbk = line ''DBKey:'' []
     @ line ''  dbk->key_id = '' (d32 (dbk_key_id dbk))
     @ line ''  dbk->key = '' (printed (dbk_key dbk))
     @ line ''  dbk->version = '' (d8 (dbk_version dbk))"

datatype db_object = A_file dbfile | A_summary dbsummary | A_block dbblock | A_archive dbarchive

fun shown :: "db_object \<Rightarrow> byte list result" where
  "shown (A_file dbf) = Inr (db_filename_display dbf)"
| "shown (A_summary dbs) = Inr (db_summary_display dbs)"
| "shown (A_block dbb) = Inr (db_block_display dbb)"
| "shown (A_archive a) = db_archive_display a"

text \<open>Each of the functions asserts that its record is not NULL.\<close>

definition display :: "db_object option \<Rightarrow> ('e browser, unit) prog" where
  "display obj = (case obj of None \<Rightarrow> fail Abort | Some x \<Rightarrow> andthen (lifted (shown x)) printf)"

section \<open>The options\<close>

definition choose_database :: "byte \<Rightarrow> ('e browser, int) prog" where
  "choose_database c =
     (let select = (\<lambda>db fetch display. update (\<lambda>s. s\<lparr>the_database := Some db, the_fetch_func := fetch s, the_display_func := display s\<rparr>));
          both = (\<lambda>db. select db (\<lambda>_. Some db) (\<lambda>_. Some db)) in
      if c = of_char CHR ''f'' then andthen (both kFilenames) (\<lambda>_. ret 0)
      else if c = of_char CHR ''s'' then andthen (both kSummary) (\<lambda>_. ret 0)
      else if c = of_char CHR ''b'' then andthen (both kBlocks) (\<lambda>_. ret 0)
      else if c = of_char CHR ''a'' then andthen (both kArchive) (\<lambda>_. andthen (set_int_option kOption_server 1) (\<lambda>_. ret 0))
      else if c = of_char CHR ''c'' then andthen (select kConstants the_fetch_func the_display_func) (\<lambda>_. ret 0)
      else if c = of_char CHR ''e'' then andthen (select kServerConstants the_fetch_func the_display_func) (\<lambda>_.
        andthen (set_int_option kOption_server 1) (\<lambda>_. ret 0))
      else if c = of_char CHR ''k'' then andthen (select kKeys (\<lambda>_. None) (\<lambda>_. None)) (\<lambda>_. ret 0)
      else ret 1)"

definition choose_action :: "byte \<Rightarrow> ('e browser, int) prog" where
  "choose_action c =
     (let select = (\<lambda>a. andthen (update (\<lambda>s. s\<lparr>the_action := Some a\<rparr>)) (\<lambda>_. ret 0)) in
      if c = of_char CHR ''f'' then select kFind_By_ID
      else if c = of_char CHR ''l'' then select kShow_All_IDs
      else if c = of_char CHR ''s'' then select kShow_All
      else ret 1)"

text \<open>The first character of \<open>optarg\<close>; that of an empty string is its terminator.\<close>

definition first_char :: "pointer \<Rightarrow> ('s, byte) prog" where
  "first_char optarg = (case optarg of None \<Rightarrow> fail Segv | Some a \<Rightarrow> ret (case c_string a of [] \<Rightarrow> 0 | c # _ \<Rightarrow> c))"

text \<open>One turn of the loop: \<open>ret\<close> and \<open>no_archive\<close>, which are only ever set to 1.\<close>

definition cdb_option :: "char \<times> pointer \<Rightarrow> ('e browser, bool \<times> bool) prog" where
  "cdb_option opt = (case opt of (c, optarg) \<Rightarrow>
     if c = CHR ''d'' then andthen (first_char optarg) (\<lambda>a. andthen (choose_database a) (\<lambda>r. ret (r \<noteq> 0, False)))
     else if c = CHR ''a'' then andthen (first_char optarg) (\<lambda>a. andthen (choose_action a) (\<lambda>r. ret (r \<noteq> 0, False)))
     else if c = CHR ''h'' then ret (True, True)
     else if c = CHR '':'' then andthen (printf (line ''Required argument missing.'' [])) (\<lambda>_. ret (True, False))
     else if c = CHR ''?'' then andthen (printf (line ''Unknown option or ambiguous match'' [])) (\<lambda>_. ret (True, False))
     else andthen (printf (cstr ''?? getopt returned character code 0'' @ octal (of_char c) @ cstr '' ??'' @ [10]))
       (\<lambda>_. ret (True, False)))"

primrec cdb_options :: "(char \<times> pointer) list \<Rightarrow> bool \<times> bool \<Rightarrow> ('e browser, bool \<times> bool) prog" where
  "cdb_options [] r = ret r"
| "cdb_options (opt # opts) r = andthen (cdb_option opt) (\<lambda>(bad, no_archive). cdb_options opts (fst r \<or> bad, snd r \<or> no_archive))"

text \<open>\<open>args\<close> are the arguments from \<open>optind\<close> on.\<close>

definition parse_cdb_options :: "(char \<times> pointer) list \<Rightarrow> byte list list \<Rightarrow> ('e browser, bool) prog" where
  "parse_cdb_options opts args = andthen (cdb_options opts (False, False)) (\<lambda>(bad, no_archive).
     andthen (state the_action) (\<lambda>action.
     let bad = (bad \<or> \<not> no_archive \<and> length args < 1 \<or> action = Some kFind_By_ID \<and> length args < 2) in
     andthen (set_char_option kArchive_target (case args of [] \<Rightarrow> None | a # _ \<Rightarrow> Some a)) (\<lambda>_.
     andthen (update (\<lambda>s. if length args > 1 then s\<lparr>the_key := Some (args ! 1)\<rparr> else s)) (\<lambda>_. ret bad))))"

section \<open>Finding and showing\<close>

text \<open>
  The argument of the fetching function is the key itself for a file name, and the number that it spells for
  another database: a function that expects the other kind is called with a wild pointer.
\<close>

definition fetch_object :: "'e external \<Rightarrow> databases option \<Rightarrow> bool \<Rightarrow> byte list \<Rightarrow> ('e browser, db_object option) prog" where
  "fetch_object ext f by_name key = (let ident = word_of_int (atoi key) in case f of
       None \<Rightarrow> fail Segv
     | Some kFilenames \<Rightarrow> if by_name then andthen (db_filename_fetch ext (c_string key)) (\<lambda>r. ret (map_option A_file r)) else fail Undef
     | Some kSummary \<Rightarrow> if by_name then fail Undef else andthen (db_summary_fetch ext ident) (\<lambda>r. ret (map_option A_summary r))
     | Some kBlocks \<Rightarrow> if by_name then fail Undef else andthen (db_block_fetch ext ident) (\<lambda>r. ret (map_option A_block r))
     | Some kArchive \<Rightarrow> if by_name then fail Undef else andthen (db_archive_fetch ext ident) (\<lambda>r. ret (map_option A_archive r))
     | Some _ \<Rightarrow> fail Undef)"

definition find_by_id :: "'e external \<Rightarrow> databases \<Rightarrow> ('e browser, unit) prog" where
  "find_by_id ext db = andthen (db_open ext db) (\<lambda>_ s.
     case the_key s of None \<Rightarrow> Inl Segv
     | Some key \<Rightarrow> andthen (fetch_object ext (the_fetch_func s) (db = kFilenames) key) (\<lambda>obj s.
         if the_display_func s = None then Inl Segv else display obj s) s)"

definition display_entry :: "databases \<Rightarrow> iosbuf \<Rightarrow> byte list \<Rightarrow> ('e browser, unit) prog" where
  "display_entry db ios key s = (let id_string = c_string key in
     if the_action s = Some kShow_All_IDs then
       (if db = kFilenames then printf (id_string @ [10]) s
        else andthen (lifted (db_get_key_int key)) (\<lambda>ident. printf (d32 ident @ [10])) s)
     else (case db of
         kFilenames \<Rightarrow> andthen (from_ios (db_filename_from_stream id_string) ios) (\<lambda>r. display (map_option A_file r)) s
       | kSummary \<Rightarrow> andthen (lifted (db_get_key_int key)) (\<lambda>ident.
           andthen (from_ios (db_summary_from_stream ident) ios) (\<lambda>r. display (Some (A_summary r)))) s
       | kBlocks \<Rightarrow> andthen (lifted (db_get_key_int key)) (\<lambda>ident.
           andthen (from_ios (db_block_from_stream ident) ios) (\<lambda>r. display (map_option A_block r))) s
       | kArchive \<Rightarrow> andthen (lifted (db_get_key_int key)) (\<lambda>ident.
           andthen (from_ios (db_archive_from_stream ident) ios) (\<lambda>r. display (map_option A_archive r))) s
       | _ \<Rightarrow> Inr ((), s)))"

partial_function (option) display_loop ::
    "'e external \<Rightarrow> databases \<Rightarrow> nat \<Rightarrow> iosbuf \<Rightarrow> 'e browser \<Rightarrow> (unit \<times> 'e browser) result option" where
  "display_loop ext db curs ios s = (case ex_db_c_get ext curs (env s) of (r, key, data, e) \<Rightarrow>
     if r = DB_NOTFOUND then Some (Inr ((), s\<lparr>env := e\<rparr>))
     else if r \<noteq> DB_OK then Some (Inl (Exit 1))
     else (case ios_set_buffer (Some data) (of_nat (length data)) ios of
         Inl x \<Rightarrow> Some (Inl x)
       | Inr (_, ios) \<Rightarrow> (case display_entry db ios key (s\<lparr>env := e\<rparr>) of
             Inl x \<Rightarrow> Some (Inl x)
           | Inr (_, s) \<Rightarrow> display_loop ext db curs ios s)))"

definition display_all :: "'e external \<Rightarrow> databases \<Rightarrow> ('e browser, unit) prog" where
  "display_all ext db = andthen (db_open ext db) (\<lambda>_.
     andthen (db_curs_begin ext db) (\<lambda>curs.
     andthen (loop (display_loop ext db curs ios_new)) (\<lambda>_. db_curs_end ext curs)))"

definition browser_main :: "'e external \<Rightarrow> (char \<times> pointer) list \<Rightarrow> byte list list \<Rightarrow> ('e browser, int) prog" where
  "browser_main ext opts args = andthen (parse_cdb_options opts args) (\<lambda>bad s.
     if bad then Inr (1, s)
     else case the_database s of None \<Rightarrow> Inr (1, s)
     | Some db \<Rightarrow> (case the_action s of None \<Rightarrow> Inr (1, s)
     | Some action \<Rightarrow>
         andthen (printf (cstr ''DB = '' @ decimal (uint (database_number db)) @ cstr '', action = '' @ decimal (action_number action) @ cstr ''.'' @ [10])) (\<lambda>_.
         andthen (case action of kFind_By_ID \<Rightarrow> find_by_id ext db | _ \<Rightarrow> display_all ext db) (\<lambda>_. ret 0)) s))"

section \<open>Lemmas\<close>

text \<open>The documented behaviour of a cursor: each row once, then \<open>DB_NOTFOUND\<close>.\<close>

primrec cursor_yields :: "'e external \<Rightarrow> nat \<Rightarrow> (byte list \<times> byte list) list \<Rightarrow> 'e \<Rightarrow> 'e \<Rightarrow> bool" where
  "cursor_yields ext c [] e e' \<longleftrightarrow> (\<exists>k d. ex_db_c_get ext c e = (DB_NOTFOUND, k, d, e'))"
| "cursor_yields ext c (r # rows) e e' \<longleftrightarrow> length (snd r) < 2147483648
     \<and> (\<exists>e1. ex_db_c_get ext c e = (DB_OK, fst r, snd r, e1) \<and> cursor_yields ext c rows e1 e')"

definition cursor_lists :: "'e external \<Rightarrow> byte list \<Rightarrow> (byte list \<times> byte list) list \<Rightarrow> 'e \<Rightarrow> 'e \<Rightarrow> bool" where
  "cursor_lists ext h rows e e' \<longleftrightarrow> (\<exists>c e1 e2. ex_db_cursor ext h e = (DB_OK, c, e1)
     \<and> cursor_yields ext c rows e1 e2 \<and> ex_db_c_close ext c e2 = (DB_OK, e'))"

text \<open>Opening a database leaves the variables of the browser alone.\<close>

lemma mkdir_more: "mkdir p s = Inr (r, t) \<Longrightarrow> proc.more t = proc.more s"
  by (auto simp: mkdir_def Let_def split: if_splits)

lemma do_mkdir_more: "do_mkdir p s = Inr (r, t) \<Longrightarrow> proc.more t = proc.more s"
  by (auto simp: do_mkdir_def Let_def elim!: andthen_InrE dest!: mkdir_more split: if_splits mkdir_ret.splits)

lemma assert_mkdir_more: "assert_mkdir p s = Inr (r, t) \<Longrightarrow> proc.more t = proc.more s"
  by (auto simp: assert_mkdir_def require_def elim!: andthen_InrE dest!: do_mkdir_more split: if_splits)

lemma archive_dir_name_more: "archive_dir_name s = Inr (r, t) \<Longrightarrow> proc.more t = proc.more s"
  by (auto simp: archive_dir_name_def Let_def elim!: andthen_InrE dest!: assert_mkdir_more split: option.splits)

lemma db_name_more: "db_name s = Inr (r, t) \<Longrightarrow> proc.more t = proc.more s"
  by (auto simp: db_name_def server_db_name_def client_db_name_def generic_db_name_def elim!: andthen_InrE
      dest!: assert_mkdir_more archive_dir_name_more split: if_splits)

lemma db_open_result:
  assumes "db_open ext db s = Inr ((), t)"
  shows "proc.more t = proc.more s" "\<exists>h. database_ptrs t db = Some h"
  using assms by (auto simp: db_open_def open_db_def Let_def elim!: andthen_InrE dest!: db_name_more
      split: if_splits prod.splits)

lemma browser_fields:
  assumes "proc.more (t :: 'e browser) = proc.more s"
  shows "the_action t = the_action s" "printed_out t = printed_out s" "the_key t = the_key s"
    "the_fetch_func t = the_fetch_func s" "the_display_func t = the_display_func s"
  using assms by (cases s; cases t; simp)+

lemma display_loop_run:
  fixes s :: "'e browser" and ext :: "'e external"
  assumes "cursor_yields ext c (map row xs) (env s) e'" "ios_ok ios" "the_action s = a"
    and "\<And>x ios (s :: 'e browser). x \<in> set xs \<Longrightarrow> ios_holds (snd (row x)) ios \<Longrightarrow> the_action s = a
        \<Longrightarrow> display_entry db ios (fst (row x)) s = Inr ((), s\<lparr>printed_out := printed_out s @ f x\<rparr>)"
  shows "display_loop ext db c ios s = Some (Inr ((), s\<lparr>env := e', printed_out := printed_out s @ concat (map f xs)\<rparr>))"
  using assms
proof (induction xs arbitrary: ios s)
  case Nil
  then show ?case by (subst display_loop.simps) auto
next
  case (Cons x xs)
  obtain k d where r: "row x = (k, d)" by (cases "row x")
  obtain e1 where e1: "ex_db_c_get ext c (env s) = (DB_OK, k, d, e1)" "cursor_yields ext c (map row xs) e1 e'"
    "length d < 2147483648" using Cons.prems(1) r by auto
  obtain ios1 where i: "ios_set_buffer (Some d) (of_nat (length d)) ios = Inr ((), ios1)" "ios_holds d ios1"
    using ios_set_buffer_holds [OF Cons.prems(2) e1(3)] by blast
  let ?s = "s\<lparr>env := e1, printed_out := printed_out s @ f x\<rparr>"
  have "display_entry db ios1 k (s\<lparr>env := e1\<rparr>) = Inr ((), ?s)"
    using Cons.prems(4) [of x ios1 "s\<lparr>env := e1\<rparr>"] i(2) Cons.prems(3) r by simp
  moreover have "display_loop ext db c ios1 ?s
      = Some (Inr ((), ?s\<lparr>env := e', printed_out := printed_out ?s @ concat (map f xs)\<rparr>))"
    by (rule Cons.IH) (use e1(2) i(2) Cons.prems(3,4) in \<open>simp_all add: ios_holds_def\<close>)
  ultimately show ?case using e1(1) i(1) by (subst display_loop.simps) simp
qed

lemma display_all_run:
  fixes s :: "'e browser" and ext :: "'e external"
  assumes "db_open ext db s = Inr ((), t)" "cursor_lists ext (the (database_ptrs t db)) (map row xs) (env t) e'"
    "the_action s = a"
    and "\<And>x ios (s :: 'e browser). x \<in> set xs \<Longrightarrow> ios_holds (snd (row x)) ios \<Longrightarrow> the_action s = a
        \<Longrightarrow> display_entry db ios (fst (row x)) s = Inr ((), s\<lparr>printed_out := printed_out s @ f x\<rparr>)"
  shows "display_all ext db s = Inr ((), t\<lparr>env := e', printed_out := printed_out s @ concat (map f xs)\<rparr>)"
proof -
  obtain h where h: "database_ptrs t db = Some h" using db_open_result(2) [OF assms(1)] by blast
  note same = browser_fields [OF db_open_result(1) [OF assms(1)]]
  obtain c e1 e2 where c: "ex_db_cursor ext h (env t) = (DB_OK, c, e1)" "cursor_yields ext c (map row xs) e1 e2"
    "ex_db_c_close ext c e2 = (DB_OK, e')" using assms(2) h by (auto simp: cursor_lists_def)
  have "display_loop ext db c ios_new (t\<lparr>env := e1\<rparr>)
      = Some (Inr ((), t\<lparr>env := e2, printed_out := printed_out s @ concat (map f xs)\<rparr>))"
    using display_loop_run [where s = "t\<lparr>env := e1\<rparr>" and row = row and f = f and ios = ios_new and e' = e2, OF _ _ _ assms(4)]
      c(2) assms(3) same by simp
  then show ?thesis using assms(1) h c by (simp add: display_all_def db_curs_begin_def db_ptr_def loop_def db_curs_end_def)
qed

lemma display_entry_summary:
  assumes "summary_ok ident a" "ios_holds (summary_bytes a) ios" "the_action s \<noteq> Some kShow_All_IDs"
  shows "display_entry kSummary ios (be32 ident) s = Inr ((), s\<lparr>printed_out := printed_out s @ db_summary_display a\<rparr>)"
proof -
  have "from_ios (db_summary_from_stream ident) ios s = Inr (a, s)"
    by (rule from_ios_reads [OF assms(2) summary_wire.get_reads [OF assms(1)]])
  then show ?thesis
    using assms(3) by (simp add: display_entry_def db_get_key_int_be32 display_def printf_def)
qed

text \<open>What \<open>db_block_add\<close> stores of a block is too short to be read as one.\<close>

definition stored_block :: "dbblock \<Rightarrow> byte list" where
  "stored_block b = [bl_version b] @ be32 (offset b) @ be16 (bl_length b)"

lemma writes_stored_block: "writes (db_block_to_db b) (stored_block b)"
  unfolding db_block_to_db_def stored_block_def by (intro ios_specs)

lemma stored_block_unreadable:
  assumes "ios_holds (stored_block b) ios" "ios_read_ptr ios = 0"
  shows "db_block_from_stream ident ios = Inl Abort"
proof -
  have bytes: "ios_bytes ios = stored_block b" using assms by (simp add: ios_holds_def ios_data_def)
  then have "unat (ios_len ios) = 7" using assms by (simp add: ios_holds_def ios_ok_def stored_block_def be32_def be16_def)
  then have len: "ios_len ios = 7" using unat_eq_of_natD by fastforce
  show ?thesis
    by (simp add: db_block_from_stream_def db_block_from_stream_no_data_def ios_buffer_def ios_at_def ios_read_byte_def
        ios_read_def ios_read_int32_def andthen_def len bytes assms(2) stored_block_def be32_def be16_def ios_buffer_size_def)
qed

section \<open>Properties\<close>

text \<open>C31. The browser shows every summary of the database, once each and in the order of the cursor, and ends.\<close>

theorem all_summaries_shown:
  assumes "db_open ext kSummary s = Inr ((), t)" "the_action s = Some kShow_All"
    and "cursor_lists ext (the (database_ptrs t kSummary)) (map (\<lambda>a. (be32 (summary_id a), summary_bytes a)) sums) (env t) e'"
    and "\<forall>a \<in> set sums. summary_ok (summary_id a) a"
  shows "display_all ext kSummary s
      = Inr ((), t\<lparr>env := e', printed_out := printed_out s @ concat (map db_summary_display sums)\<rparr>)"
  by (rule display_all_run [OF assms(1,3,2)]) (use assms(4) in \<open>auto intro!: display_entry_summary\<close>)

text \<open>A database with the given rows, whose state is the position of the cursor.\<close>

definition row_db :: "(byte list \<times> byte list) list \<Rightarrow> nat external" where
  "row_db rows = \<lparr>ex_db_create = (\<lambda>_. True), ex_db_open = (\<lambda>_ e. (DB_OK, e)), ex_db_close = (\<lambda>_ e. (DB_OK, e)),
     ex_db_get = (\<lambda>h k e. (DB_NOTFOUND, [])), ex_db_put = (\<lambda>h k d e. (DB_ERROR, e)), ex_db_del = (\<lambda>h k e. (DB_ERROR, e)),
     ex_db_sync = (\<lambda>_ e. e), ex_db_cursor = (\<lambda>_ _. (DB_OK, 0, 0)),
     ex_db_c_get = (\<lambda>_ n. if n < length rows then (DB_OK, fst (rows ! n), snd (rows ! n), Suc n) else (DB_NOTFOUND, [], [], n)),
     ex_db_c_close = (\<lambda>_ e. (DB_OK, e)),
     ex_rand = (\<lambda>e. (4, e)), ex_time = (\<lambda>_. 0), ex_garbage = (\<lambda>n. replicate n 0), ex_sha1 = (\<lambda>_. replicate 20 0),
     ex_sort = (\<lambda>_ bs. bs), ex_compress = (\<lambda>d _. Some d),
     ex_uncompress = (\<lambda>d _. Some d), ex_crypto_ok = True, ex_ivsize = 16, ex_keysize = 32,
     ex_yarrow_read = (\<lambda>n e. (replicate n 1, e)), ex_sha256 = (\<lambda>_. replicate 32 9), ex_ctr = (\<lambda>_ _ d. d)\<rparr>"

definition summary_rows :: "(byte list \<times> byte list) list" where
  "summary_rows = map (\<lambda>a. (be32 (summary_id a), summary_bytes a)) [sample_summary, sample_summary\<lparr>summary_id := 7\<rparr>]"

text \<open>A browser whose archive directory is known and exists.\<close>

definition sample_browser :: "nat browser" where
  "sample_browser = proc.extend ((plain_proc 0)\<lparr>archive_dir_cache := Some (cstr ''/h''),
       file_sys := \<lparr>fs_nodes = (\<lambda>_. Some Directory), fs_refuses = (\<lambda>_. False)\<rparr>\<rparr>)
     (browser.fields (Some kSummary) (Some kShow_All) (Some kSummary) (Some kSummary) None [])"

theorem all_summaries_shown_witness:
  "\<exists>t. display_all (row_db summary_rows) kSummary sample_browser = Inr ((), t)
     \<and> printed_out t = db_summary_display sample_summary @ db_summary_display (sample_summary\<lparr>summary_id := 7\<rparr>)"
proof -
  let ?s = sample_browser and ?db = "row_db summary_rows"
  have s: "int_option opt ?s = 0" "archive_dir_cache ?s = Some (cstr ''/h'')" "fs_nodes (file_sys ?s) = (\<lambda>_. Some Directory)"
    "env ?s = 0" "the_action ?s = Some kShow_All" "printed_out ?s = []" for opt
    by (simp_all add: sample_browser_def plain_proc_def int_option_def proc.defs browser.defs)
  have "do_mkdir d ?s = Inr ((0, trim_trailing_slashes d), ?s)" for d
    by (simp add: do_mkdir_def mkdir_def andthen_def s read_only_def)
  then have m: "assert_mkdir d ?s = Inr (trim_trailing_slashes d, ?s)" for d by (simp add: assert_mkdir_def)
  have "archive_dir_name ?s = Inr (cstr ''/h'', ?s)" by (simp add: archive_dir_name_def s)
  then obtain name where n: "db_name ?s = Inr (name, ?s)"
    by (simp add: db_name_def client_db_name_def generic_db_name_def s m)
  have "ex_db_create ?db (env ?s)" "\<And>h e. ex_db_open ?db h e = (DB_OK, e)" by (simp_all add: row_db_def)
  then obtain t where t: "db_open ?db kSummary ?s = Inr ((), t)" "env t = 0"
    by (simp add: db_open_def open_db_def n Let_def s)
  show ?thesis
    using all_summaries_shown [OF t(1), of "[sample_summary, sample_summary\<lparr>summary_id := 7\<rparr>]" 2] t(2)
    by (simp add: cursor_lists_def s row_db_def summary_rows_def summary_ok_def sample_summary_def summary_bytes_def)
qed

text \<open>The names of all files, each on a line.\<close>

theorem all_names_shown:
  assumes "db_open ext kFilenames s = Inr ((), t)" "the_action s = Some kShow_All_IDs"
    and "cursor_lists ext (the (database_ptrs t kFilenames)) rows (env t) e'"
  shows "display_all ext kFilenames s
      = Inr ((), t\<lparr>env := e', printed_out := printed_out s @ concat (map (\<lambda>(name, _). c_string name @ [10]) rows)\<rparr>)"
  by (rule display_all_run [where row = "\<lambda>r. r", OF assms(1) _ assms(2)])
    (use assms(3) in \<open>simp_all add: display_entry_def printf_def split: prod.splits\<close>)

text \<open>A summary is found by its number.\<close>

theorem summary_found_by_id:
  assumes "db_open ext kSummary s = Inr ((), t)" "db_ready ext A kSummary t" "the_key s = Some key"
    "the_fetch_func s = Some kSummary" "the_display_func s = Some kSummary"
    "ident = word_of_int (atoi key)" "summary_ok ident a" "db_view A kSummary t (be32 ident) = Some (summary_bytes a)"
  shows "find_by_id ext kSummary s = Inr ((), t\<lparr>printed_out := printed_out s @ db_summary_display a\<rparr>)"
proof -
  note same = browser_fields [OF db_open_result(1) [OF assms(1)]]
  obtain k where k: "int_key ident = Inr k" "ios_holds (be32 ident) k" by (rule int_key_run)
  obtain out where out: "db_get ext kSummary k ios_new t = Inr (out, t)" "ios_holds (summary_bytes a) out"
    using db_get_holds [OF assms(2) k(2)] assms(8) by auto
  have "ios_buffer_size out \<noteq> 0"
    using out(2) ios_holds_size [OF out(2)] length_summary_bytes [OF assms(7)] by simp
  moreover have "from_ios (db_summary_from_stream ident) out t = Inr (a, t)"
    by (rule from_ios_reads [OF out(2) summary_wire.get_reads [OF assms(7)]])
  ultimately have "db_summary_fetch ext ident t = Inr (Some a, t)"
    using k(1) out(1) by (simp add: db_summary_fetch_def)
  then show ?thesis
    using assms(1,3-6) same by (simp add: find_by_id_def fetch_object_def display_def printf_def Let_def)
qed

text \<open>No stored block can be looked at: the one that the cursor finds first stops the list of all blocks, and
  to find one by its number is undefined.\<close>

theorem blocks_cannot_be_shown:
  assumes "db_open ext kBlocks s = Inr ((), t)" "the_action s = Some kShow_All"
    and "ex_db_cursor ext (the (database_ptrs t kBlocks)) (env t) = (DB_OK, c, e1)"
    and "ex_db_c_get ext c e1 = (DB_OK, be32 ident, stored_block b, e2)"
  shows "display_all ext kBlocks s = Inl Abort"
proof -
  obtain h where h: "database_ptrs t kBlocks = Some h" using db_open_result(2) [OF assms(1)] by blast
  have "length (stored_block b) < 2147483648" by (simp add: stored_block_def)
  then obtain ios where i: "ios_set_buffer (Some (stored_block b)) (of_nat (length (stored_block b))) ios_new = Inr ((), ios)"
    "ios_holds (stored_block b) ios" using ios_set_buffer_holds [OF ios_ok_new] by blast
  have a: "the_action t = Some kShow_All" using browser_fields [OF db_open_result(1) [OF assms(1)]] assms(2) by simp
  have "display_entry kBlocks ios (be32 ident) (t\<lparr>env := e2\<rparr>) = Inl Abort"
    by (simp add: display_entry_def a db_get_key_int_be32 from_ios_def
        stored_block_unreadable [OF i(2) ios_set_buffer_read_ptr [OF i(1)]])
  then have "display_loop ext kBlocks c ios_new (t\<lparr>env := e1\<rparr>) = Some (Inl Abort)"
    using assms(4) i(1) by (subst display_loop.simps) simp
  then show ?thesis using assms(1,3) h by (simp add: display_all_def db_curs_begin_def db_ptr_def loop_def)
qed

text \<open>A usage error touches neither a database nor the file system.\<close>

definition keeps_files :: "('e browser, 'a) prog \<Rightarrow> bool" where
  "keeps_files m \<longleftrightarrow> (\<forall>s r t. m s = Inr (r, t) \<longrightarrow> env t = env s \<and> file_sys t = file_sys s)"

lemma keeps_files_basic:
  "keeps_files (ret x)" "keeps_files (fail e)" "keeps_files (printf bs)" "keeps_files (state f)"
  "keeps_files (set_int_option opt val)" "keeps_files (set_char_option copt cval)" "keeps_files (first_char p)"
  by (auto simp: keeps_files_def printf_def set_int_option_def set_char_option_def first_char_def split: option.splits)

lemma keeps_files_update: "(\<And>s. env (f s) = env s \<and> file_sys (f s) = file_sys s) \<Longrightarrow> keeps_files (update f)"
  by (simp add: keeps_files_def)

lemma keeps_files_andthen: "keeps_files m \<Longrightarrow> (\<And>x. keeps_files (f x)) \<Longrightarrow> keeps_files (andthen m f)"
  unfolding keeps_files_def by (metis andthen_InrE)

lemma keeps_files_if: "keeps_files m \<Longrightarrow> keeps_files n \<Longrightarrow> keeps_files (if b then m else n)"
  by simp

lemmas keeps_files_rules = keeps_files_if keeps_files_basic keeps_files_update keeps_files_andthen

lemma choices_keep_files: "keeps_files (choose_database c)" "keeps_files (choose_action c)"
  unfolding choose_database_def choose_action_def Let_def
  by (intro keeps_files_rules; simp)+

lemma cdb_option_keeps_files: "keeps_files (cdb_option opt)"
  unfolding cdb_option_def
  by (cases opt; simp only: prod.case; intro keeps_files_rules choices_keep_files)

lemma cdb_options_keep_files: "keeps_files (cdb_options opts acc)"
  by (induction opts arbitrary: acc)
    (auto intro!: keeps_files_rules cdb_option_keeps_files split: prod.split)

lemma parse_cdb_options_keeps_files: "keeps_files (parse_cdb_options opts args)"
  unfolding parse_cdb_options_def Let_def
  by (intro keeps_files_andthen cdb_options_keep_files) (auto intro!: keeps_files_rules split: prod.split)

theorem usage_error_touches_nothing:
  assumes "browser_main ext opts args s = Inr (r, t)" "r \<noteq> 0"
  shows "r = 1 \<and> env t = env s \<and> file_sys t = file_sys s"
proof -
  obtain bad u where u: "parse_cdb_options opts args s = Inr (bad, u)"
    using assms(1) by (auto simp: browser_main_def elim!: andthen_InrE)
  have "env u = env s \<and> file_sys u = file_sys s"
    using u parse_cdb_options_keeps_files unfolding keeps_files_def by blast
  moreover have "r = 1 \<and> u = t"
    using assms u by (auto simp: browser_main_def elim!: andthen_InrE split: if_splits option.splits)
  ultimately show ?thesis by simp
qed

text \<open>A constant cannot be found: after \<open>-d c\<close> there is no function to fetch one with.\<close>

theorem constants_cannot_be_found:
  assumes "db_open ext kConstants s = Inr ((), t)" "the_fetch_func s = None" "the_key s \<noteq> None"
  shows "find_by_id ext kConstants s = Inl Segv"
  using assms browser_fields [OF db_open_result(1) [OF assms(1)]] by (auto simp: find_by_id_def fetch_object_def)

end
