(* ===== verification/Listing.thy ===== *)
theory Listing
  imports Browser
begin

text \<open>
  What \<open>do_list\<close> (\<open>list.c\<close>) prints, over the databases of names and summaries: every file, in the order of the cursor.
\<close>

section \<open>A row of the names\<close>

definition file_row :: "dbfile \<Rightarrow> byte list \<times> byte list" where
  "file_row f = (case dbf_filename f of None \<Rightarrow> [] | Some n \<Rightarrow> n, be16 (ucast (dbf_version f)) @ be32 (dbf_file_id f))"

definition nameable :: "dbfile \<Rightarrow> bool" where
  "nameable f \<longleftrightarrow> (case dbf_filename f of None \<Rightarrow> False | Some n \<Rightarrow> n \<noteq> [] \<and> 0 \<notin> set n \<and> length n < 2147483648)"

text \<open>Moving a cursor does not write.\<close>

definition cursors_read_only :: "'e external \<Rightarrow> 'e db_contents \<Rightarrow> bool" where
  "cursors_read_only ext A \<longleftrightarrow> (\<forall>h e. A (snd (snd (ex_db_cursor ext h e))) = A e)
     \<and> (\<forall>c e. A (snd (snd (snd (ex_db_c_get ext c e)))) = A e)"

lemma byte_u16_byte: "ucast (ucast (b :: byte) :: u16) = b"
  by (rule bit_word_eqI) (simp add: bit_simps)

lemma reads_file_row:
  assumes "dbf_filename f = Some n" "ios_holds (snd (file_row f)) data"
  shows "from_ios (db_filename_from_stream n) data s = Inr (Some f, s)"
proof -
  have "reads (andthen ios_read_int16 (\<lambda>version. andthen ios_read_int32 (\<lambda>file_id.
      ret (Some ((db_filename_new n)\<lparr>dbf_version := ucast version, dbf_file_id := file_id\<rparr>)))))
    (be16 (ucast (dbf_version f)) @ be32 (dbf_file_id f) @ [])
    (Some ((db_filename_new n)\<lparr>dbf_version := ucast (ucast (dbf_version f) :: u16), dbf_file_id := dbf_file_id f\<rparr>))"
    by (rule reads_andthen [OF reads_int16] reads_andthen [OF reads_int32] reads_ret)+
  moreover have "(db_filename_new n)\<lparr>dbf_version := ucast (ucast (dbf_version f) :: u16), dbf_file_id := dbf_file_id f\<rparr> = f"
    using assms(1) by (cases f) (simp add: db_filename_new_def byte_u16_byte)
  ultimately have r: "reads (andthen ios_read_int16 (\<lambda>version. andthen ios_read_int32 (\<lambda>file_id.
      ret (Some ((db_filename_new n)\<lparr>dbf_version := ucast version, dbf_file_id := file_id\<rparr>))))) (snd (file_row f)) (Some f)"
    by (simp add: file_row_def)
  have ne: "snd (file_row f) \<noteq> []" by (simp add: file_row_def be32_def)
  show ?thesis unfolding db_filename_from_stream_def [abs_def] by (rule reads_guarded [OF assms(2) ne r])
qed

lemma curs_next_row:
  assumes "ex_db_c_get ext c (env s) = (DB_OK, fst (file_row f), snd (file_row f), e)" "nameable f"
  shows "db_filename_curs_next ext c s = Inr (Some f, s\<lparr>env := e\<rparr>)"
proof -
  obtain n where n: "dbf_filename f = Some n" "n \<noteq> []" "0 \<notin> set n" "length n < 2147483648"
    using assms(2) by (auto simp: nameable_def split: option.splits)
  have k: "fst (file_row f) = n" by (simp add: file_row_def n)
  obtain key where key: "ios_set_buffer (Some n) (of_nat (length n)) ios_new = Inr ((), key)" "ios_holds n key"
    using ios_set_buffer_holds [OF ios_ok_new n(4)] by blast
  have "length (snd (file_row f)) < 2147483648" by (simp add: file_row_def)
  then obtain data where data: "ios_set_buffer (Some (snd (file_row f))) (of_nat (length (snd (file_row f)))) ios_new = Inr ((), data)"
    "ios_holds (snd (file_row f)) data" using ios_set_buffer_holds [OF ios_ok_new] by blast
  have len: "ios_buffer_size key = of_nat (length n)" by (rule ios_holds_size [OF key(2)])
  have u: "unat (of_nat (length n) :: u32) = length n" using n(4) by (simp add: unat_of_nat_u32)
  have pos: "0 < sint (of_nat (length n) :: u32)"
    using u32_nonneg [of "of_nat (length n)"] u n(2,4) by (metis length_0_conv linorder_neqE_linordered_idom signed_eq_0_iff unat_0)
  obtain key' where r: "ios_read (of_nat (length n)) key = Inr (Some n, key')"
    using ios_read_spec [of key n "[]" "of_nat (length n)"] key(2) u by (auto simp: ios_holds_def)
  have "g_strndup (Some n) (of_nat (length n)) = Inr (Some n)"
    using n(3) u by (simp add: g_strndup_def c_string_id)
  then have name: "from_ios (\<lambda>k. rbind (ios_read (of_nat (length n)) k) (\<lambda>(p, k).
      rbind (g_strndup p (of_nat (length n))) (\<lambda>n. Inr (n, k)))) key t = Inr (Some n, t)" for t
    using r by (simp add: from_ios_def)
  show ?thesis
    using assms(1) key(1) data(1) pos reads_file_row [OF n(1) data(2)]
    by (simp add: db_filename_curs_next_def db_curs_next_def k len name Let_def)
qed

text \<open>The end of the rows.\<close>

lemma curs_next_end:
  assumes "ex_db_c_get ext c (env s) = (DB_NOTFOUND, k, d, e)" "ex_db_c_close ext c e = (DB_OK, e')"
  shows "db_filename_curs_next ext c s = Inr (None, s\<lparr>env := e'\<rparr>)"
  using assms by (simp add: db_filename_curs_next_def db_curs_next_def db_curs_end_def)

lemma summary_fetched:
  assumes "db_ready ext A kSummary s" "db_view A kSummary s (be32 ident) = Some (summary_bytes a)" "summary_ok ident a"
  shows "db_summary_fetch_last ext ident s = Inr (Some a, s)"
proof -
  obtain h where h: "database_ptrs s kSummary = Some h" using assms(1) by (auto simp: db_ready_def)
  obtain k where k: "int_key ident = Inr k" "ios_holds (be32 ident) k" by (rule int_key_run)
  obtain out where out: "db_get ext kSummary k ios_new s = Inr (out, s)" "ios_holds (summary_bytes a) out"
    using db_get_holds [OF assms(1) k(2)] assms(2) by auto
  have "ios_buffer_size out \<noteq> 0"
    using out(2) ios_holds_size [OF out(2)] length_summary_bytes [OF assms(3)] by simp
  moreover have "from_ios (db_summary_from_stream ident) out s = Inr (a, s)"
    by (rule from_ios_reads [OF out(2) summary_wire.get_reads [OF assms(3)]])
  ultimately show ?thesis
    using k(1) out(1) h by (simp add: db_summary_fetch_last_def db_summary_fetch_def db_ptr_def)
qed

section \<open>The list\<close>

text \<open>What is printed for a file with its summary.\<close>

definition entry_text :: "(u32 \<Rightarrow> byte list) \<Rightarrow> int \<Rightarrow> dbfile \<Rightarrow> dbsummary \<Rightarrow> byte list" where
  "entry_text asctime verbose f a = (case list_display_file asctime verbose f (Some a) of Inl _ \<Rightarrow> [] | Inr t \<Rightarrow> t)"

lemma db_ready_env: "A e = A (env s) \<Longrightarrow> db_ready ext A db (s\<lparr>env := e\<rparr>) = db_ready ext A db s"
  "A e = A (env s) \<Longrightarrow> db_view A db (s\<lparr>env := e\<rparr>) = db_view A db s"
  by (auto simp: db_ready_def db_view_def fun_eq_iff split: option.splits)

lemma list_loop_run:
  assumes "cursor_yields ext c (map file_row fs) (env s) e2" "ex_db_c_close ext c e2 = (DB_OK, e')"
    "cursors_read_only ext A" "db_ready ext A kSummary s"
    "\<forall>f \<in> set fs. nameable f \<and> summary_ok (dbf_file_id f) (smry f)
        \<and> db_view A kSummary s (be32 (dbf_file_id f)) = Some (summary_bytes (smry f))"
  shows "list_loop ext asctime c out s = Some (Inr
      (out @ concat (map (\<lambda>f. entry_text asctime (int_option kOption_verbose s) f (smry f)) fs), s\<lparr>env := e'\<rparr>))"
  using assms
proof (induction fs arbitrary: out s)
  case Nil
  then obtain k d where "ex_db_c_get ext c (env s) = (DB_NOTFOUND, k, d, e2)" by auto
  from curs_next_end [OF this Nil.prems(2)] show ?case by (subst list_loop.simps) simp
next
  case (Cons f fs)
  obtain e1 where e1: "ex_db_c_get ext c (env s) = (DB_OK, fst (file_row f), snd (file_row f), e1)"
    "cursor_yields ext c (map file_row fs) e1 e2" using Cons.prems(1) by auto
  let ?s = "s\<lparr>env := e1\<rparr>"
  have A: "A e1 = A (env s)" using Cons.prems(3) e1(1) by (metis cursors_read_only_def snd_conv)
  have next_f: "db_filename_curs_next ext c s = Inr (Some f, ?s)"
    by (rule curs_next_row [OF e1(1)]) (use Cons.prems(5) in simp)
  have "db_summary_fetch_last ext (dbf_file_id f) ?s = Inr (Some (smry f), ?s)"
    by (rule summary_fetched [where A = A]) (use Cons.prems(4,5) in \<open>simp_all add: db_ready_env A\<close>)
  moreover have "list_display_file asctime v f (Some (smry f)) = Inr (entry_text asctime v f (smry f))" for v
    by (simp add: entry_text_def list_display_file_def)
  moreover have "list_loop ext asctime c (out @ entry_text asctime (int_option kOption_verbose s) f (smry f)) ?s = Some (Inr
      ((out @ entry_text asctime (int_option kOption_verbose s) f (smry f))
        @ concat (map (\<lambda>f. entry_text asctime (int_option kOption_verbose ?s) f (smry f)) fs), ?s\<lparr>env := e'\<rparr>))"
    by (rule Cons.IH) (use e1(2) Cons.prems(2-5) in \<open>simp_all add: db_ready_env A\<close>)
  moreover have "int_option kOption_verbose ?s = int_option kOption_verbose s" by (simp add: int_option_def)
  ultimately show ?case using next_f by (subst list_loop.simps) simp
qed

section \<open>Property\<close>


text \<open>An archive of one file: a library whose state is the position of its cursor and the contents of the databases.\<close>

definition one_file :: dbfile where
  "one_file = \<lparr>dbf_filename = Some (cstr ''a''), dbf_file_id = 1, dbf_version = 0\<rparr>"

definition list_db :: "(byte list \<times> byte list) list \<Rightarrow> (nat \<times> (byte list \<Rightarrow> byte list \<Rightarrow> pointer)) external" where
  "list_db rows = \<lparr>ex_db_create = (\<lambda>_. True), ex_db_open = (\<lambda>_ e. (DB_OK, e)), ex_db_close = (\<lambda>_ e. (DB_OK, e)),
     ex_db_get = (\<lambda>h k e. case snd e h k of None \<Rightarrow> (DB_NOTFOUND, []) | Some d \<Rightarrow> (DB_OK, d)),
     ex_db_put = (\<lambda>h k d (n, m). (DB_OK, (n, m(h := (m h)(k \<mapsto> d))))), ex_db_del = (\<lambda>h k e. (DB_ERROR, e)),
     ex_db_sync = (\<lambda>_ e. e), ex_db_cursor = (\<lambda>_ (n, m). (DB_OK, 0, (0, m))),
     ex_db_c_get = (\<lambda>_ (n, m). if n < length rows then (DB_OK, fst (rows ! n), snd (rows ! n), (Suc n, m)) else (DB_NOTFOUND, [], [], (n, m))),
     ex_db_c_close = (\<lambda>_ e. (DB_OK, e)),
     ex_rand = (\<lambda>e. (4, e)), ex_time = (\<lambda>_. 0), ex_garbage = (\<lambda>n. replicate n 0), ex_sha1 = (\<lambda>_. replicate 20 0),
     ex_sort = (\<lambda>_ bs. bs), ex_compress = (\<lambda>d _. Some d),
     ex_uncompress = (\<lambda>d _. Some d), ex_crypto_ok = True, ex_ivsize = 16, ex_keysize = 32,
     ex_yarrow_read = (\<lambda>n e. (replicate n 1, e)), ex_sha256 = (\<lambda>_. replicate 32 9), ex_ctr = (\<lambda>_ _ d. d)\<rparr>"

definition one_summary :: dbsummary where
  "one_summary = sample_summary\<lparr>summary_id := 1\<rparr>"

definition one_file_contents :: "byte list \<Rightarrow> byte list \<Rightarrow> pointer" where
  "one_file_contents h k = (if h = database_names kSummary \<and> k = be32 1 then Some (summary_bytes one_summary) else None)"

text \<open>The peer of the samples over that library, with its databases open.\<close>

definition list_peer :: "(nat \<times> (byte list \<Rightarrow> byte list \<Rightarrow> pointer)) peer" where
  "list_peer = \<lparr>int_option_array = (\<lambda>_. 0), char_option_array = (\<lambda>_. None), home_variable = None,
     file_sys = \<lparr>fs_nodes = (\<lambda>_. None), fs_refuses = (\<lambda>_. False)\<rparr>, archive_dir_cache = None,
     database_ptrs = (\<lambda>db. Some (database_names db)), env = (5, one_file_contents),
     ios_read_buf = ios_new, ios_write_buf = ios_new, chan_out = None, ignore_input = False,
     ignore_output = False, main_loop_running = False, work_list = [], more_work = 0,
     cover_block_length = 0, checksum_hash = hash_initial, g_crypto = None\<rparr>"


end
