(* ===== verification/Spec2Isabelle.thy ===== *)
theory Spec2Isabelle
  imports Prelude Ios Stdio Checksum Hash Weak_Index Queue Block Covering World Database Stores Peer
    Crypt Messages Tickets Server Client Archive Frame Event_Loop Commands Transfers Restore Fileio Paths Wrappers
    Cpp_Mode Cpp_Crypt Cpp_Compress Cpp_Block Cpp_Transport Cpp_Communicator Cpp_Staging Cpp_Config Cpp_Root Cpp_Main
    Coprocess Diagnostics Browser Listing
begin

text \<open>
  A model of cryptar: of version 1 (the C program in \<open>src/version-1\<close>), a backup program whose client
  cuts files into blocks and keeps them, compressed and encrypted, in the block store of a server, and of the library that is the
  beginning of its successor (the C++ program in \<open>src/src\<close>, theories \<open>Cpp_\<dots>\<close>).  The two share no code.

  \<^bold>\<open>How the program works.\<close>  \<open>main.c\<close> parses the command line (\<open>option.c\<close>, \<open>options.c\<close>) and becomes a
  client or a server.  A client starts the server's command (\<open>coprocess.c\<close>), greets it, and walks over
  the files to archive (\<open>archive.c\<close>) or over its database of names (\<open>extract.c\<close>, \<open>list.c\<close>).  For each file
  it makes a work ticket (\<open>workticket.c\<close>) with a block list.  A file that is new is cut into blocks;
  of a known file the old block list is fetched (\<open>requests.c\<close>), and with a hash table of the rolling
  checksums of the file (\<open>checksum.c\<close>, \<open>hash.c\<close>) the old blocks that are still in it are found, so that
  only the rest is cut into new blocks (\<open>covering.c\<close>, \<open>block.c\<close>).  The event loop (\<open>io.c\<close>) lets the tickets fill the output
  whenever it is short, and dispatches the packets that arrive (\<open>protocol.c\<close>).  Blocks travel
  compressed and encrypted (\<open>compress.c\<close>, \<open>encryption.c\<close>) in buffers (\<open>ios.c\<close>); both sides keep what they know
  in Berkeley DB (\<open>db_misc.c\<close>, \<open>constants.c\<close>, \<open>prefs.c\<close>, \<open>filename.c\<close>, \<open>summary.c\<close>, \<open>remote.c\<close>, \<open>key.c\<close>).

  \<^bold>\<open>How it is modelled.\<close>  A C function is a function of the state it reads and writes; it returns its result and
  the new state, or a fault: a failed assertion, an invalid access, other undefined behaviour, an
  exit, or a loop that never ends (\<open>Prelude\<close>).  Integers are words of their width.  The static
  variables of a process are the fields of one record, \<open>proc\<close> in \<open>World\<close> and \<open>peer\<close> in \<open>Peer\<close>.  Loops
  are recursive functions that are total where the loop always ends (the sending loops of a
  ticket, the rolling pass, \<open>write_file\<close>, \<open>clean_fname\<close>) and \<open>option\<close>-valued, with \<open>None\<close> for a loop that runs for ever,
  where it need not end (the cover, the waiting for room, the dispatcher, the cursors).
  No fuel is used.  Messages that are only printed are left out.

  The theories, in the order of the components:

  \<^item> \<open>Prelude\<close>: faults, the combinators of programs, strings, big-endian integers.
  \<^item> \<open>Ios\<close>: the buffers of \<open>ios.c\<close>, and \<open>writes\<close> and \<open>reads\<close>, by which every serialisation is specified
    field by field; the locale \<open>wire_format\<close>, interpreted for integers, blocks, summaries, messages and
    block lists, gives the round trips.
  \<^item> \<open>Stdio\<close>, \<open>Checksum\<close>, \<open>Hash\<close>, \<open>Weak_Index\<close>: files, the two checksums, the table (locale \<open>checksum_table\<close>),
    and the pass that indexes every window of a file.  The rolling update equals the checksum of the
    next window; the index holds exactly the windows.
  \<^item> \<open>Queue\<close>: \<open>queue.c\<close> as a first-in first-out queue (locale \<open>fifo\<close>).
  \<^item> \<open>Block\<close>, \<open>Covering\<close>: blocks and covers.  The reused blocks are in the file, the cover is found, and
    how much of the file it covers.
  \<^item> \<open>World\<close>, \<open>Wrappers\<close>: options, the file system, the libraries (\<open>external\<close>), and \<open>syscall.c\<close>, which does nothing in a
    dry run.
  \<^item> \<open>Database\<close>, \<open>Stores\<close>: \<open>db_misc.c\<close> as keyed stores (locale \<open>keyed_store\<close>), the counters of
    identifiers, and the records of each database.
  \<^item> \<open>Peer\<close>, \<open>Crypt\<close>, \<open>Messages\<close>: one end of a connection, packing and unpacking, messages and frames.
  \<^item> \<open>Tickets\<close>, \<open>Server\<close>, \<open>Client\<close>, \<open>Archive\<close>: the tickets, the handlers of both sides, the walks.  The server
    refines an abstract store (\<open>store_run\<close>): a map from identifiers to blocks and a counter.
  \<^item> \<open>Frame\<close>: which parts of the process an operation leaves alone (locales \<open>undisturbed\<close> and its extensions).
  \<^item> \<open>Event_Loop\<close>: the dispatcher, the two handlers of \<open>io.c\<close>, and the step relation of a process whose
    labels are the events that GLib delivers.  A server answers a stream of requests however
    it is cut; its dispatcher returns; options never change.
  \<^item> \<open>Commands\<close>: the command line, \<open>do_create\<close>, \<open>do_list\<close>, \<open>do_cmd\<close>, the server and \<open>main\<close>.
  \<^item> \<open>Transfers\<close>, \<open>Restore\<close>: what a file goes through: the counter of a ticket counts the blocks in flight
    and the block list is sent last; blocks are checked before they are written; what a restored
    file contains.
  \<^item> \<open>Fileio\<close>, \<open>Paths\<close>: \<open>fileio.c\<close>, \<open>util.c\<close> and \<open>env.c\<close>, which are linked into the program.
  \<^item> \<open>Coprocess\<close>: the descriptors of the two processes of \<open>piped_child\<close>; they are the two ends of the same pipes, and
    neither holds an end of the other.
  \<^item> \<open>Diagnostics\<close>: \<open>log.c\<close> and \<open>cleanup.c\<close>, and the self test of \<open>compress.c\<close> and \<open>main.c\<close>: when it is silent, and how little
    it compares.
  \<^item> \<open>Browser\<close>, \<open>Listing\<close>: \<open>cryptar-db.c\<close> with what it prints, and what \<open>do_list\<close> prints.  Over the rows that a cursor yields
    (\<open>cursor_lists\<close>), both end and print each record once; stored blocks cannot be shown.

  This theory has the property that spans the components of version 1: a new file that is cut, stored and
  restored.

  \<^bold>\<open>The C++ library.\<close>  A block (\<open>block.cpp\<close>) is compressed and encrypted when its contents are set (\<open>compress.cpp\<close>,
  \<open>crypt.cpp\<close>) and lives in a store that its transport names (\<open>transport.cpp\<close>).  A communicator (\<open>communicate.cpp\<close>) writes queued blocks in
  batches from a thread of its own and calls their completion tokens.  A configuration (\<open>config.cpp\<close>) is kept in an encrypted file and leads
  to the root block (\<open>root.cpp\<close>), which names the stores.  \<open>main.cpp\<close> only asks for a password so far.  An exception, a failed
  assertion or undefined behaviour is the left side of a sum (\<open>exn\<close>); \<open>None\<close> is a call that never returns.

  \<^item> \<open>Cpp_Mode\<close>, \<open>Cpp_Crypt\<close>, \<open>Cpp_Compress\<close>: modes, digests, keys, the cipher and compression.  Decryption and
    decompression are inverse to their partners, which includes that the doubling of the buffer ends; the key of a passphrase is its beginning.
  \<^item> \<open>Cpp_Block\<close>: blocks, data blocks and completion tokens; round trips of contents, the order of completions.
  \<^item> \<open>Cpp_Transport\<close>: the disk and \<open>TransportFS\<close>.  The locale \<open>block_transport\<close> states what a transport owes to blocks and what follows
    for a series of writes; the file system is an instance.
  \<^item> \<open>Cpp_Communicator\<close>, \<open>Cpp_Staging\<close>: the queue and its batches as functions, and the thread, the clients that push and the one
    that waits as a step relation.  The steps refine the function; order, bounds and the guarantee of \<open>wait\<close> are invariants of
    the relation; over \<open>TransportFS\<close>, what was sent can be read back.
  \<^item> \<open>Cpp_Config\<close>, \<open>Cpp_Root\<close>, \<open>Cpp_Main\<close>: configurations and their files, the map of stores, the command line.

  \<^bold>\<open>What is assumed.\<close>  Libraries are parameters: the record \<open>external\<close> has Berkeley DB, zlib, the counter mode, SHA-1, the
  generators of random bytes, the sort of GLib and the contents of fresh memory.  Where a property needs their
  documented behaviour, it is a named hypothesis: \<open>db_works\<close> (what was put is got), \<open>zlib_works\<close>, \<open>ctr_works\<close>
  and \<open>prng_works\<close> in \<open>crypt_works\<close>, \<open>permutes_arrays\<close> (a sort permutes), \<open>plain_dirs\<close> (\<open>chdir\<close> goes where the path says),
  \<open>cursor_lists\<close> (a cursor yields each row once and then its end) and \<open>cursors_read_only\<close>.
  Each has an instance in the witnesses.  For the C++ library the records \<open>suite\<close>, \<open>bzip2\<close> and \<open>boost\<close> hold Crypto++, libbz2 and
  the archives of Boost, and \<open>digests_work\<close>, \<open>aes_works\<close>, \<open>bz_works\<close>, \<open>rng_works\<close>, \<open>archive_works\<close> and \<open>parses_declared\<close> their documented
  behaviour.  Two pieces of \<open>protocol.c\<close> are not C: the branch of \<open>accept_hello\<close> that
  creates an archive is pseudo code and \<open>do_accept_hello_ack\<close> uses an undeclared variable; both are parameters
  (\<open>am_creates\<close>, \<open>am_ph_archive_id\<close>), of which \<open>quiet_creates\<close> and \<open>keeps_options\<close> say that they do not touch the
  buffers or the options.

  \<^bold>\<open>What the model shows of the code.\<close>  Most handlers do what they are meant to do, but the program as it stands does
  not: no client gets as far as the connection (\<open>client_never_connects\<close>), no server can be started
  (\<open>daemon_never_serves\<close>), and none would accept a login (\<open>server_login_stops\<close>).  The properties of the server and of
  the transfers therefore start from a process that is already connected; they say what
  the handlers guarantee once these faults are repaired.  Other properties pin faults of the data
  path: the end of a file is lost (\<open>cover_misses_end_of_file\<close>, \<open>backup_then_extract\<close>), a block length of 0 never ends,
  a ticket with nothing to send and an extraction are never finished, stale blocks are sent with a
  block list, and an initialisation vector with a zero byte destroys a block.

  \<^bold>\<open>Not modelled.\<close>  The functions that free records or only print a usage or the flags, the handlers of signals but one, \<open>fork\<close> and
  \<open>exec\<close> themselves (the result of \<open>fork\<close> is a parameter, and the child is followed up to \<open>exec\<close>), and code that is compiled out (\<open>sum.c\<close>, \<open>hash_verify\<close>).  Of the C++ program:
  \<open>db.cpp\<close>, whose functions have no bodies, \<open>filesystem.cpp\<close> and the parts of other files that are compiled out, \<open>act.h\<close>, which declares
  classes that are defined nowhere, and the test programs.  The bounds of \<open>size_t\<close> and of the memory are not modelled: \<open>g_malloc\<close>
  always succeeds, and so do the arrays that \<open>compress.cpp\<close> puts on the stack.  The communicator reads its flag and the length of
  its queue without the lock; the model takes such a read as one step.
\<close>

section \<open>A file, there and back\<close>

text \<open>The number of bytes of a new file that its cover reaches.\<close>

definition kept :: "nat \<Rightarrow> nat \<Rightarrow> nat" where
  "kept bl fl = (if fl \<le> bl then fl else fl - min (fl mod bl) (bl - fl mod bl))"

lemma tail_range_kept: "0 < bl \<Longrightarrow> tail_range bl fl 0 = {0..<kept bl fl}"
proof -
  assume "0 < bl"
  define r where "r = fl mod bl"
  have "r < bl" "r \<le> fl" using \<open>0 < bl\<close> by (simp_all add: r_def)
  then show ?thesis by (auto simp: tail_range_def kept_def Let_def min_def simp flip: r_def)
qed

lemma cover_new_file:
  assumes "permutes_arrays gsort" "sane_block_length bl" "unat fl + unat bl < 4294967296"
  obtains cov where "cover_complete_cover gsort bl fl [] = Some cov"
    "(\<Union>b\<in>set cov. block_range b) = {0..<kept (unat bl) (unat fl)}"
proof -
  obtain new where r: "cover_complete_cover gsort bl fl [] = Some (gsort block_compare_by_offset [] @ new)"
    "covered new = tail_range (unat bl) (unat fl) 0" "list_all fresh_block new"
    by (rule cover_complete_result [OF assms(1,2) _ assms(3), of "[]"]) auto
  have "covered new = (\<Union>b\<in>set new. block_range b)"
    using r(3) by (auto simp: covered_def list_all_iff fresh_block_def)
  then show thesis
    using that r permutes_arraysD(2) [OF assms(1)] tail_range_kept sane_block_lengthD(1) [OF assms(2)] by simp
qed

lemma window_take: "o' + n \<le> k \<Longrightarrow> window (take k D) n o' = window D n o'"
  by (simp add: window_def drop_take min_def)

lemma cut_take: "block_range b \<subseteq> {0..<k} \<Longrightarrow> cut_block ext (take k D) b = cut_block ext D b"
proof (cases "unat (bl_length b) = 0")
  case True
  then show ?thesis by (simp add: cut_block_def window_def)
next
  case False
  assume "block_range b \<subseteq> {0..<k}"
  moreover have "unat (offset b) + unat (bl_length b) - 1 \<in> block_range b"
    using False by (auto simp: block_range_def)
  ultimately have "unat (offset b) + unat (bl_length b) \<le> k" by auto
  then show ?thesis by (simp add: cut_block_def window_take)
qed

lemma agrees_all:
  assumes "agrees D r {0..<length D}"
  shows "r = D"
proof (rule nth_equalityI)
  have "length D \<le> length r"
  proof (rule ccontr)
    assume "\<not> length D \<le> length r"
    then have "length r \<in> {0..<length D}" by simp
    then show False using assms unfolding agrees_def by blast
  qed
  then show "length r = length D" using assms by (simp add: agrees_def)
  then show "\<And>j. j < length r \<Longrightarrow> r ! j = D ! j" using assms by (simp add: agrees_def)
qed



end
